(* ===== verification/Prelude.thy ===== *)
theory Prelude
  imports Main "HOL-Library.Word" "HOL-Library.AList" "HOL-Library.Sublist" "HOL-Library.Code_Target_Nat"
begin

text \<open>
  Shared vocabulary of the development: Rust's string operations on UTF-8 byte strings, the
  unsigned integer operations the code spells out (saturating, wrapping, checked parsing), the
  association lists that stand for the code's hash maps, and the theorem collections the
  component theories use.

  A Rust \<open>str\<close> is a HOL \<^typ>\<open>string\<close> holding its UTF-8 bytes, one \<^typ>\<open>char\<close> per byte: byte
  offsets, lengths, prefixes and ASCII tests then mean what they mean in the code. Where the
  standard library works on code points (\<open>trim\<close>, \<open>split_whitespace\<close>), the definitions recognise
  the UTF-8 encodings of the Unicode \<open>White_Space\<close> characters.
\<close>

section \<open>Types\<close>

type_synonym str = string
type_synonym u8 = "8 word"
type_synonym bytes = "8 word list"
type_synonym headers = "(str \<times> str) list"
  \<comment> \<open>\<open>Vec<(String, String)>\<close>: order and duplicates matter\<close>

abbreviation (input) byte :: "char \<Rightarrow> nat" where
  "byte c \<equiv> of_char c"

named_theorems str_simps \<open>equations of the string operations\<close>

section \<open>ASCII\<close>

definition ascii_lower :: "char \<Rightarrow> char" where
  \<comment> \<open>\<open>u8::to_ascii_lowercase\<close>\<close>
  "ascii_lower c = (if 65 \<le> byte c \<and> byte c \<le> 90 then char_of (byte c + 32) else c)"

definition to_lower :: "str \<Rightarrow> str" where
  \<comment> \<open>\<open>str::to_ascii_lowercase\<close>\<close>
  "to_lower s = map ascii_lower s"

definition eq_ci :: "str \<Rightarrow> str \<Rightarrow> bool" where
  \<comment> \<open>\<open>str::eq_ignore_ascii_case\<close>\<close>
  "eq_ci a b \<longleftrightarrow> to_lower a = to_lower b"

definition is_digit :: "char \<Rightarrow> bool" where
  "is_digit c \<longleftrightarrow> 48 \<le> byte c \<and> byte c \<le> 57"

definition is_upper :: "char \<Rightarrow> bool" where
  "is_upper c \<longleftrightarrow> 65 \<le> byte c \<and> byte c \<le> 90"

definition is_lower :: "char \<Rightarrow> bool" where
  "is_lower c \<longleftrightarrow> 97 \<le> byte c \<and> byte c \<le> 122"

definition is_alpha :: "char \<Rightarrow> bool" where
  "is_alpha c \<longleftrightarrow> is_upper c \<or> is_lower c"

definition is_alnum :: "char \<Rightarrow> bool" where
  "is_alnum c \<longleftrightarrow> is_alpha c \<or> is_digit c"

lemma byte_ascii_lower:
  "byte (ascii_lower c) = (if 65 \<le> byte c \<and> byte c \<le> 90 then byte c + 32 else byte c)"
  by (simp add: ascii_lower_def of_char_of)

lemma ascii_lower_idem [simp]: "ascii_lower (ascii_lower c) = ascii_lower c"
  using byte_ascii_lower [of c] by (simp add: ascii_lower_def of_char_of)

lemma to_lower_idem [simp]: "to_lower (to_lower s) = to_lower s"
  by (simp add: to_lower_def)

lemma length_to_lower [simp]: "length (to_lower s) = length s"
  by (simp add: to_lower_def)

lemma to_lower_append [simp]: "to_lower (a @ b) = to_lower a @ to_lower b"
  by (simp add: to_lower_def)

lemma to_lower_Nil [simp]: "to_lower [] = []"
  by (simp add: to_lower_def)

lemma to_lower_Cons [simp]: "to_lower (c # s) = ascii_lower c # to_lower s"
  by (simp add: to_lower_def)

lemma to_lower_eq_Nil [simp]: "to_lower s = [] \<longleftrightarrow> s = []" "[] = to_lower s \<longleftrightarrow> s = []"
  by (simp_all add: to_lower_def)

lemma eq_ci_refl [simp]: "eq_ci s s"
  by (simp add: eq_ci_def)

lemma eq_ci_sym: "eq_ci a b \<longleftrightarrow> eq_ci b a"
  by (auto simp: eq_ci_def)

lemma eq_ci_trans: "eq_ci a b \<Longrightarrow> eq_ci b c \<Longrightarrow> eq_ci a c"
  by (simp add: eq_ci_def)

lemma eq_ci_to_lower [simp]: "eq_ci (to_lower a) b = eq_ci a b" "eq_ci a (to_lower b) = eq_ci a b"
  by (simp_all add: eq_ci_def)

text \<open>A character that is no letter is its own lower case, and nothing else is mapped to it.\<close>

lemma ascii_lower_eq_nonletter:
  assumes "\<not> is_alpha d"
  shows "ascii_lower c = d \<longleftrightarrow> c = d"
proof
  assume eq: "ascii_lower c = d"
  show "c = d"
  proof (cases "65 \<le> byte c \<and> byte c \<le> 90")
    case True
    then have "byte d = byte c + 32" using byte_ascii_lower [of c] eq by simp
    with True have "is_lower d" by (simp add: is_lower_def)
    with assms show ?thesis by (simp add: is_alpha_def)
  next
    case False
    with eq show ?thesis by (simp add: ascii_lower_def)
  qed
next
  assume "c = d"
  with assms show "ascii_lower c = d"
    by (auto simp: ascii_lower_def is_alpha_def is_upper_def)
qed

section \<open>Prefixes, searching, splitting\<close>

fun starts_with :: "str \<Rightarrow> str \<Rightarrow> bool" where
  \<comment> \<open>\<open>starts_with s pat\<close>: \<open>s.starts_with(pat)\<close>\<close>
  "starts_with s [] = True"
| "starts_with [] (p # ps) = False"
| "starts_with (c # s) (p # ps) = (c = p \<and> starts_with s ps)"

definition ends_with :: "str \<Rightarrow> str \<Rightarrow> bool" where
  "ends_with s pat \<longleftrightarrow> starts_with (rev s) (rev pat)"

fun strip_prefix :: "str \<Rightarrow> str \<Rightarrow> str option" where
  \<comment> \<open>\<open>strip_prefix s pat\<close>: \<open>s.strip_prefix(pat)\<close>\<close>
  "strip_prefix s [] = Some s"
| "strip_prefix [] (p # ps) = None"
| "strip_prefix (c # s) (p # ps) = (if c = p then strip_prefix s ps else None)"

fun find_sub :: "str \<Rightarrow> str \<Rightarrow> nat option" where
  \<comment> \<open>\<open>find_sub pat s\<close>: \<open>s.find(pat)\<close>, the byte offset of the first occurrence\<close>
  "find_sub pat [] = (if pat = [] then Some 0 else None)"
| "find_sub pat (c # s) =
     (if starts_with (c # s) pat then Some 0 else map_option Suc (find_sub pat s))"

definition contains :: "str \<Rightarrow> str \<Rightarrow> bool" where
  \<comment> \<open>\<open>contains s pat\<close>: \<open>s.contains(pat)\<close>\<close>
  "contains s pat \<longleftrightarrow> find_sub pat s \<noteq> None"

fun find_char :: "(char \<Rightarrow> bool) \<Rightarrow> str \<Rightarrow> nat option" where
  \<comment> \<open>\<open>s.find(p)\<close> for a pattern of ASCII characters\<close>
  "find_char p [] = None"
| "find_char p (c # s) = (if p c then Some 0 else map_option Suc (find_char p s))"

fun split_on :: "(char \<Rightarrow> bool) \<Rightarrow> str \<Rightarrow> str list" where
  \<comment> \<open>\<open>s.split(p)\<close> for a pattern of ASCII characters: never the empty list\<close>
  "split_on p [] = [[]]"
| "split_on p (c # s) =
     (if p c then [] # split_on p s
      else (case split_on p s of [] \<Rightarrow> [[c]] | x # xs \<Rightarrow> (c # x) # xs))"

fun split_once :: "char \<Rightarrow> str \<Rightarrow> (str \<times> str) option" where
  \<comment> \<open>\<open>s.split_once(c)\<close> for an ASCII character\<close>
  "split_once d [] = None"
| "split_once d (c # s) =
     (if c = d then Some ([], s) else map_option (\<lambda>(a, b). (c # a, b)) (split_once d s))"

fun trim_end_matches :: "char \<Rightarrow> str \<Rightarrow> str" where
  \<comment> \<open>\<open>s.trim_end_matches(c)\<close>\<close>
  "trim_end_matches d [] = []"
| "trim_end_matches d (c # s) =
     (let t = trim_end_matches d s in if t = [] \<and> c = d then [] else c # t)"

lemma starts_with_iff: "starts_with s p \<longleftrightarrow> (\<exists>t. s = p @ t)"
  by (induction s p rule: starts_with.induct) auto

lemma starts_with_append [simp]: "starts_with (p @ s) p"
  by (auto simp: starts_with_iff)

lemma starts_with_refl [simp]: "starts_with s s"
  by (auto simp: starts_with_iff)

lemma starts_with_length: "starts_with s p \<Longrightarrow> length p \<le> length s"
  by (auto simp: starts_with_iff)

lemma strip_prefix_iff: "strip_prefix s p = Some t \<longleftrightarrow> s = p @ t"
  by (induction s p rule: strip_prefix.induct) auto

lemma strip_prefix_None_iff: "strip_prefix s p = None \<longleftrightarrow> \<not> starts_with s p"
  by (induction s p rule: strip_prefix.induct) auto

lemma find_sub_Some_take:
  "find_sub pat s = Some i \<Longrightarrow> i + length pat \<le> length s \<and> starts_with (drop i s) pat"
proof (induction pat s arbitrary: i rule: find_sub.induct)
  case (2 pat c s)
  show ?case
  proof (cases "starts_with (c # s) pat")
    case True
    with 2 have "i = 0" by simp
    with True show ?thesis by (auto dest: starts_with_length)
  next
    case False
    with 2 show ?thesis by auto
  qed
qed (auto split: if_splits)

lemma find_sub_first:
  "find_sub pat s = Some i \<Longrightarrow> j < i \<Longrightarrow> \<not> starts_with (drop j s) pat"
proof (induction pat s arbitrary: i j rule: find_sub.induct)
  case (2 pat c s)
  then show ?case by (cases j) (auto split: if_splits)
qed (auto split: if_splits)

lemma find_sub_None_iff: "find_sub pat s = None \<longleftrightarrow> (\<forall>a b. s \<noteq> a @ pat @ b)"
proof (induction pat s rule: find_sub.induct)
  case (1 pat)
  then show ?case by auto
next
  case (2 pat c s)
  show ?case
  proof (cases "starts_with (c # s) pat")
    case True
    then have "\<exists>a b. c # s = a @ pat @ b" by (metis append_Nil starts_with_iff)
    with True show ?thesis by simp
  next
    case False
    then have "(\<exists>a b. c # s = a @ pat @ b) \<longleftrightarrow> (\<exists>a b. s = a @ pat @ b)"
      by (auto simp: starts_with_iff Cons_eq_append_conv)
    with False 2 show ?thesis by auto
  qed
qed

lemma contains_iff: "contains s pat \<longleftrightarrow> (\<exists>a b. s = a @ pat @ b)"
  by (simp add: contains_def find_sub_None_iff del: not_None_eq)

lemma find_char_None_iff: "find_char p s = None \<longleftrightarrow> (\<forall>c\<in>set s. \<not> p c)"
  by (induction s) auto

lemma find_char_Some:
  "find_char p s = Some i \<Longrightarrow> i < length s \<and> p (s ! i) \<and> (\<forall>c\<in>set (take i s). \<not> p c)"
  by (induction s arbitrary: i) (auto split: if_splits)

lemma find_char_le: "find_char p s = Some i \<Longrightarrow> i \<le> length s"
  by (drule find_char_Some) simp

lemma split_on_ne [simp]: "split_on p s \<noteq> []"
  by (induction s) (auto split: list.splits)

lemma split_on_no_sep: "x \<in> set (split_on p s) \<Longrightarrow> c \<in> set x \<Longrightarrow> \<not> p c"
  by (induction s arbitrary: x) (fastforce split: if_splits list.splits)+

lemma split_on_subset: "x \<in> set (split_on p s) \<Longrightarrow> set x \<subseteq> set s"
  by (induction s arbitrary: x) (fastforce split: if_splits list.splits)+

lemma split_on_chars: "c \<in> set s \<Longrightarrow> \<not> p c \<Longrightarrow> \<exists>x\<in>set (split_on p s). c \<in> set x"
  by (induction s) (fastforce split: if_splits list.splits)+

lemma split_on_id: "\<forall>c\<in>set s. \<not> p c \<Longrightarrow> split_on p s = [s]"
  by (induction s) auto

lemma split_on_append_sep:
  "\<forall>c\<in>set a. \<not> p c \<Longrightarrow> p d \<Longrightarrow> split_on p (a @ d # b) = a # split_on p b"
  by (induction a) auto

lemma split_on_append: "p d \<Longrightarrow> split_on p (a @ d # b) = split_on p a @ split_on p b"
proof (induction a)
  case (Cons c a)
  then show ?case by (cases "split_on p a") (auto split: list.splits)
qed simp

lemma split_on_Cons_no: "\<not> p c \<Longrightarrow> split_on p (c # s) = (c # hd (split_on p s)) # tl (split_on p s)"
  by (cases "split_on p s") auto

lemma split_once_Some_iff:
  "split_once d s = Some (a, b) \<longleftrightarrow> s = a @ d # b \<and> d \<notin> set a"
proof (induction s arbitrary: a)
  case (Cons c s)
  then show ?case by (cases a) auto
qed simp

lemma split_once_None_iff: "split_once d s = None \<longleftrightarrow> d \<notin> set s"
  by (induction s) auto

lemma split_once_length: "split_once d s = Some (a, b) \<Longrightarrow> length b < length s"
  by (simp add: split_once_Some_iff)

lemma trim_end_matches_last: "trim_end_matches d s = [] \<or> last (trim_end_matches d s) \<noteq> d"
  by (induction s) (auto simp: Let_def)

lemma trim_end_matches_decomp: "\<exists>n. s = trim_end_matches d s @ replicate n d"
proof (induction s)
  case (Cons c s)
  then obtain n where n: "s = trim_end_matches d s @ replicate n d" by blast
  show ?case
  proof (cases "trim_end_matches d s = [] \<and> c = d")
    case True
    with n have "c # s = replicate (Suc n) d" by simp
    with True show ?thesis by (auto simp: Let_def intro!: exI [of _ "Suc n"])
  next
    case False
    with n show ?thesis by (auto simp: Let_def)
  qed
qed simp

lemma trim_end_matches_subset: "set (trim_end_matches d s) \<subseteq> set s"
  by (induction s) (auto simp: Let_def)

lemma trim_end_matches_id: "s = [] \<or> last s \<noteq> d \<Longrightarrow> trim_end_matches d s = s"
  by (induction s) (auto simp: Let_def split: if_splits)

lemma trim_end_matches_idem [simp]:
  "trim_end_matches d (trim_end_matches d s) = trim_end_matches d s"
  using trim_end_matches_id trim_end_matches_last by blast

lemma trim_end_matches_snoc [simp]: "trim_end_matches d (s @ [d]) = trim_end_matches d s"
  by (induction s) (auto simp: Let_def)

lemma trim_end_matches_lower:
  assumes "\<not> is_alpha d"
  shows "trim_end_matches d (to_lower s) = to_lower (trim_end_matches d s)"
  by (induction s) (auto simp: Let_def ascii_lower_eq_nonletter [OF assms])

section \<open>White space\<close>

fun ws_prefix :: "str \<Rightarrow> nat" where
  \<comment> \<open>the length in bytes of the \<open>White_Space\<close> character the string begins with, 0 if none:
    U+0009..U+000D, U+0020, U+0085, U+00A0, U+1680, U+2000..U+200A, U+2028, U+2029, U+202F,
    U+205F and U+3000 in UTF-8\<close>
  "ws_prefix [] = 0"
| "ws_prefix [a] = (if 9 \<le> byte a \<and> byte a \<le> 13 \<or> byte a = 32 then 1 else 0)"
| "ws_prefix [a, b] =
     (if 9 \<le> byte a \<and> byte a \<le> 13 \<or> byte a = 32 then 1
      else if byte a = 194 \<and> (byte b = 133 \<or> byte b = 160) then 2 else 0)"
| "ws_prefix (a # b # c # s) =
     (if 9 \<le> byte a \<and> byte a \<le> 13 \<or> byte a = 32 then 1
      else if byte a = 194 \<and> (byte b = 133 \<or> byte b = 160) then 2
      else if byte a = 225 \<and> byte b = 154 \<and> byte c = 128 then 3
      else if byte a = 226 \<and> byte b = 128 \<and>
        (128 \<le> byte c \<and> byte c \<le> 138 \<or> byte c = 168 \<or> byte c = 169 \<or> byte c = 175) then 3
      else if byte a = 226 \<and> byte b = 129 \<and> byte c = 159 then 3
      else if byte a = 227 \<and> byte b = 128 \<and> byte c = 128 then 3 else 0)"

definition ws_suffix :: "str \<Rightarrow> nat" where
  \<comment> \<open>the same at the end of the string\<close>
  "ws_suffix s =
     (let n = length s in
      if 1 \<le> n \<and> ws_prefix (drop (n - 1) s) = 1 then 1
      else if 2 \<le> n \<and> ws_prefix (drop (n - 2) s) = 2 then 2
      else if 3 \<le> n \<and> ws_prefix (drop (n - 3) s) = 3 then 3 else 0)"

lemma ws_prefix_le: "ws_prefix s \<le> length s"
  by (induction s rule: ws_prefix.induct) auto

lemma ws_suffix_le: "ws_suffix s \<le> length s"
  by (simp add: ws_suffix_def Let_def)

function (sequential) trim_start :: "str \<Rightarrow> str" where
  "trim_start s = (if ws_prefix s = 0 then s else trim_start (drop (ws_prefix s) s))"
  by pat_completeness auto
termination
proof (relation "measure length")
  show "ws_prefix s \<noteq> 0 \<Longrightarrow> (drop (ws_prefix s) s, s) \<in> measure length" for s
    using ws_prefix_le [of s] by auto
qed simp

function (sequential) trim_end :: "str \<Rightarrow> str" where
  "trim_end s = (if ws_suffix s = 0 then s else trim_end (take (length s - ws_suffix s) s))"
  by pat_completeness auto
termination
proof (relation "measure length")
  show "ws_suffix s \<noteq> 0 \<Longrightarrow> (take (length s - ws_suffix s) s, s) \<in> measure length" for s
    using ws_suffix_le [of s] by auto
qed simp

declare trim_start.simps [simp del] trim_end.simps [simp del]

definition trim :: "str \<Rightarrow> str" where
  \<comment> \<open>\<open>str::trim\<close>\<close>
  "trim s = trim_end (trim_start s)"

function (sequential) words_from :: "str \<Rightarrow> str \<Rightarrow> str list" where
  \<comment> \<open>the words of \<open>s\<close>, with \<open>acc\<close> the word being read\<close>
  "words_from acc [] = (if acc = [] then [] else [acc])"
| "words_from acc (c # s) =
     (if ws_prefix (c # s) = 0 then words_from (acc @ [c]) s
      else (if acc = [] then [] else [acc]) @ words_from [] (drop (ws_prefix (c # s)) (c # s)))"
  by pat_completeness auto
termination
proof (relation "measure (\<lambda>(acc, s). length s)")
  fix acc c s
  assume "ws_prefix (c # s) \<noteq> 0"
  then show "(([], drop (ws_prefix (c # s)) (c # s)), acc, c # s) \<in> measure (\<lambda>(acc, s). length s)"
    using ws_prefix_le [of "c # s"] by auto
qed simp_all

definition split_whitespace :: "str \<Rightarrow> str list" where
  \<comment> \<open>\<open>str::split_whitespace\<close>\<close>
  "split_whitespace s = words_from [] s"

fun split_once_ws :: "str \<Rightarrow> (str \<times> str) option" where
  \<comment> \<open>\<open>s.split_once(char::is_whitespace)\<close>\<close>
  "split_once_ws [] = None"
| "split_once_ws (c # s) =
     (if ws_prefix (c # s) \<noteq> 0 then Some ([], drop (ws_prefix (c # s)) (c # s))
      else map_option (\<lambda>(a, b). (c # a, b)) (split_once_ws s))"

lemma trim_start_suffix: "\<exists>p. s = p @ trim_start s"
proof (induction s rule: trim_start.induct)
  case (1 s)
  show ?case
  proof (cases "ws_prefix s = 0")
    case False
    with 1 obtain p where "drop (ws_prefix s) s = p @ trim_start (drop (ws_prefix s) s)" by blast
    then have "s = (take (ws_prefix s) s @ p) @ trim_start (drop (ws_prefix s) s)"
      by (metis append.assoc append_take_drop_id)
    then have "s = (take (ws_prefix s) s @ p) @ trim_start s"
      using False by (simp add: trim_start.simps [of s])
    then show ?thesis by blast
  qed (simp add: trim_start.simps [of s])
qed

lemma trim_end_prefix: "\<exists>p. s = trim_end s @ p"
proof (induction s rule: trim_end.induct)
  case (1 s)
  let ?t = "take (length s - ws_suffix s) s"
  show ?case
  proof (cases "ws_suffix s = 0")
    case False
    with 1 obtain p where "?t = trim_end ?t @ p" by blast
    then have "s = trim_end ?t @ (p @ drop (length s - ws_suffix s) s)"
      by (metis append.assoc append_take_drop_id)
    then have "s = trim_end s @ (p @ drop (length s - ws_suffix s) s)"
      using False by (simp add: trim_end.simps [of s])
    then show ?thesis by blast
  qed (simp add: trim_end.simps [of s])
qed

lemma trim_infix: "\<exists>a b. s = a @ trim s @ b"
  unfolding trim_def by (metis append.assoc trim_start_suffix trim_end_prefix)

lemma trim_subset: "set (trim s) \<subseteq> set s"
  using trim_infix [of s] by (metis Un_iff set_append subsetI)

lemma trim_length: "length (trim s) \<le> length s"
  using trim_infix [of s] by (metis le_add1 le_add2 length_append le_trans)

lemma trim_Nil [simp]: "trim [] = []"
  by (simp add: trim_def trim_start.simps trim_end.simps ws_suffix_def)

lemma ws_suffix_trim_end: "ws_suffix (trim_end s) = 0"
proof (induction s rule: trim_end.induct)
  case (1 s)
  then show ?case
    by (cases "ws_suffix s = 0") (simp_all add: trim_end.simps [of s])
qed

lemma trim_id: "ws_prefix s = 0 \<Longrightarrow> ws_suffix s = 0 \<Longrightarrow> trim s = s"
  by (simp add: trim_def trim_start.simps [of s] trim_end.simps [of s])

lemma ws_prefix_space: "ws_prefix (CHR '' '' # s) = 1"
  by (cases s rule: ws_prefix.cases; cases s; cases "tl s") auto

lemma trim_space: "trim (CHR '' '' # s) = trim s"
  by (simp add: trim_def trim_start.simps [of "CHR '' '' # s"] ws_prefix_space)

definition graphic :: "char \<Rightarrow> bool" where
  "graphic c \<longleftrightarrow> 33 \<le> byte c \<and> byte c \<le> 126"

lemma graphic_ascii_lower [simp]: "graphic (ascii_lower c) = graphic c"
  by (auto simp: graphic_def byte_ascii_lower)

lemma ws_prefix_not_graphic: "c \<in> set (take (ws_prefix s) s) \<Longrightarrow> \<not> graphic c"
  by (induction s rule: ws_prefix.induct) (auto simp: graphic_def numeral_eq_Suc split: if_splits)

lemma ws_suffix_not_graphic: "c \<in> set (drop (length s - ws_suffix s) s) \<Longrightarrow> \<not> graphic c"
proof -
  assume c: "c \<in> set (drop (length s - ws_suffix s) s)"
  have "ws_suffix s = 0 \<or> ws_prefix (drop (length s - ws_suffix s) s) = ws_suffix s"
    by (auto simp: ws_suffix_def Let_def)
  with c ws_prefix_not_graphic [of c "drop (length s - ws_suffix s) s"] ws_suffix_le [of s]
  show ?thesis by auto
qed

lemma trim_start_removed: "\<exists>p. s = p @ trim_start s \<and> (\<forall>c\<in>set p. \<not> graphic c)"
proof (induction s rule: trim_start.induct)
  case (1 s)
  show ?case
  proof (cases "ws_prefix s = 0")
    case False
    with 1 obtain p where "drop (ws_prefix s) s = p @ trim_start (drop (ws_prefix s) s)" "\<forall>c\<in>set p. \<not> graphic c"
      by blast
    then have "s = (take (ws_prefix s) s @ p) @ trim_start s \<and> (\<forall>c\<in>set (take (ws_prefix s) s @ p). \<not> graphic c)"
      using False ws_prefix_not_graphic [of _ s] append_take_drop_id [of "ws_prefix s" s]
      by (auto simp: trim_start.simps [of s])
    then show ?thesis by blast
  qed (simp add: trim_start.simps [of s])
qed

lemma trim_end_removed: "\<exists>p. s = trim_end s @ p \<and> (\<forall>c\<in>set p. \<not> graphic c)"
proof (induction s rule: trim_end.induct)
  case (1 s)
  show ?case
  proof (cases "ws_suffix s = 0")
    case False
    let ?t = "take (length s - ws_suffix s) s" and ?d = "drop (length s - ws_suffix s) s"
    from 1 False obtain p where "?t = trim_end ?t @ p" "\<forall>c\<in>set p. \<not> graphic c" by blast
    then have "s = trim_end s @ (p @ ?d) \<and> (\<forall>c\<in>set (p @ ?d). \<not> graphic c)"
      using False ws_suffix_not_graphic [of _ s]
      by (auto simp: trim_end.simps [of s]) (metis append.assoc append_take_drop_id)
    then show ?thesis by blast
  qed (simp add: trim_end.simps [of s])
qed

lemma contains_trim:
  assumes "contains s pat" and "pat \<noteq> []" and "\<forall>c\<in>set pat. graphic c"
  shows "contains (trim s) pat"
proof -
  have start: "contains (trim_start s) pat" if "contains s pat" for s
  proof -
    from that obtain a b where s: "s = a @ pat @ b" by (auto simp: contains_iff)
    obtain p where p: "s = p @ trim_start s" "\<forall>c\<in>set p. \<not> graphic c" using trim_start_removed by blast
    from s p(1) have eq: "a @ pat @ b = p @ trim_start s" by simp
    show ?thesis
    proof (cases "length p \<le> length a")
      case True
      have "drop (length p) (a @ pat @ b) = trim_start s" by (simp add: eq)
      with True have "trim_start s = drop (length p) a @ pat @ b" by simp
      then show ?thesis unfolding contains_iff by blast
    next
      case False
      have "(a @ pat @ b) ! length a = hd pat" using assms(2) by (simp add: nth_append hd_conv_nth)
      then have "p ! length a = hd pat" using False by (simp add: eq nth_append)
      then have "hd pat \<in> set p" using False by (metis not_le_imp_less nth_mem)
      with p(2) assms(2,3) show ?thesis by auto
    qed
  qed
  have fin: "contains (trim_end s) pat" if "contains s pat" for s
  proof -
    from that obtain a b where s: "s = a @ pat @ b" by (auto simp: contains_iff)
    obtain p where p: "s = trim_end s @ p" "\<forall>c\<in>set p. \<not> graphic c" using trim_end_removed by blast
    let ?u = "trim_end s" and ?n = "length (a @ pat)"
    from s p(1) have eq: "(a @ pat) @ b = ?u @ p" by simp
    show ?thesis
    proof (cases "?n \<le> length ?u")
      case True
      have "?u = take (length ?u) (?u @ p)" by simp
      also have "\<dots> = take (length ?u) ((a @ pat) @ b)" by (simp only: eq)
      also have "\<dots> = a @ pat @ take (length ?u - ?n) b" using True by simp
      finally have "?u = a @ pat @ take (length ?u - ?n) b" .
      then show ?thesis unfolding contains_iff by blast
    next
      case False
      have n: "?n - 1 < ?n" using assms(2) by (cases pat) auto
      have "((a @ pat) @ b) ! (?n - 1) = (a @ pat) ! (?n - 1)" by (rule nth_append_left [OF n])
      also have "\<dots> = last (a @ pat)" using assms(2) by (intro last_conv_nth [symmetric]) simp
      also have "\<dots> = last pat" using assms(2) by simp
      finally have "(?u @ p) ! (?n - 1) = last pat" by (simp only: eq)
      moreover have "\<not> ?n - 1 < length ?u" using False by simp
      ultimately have "p ! (?n - 1 - length ?u) = last pat" by (simp only: nth_append if_False)
      moreover have "?n - 1 - length ?u < length p" using False n arg_cong [OF eq, of length] by simp
      ultimately have "last pat \<in> set p" by (metis nth_mem)
      with p(2) assms(2,3) show ?thesis by auto
    qed
  qed
  show ?thesis using assms(1) by (simp add: trim_def start fin)
qed

lemma contains_lower_trim:
  assumes "contains (to_lower s) pat" and "pat \<noteq> []" and "\<forall>c\<in>set pat. graphic c"
  shows "contains (to_lower (trim s)) pat"
proof -
  from assms(1) obtain a pat' b where s: "s = a @ pat' @ b" "to_lower pat' = pat"
    by (auto simp: contains_iff to_lower_def map_eq_append_conv append_eq_map_conv)
  then have "contains s pat'" by (auto simp: contains_iff)
  moreover have "\<forall>c\<in>set pat'. graphic c" using s(2) assms(3) by (auto simp: to_lower_def)
  ultimately have "contains (trim s) pat'" using s(2) assms(2) by (intro contains_trim) auto
  then obtain a b where "trim s = a @ pat' @ b" by (auto simp: contains_iff)
  with s(2) show ?thesis by (auto simp: contains_iff)
qed

section \<open>Joining\<close>

fun join :: "str \<Rightarrow> str list \<Rightarrow> str" where
  \<comment> \<open>\<open>parts.join(sep)\<close>\<close>
  "join sep [] = []"
| "join sep [x] = x"
| "join sep (x # y # xs) = x @ sep @ join sep (y # xs)"

lemma join_Cons: "join sep (x # xs) = (if xs = [] then x else x @ sep @ join sep xs)"
  by (cases xs) auto

lemma join_infix: "x \<in> set xs \<Longrightarrow> \<exists>a b. join sep xs = a @ x @ b"
proof (induction xs)
  case (Cons y ys)
  show ?case
  proof (cases "x = y")
    case True
    then have "join sep (y # ys) = [] @ x @ (if ys = [] then [] else sep @ join sep ys)" by (simp add: join_Cons)
    then show ?thesis by blast
  next
    case False
    with Cons obtain a b where ab: "join sep ys = a @ x @ b" "ys \<noteq> []" by fastforce
    then have "join sep (y # ys) = (y @ sep @ a) @ x @ b" by (simp add: join_Cons)
    then show ?thesis by blast
  qed
qed simp

lemma contains_join: "x \<in> set xs \<Longrightarrow> contains x pat \<Longrightarrow> contains (join sep xs) pat"
proof -
  assume "x \<in> set xs" "contains x pat"
  then obtain a b c d where "join sep xs = a @ x @ b" "x = c @ pat @ d" by (metis join_infix contains_iff)
  then have "join sep xs = (a @ c) @ pat @ (d @ b)" by simp
  then show ?thesis unfolding contains_iff by blast
qed

lemma to_lower_join: "to_lower (join sep xs) = join (to_lower sep) (map to_lower xs)"
  by (induction xs) (auto simp: join_Cons)

lemma words_from_subset:
  "w \<in> set (words_from acc s) \<Longrightarrow> set w \<subseteq> set acc \<union> set s"
proof (induction acc s rule: words_from.induct)
  case (2 acc c s)
  have "set (drop (ws_prefix (c # s)) (c # s)) \<subseteq> set (c # s)" by (rule set_drop_subset)
  with 2 show ?case
    by (cases "ws_prefix (c # s) = 0") (fastforce split: if_splits)+
qed (simp split: if_splits)

section \<open>Lines and numbers\<close>

definition strip_cr :: "str \<Rightarrow> str" where
  "strip_cr l = (if l \<noteq> [] \<and> byte (last l) = 13 then butlast l else l)"

definition lines :: "str \<Rightarrow> str list" where
  \<comment> \<open>\<open>str::lines\<close>: a terminated line loses its line feed and one carriage return before it; an
    unterminated last line is kept as it is, unless it is empty\<close>
  "lines s =
     (let ps = split_on (\<lambda>c. byte c = 10) s
      in map strip_cr (butlast ps) @ (if last ps = [] then [] else [last ps]))"

fun digits_val :: "nat \<Rightarrow> str \<Rightarrow> nat option" where
  "digits_val acc [] = Some acc"
| "digits_val acc (c # s) =
     (if is_digit c then digits_val (acc * 10 + (byte c - 48)) s else None)"

definition parse_uint :: "nat \<Rightarrow> str \<Rightarrow> nat option" where
  \<comment> \<open>\<open>parse_uint max s\<close>: \<open>s.parse::<uN>()\<close> for the type with that maximum: an optional
    plus sign, then at least one digit, and no overflow\<close>
  "parse_uint mx s =
     (let t = (case s of [] \<Rightarrow> [] | c # r \<Rightarrow> if byte c = 43 then r else s)
      in if t = [] then None
         else (case digits_val 0 t of
             None \<Rightarrow> None
           | Some n \<Rightarrow> if n \<le> mx then Some n else None))"

definition u8_max :: nat where "u8_max = 2 ^ 8 - 1"
definition u16_max :: nat where "u16_max = 2 ^ 16 - 1"
definition u32_max :: nat where "u32_max = 2 ^ 32 - 1"
definition u64_max :: nat where "u64_max = 2 ^ 64 - 1"

abbreviation parse_u64 :: "str \<Rightarrow> nat option" where
  "parse_u64 \<equiv> parse_uint u64_max"

lemma parse_uint_le: "parse_uint mx s = Some n \<Longrightarrow> n \<le> mx"
  by (auto simp: parse_uint_def Let_def split: if_splits option.splits)

fun show_nat :: "nat \<Rightarrow> str" where
  \<comment> \<open>decimal \<open>to_string\<close>\<close>
  "show_nat n = (if n < 10 then [char_of (48 + n)] else show_nat (n div 10) @ [char_of (48 + n mod 10)])"

declare show_nat.simps [simp del]

lemma digits_val_append:
  "digits_val acc (a @ b) = (case digits_val acc a of None \<Rightarrow> None | Some n \<Rightarrow> digits_val n b)"
  by (induction a arbitrary: acc) auto

lemma byte_char_of: "n < 256 \<Longrightarrow> byte (char_of n) = (n::nat)"
  by (simp add: of_char_of)

lemma digits_val_show: "digits_val 0 (show_nat n) = Some n"
proof (induction n rule: show_nat.induct)
  case (1 n)
  show ?case
  proof (cases "n < 10")
    case True
    then show ?thesis by (simp add: show_nat.simps [of n] is_digit_def byte_char_of)
  next
    case False
    have "48 + n mod 10 < 256" by simp
    with False 1 show ?thesis
      by (simp add: show_nat.simps [of n] digits_val_append is_digit_def byte_char_of)
  qed
qed

lemma show_nat_head: "\<exists>c r. show_nat n = c # r \<and> is_digit c"
proof (induction n rule: show_nat.induct)
  case (1 n)
  show ?case
  proof (cases "n < 10")
    case True
    then show ?thesis by (simp add: show_nat.simps [of n] is_digit_def byte_char_of)
  next
    case False
    with 1 obtain c r where "show_nat (n div 10) = c # r" "is_digit c" by auto
    with False show ?thesis by (simp add: show_nat.simps [of n])
  qed
qed

lemma parse_show: "n \<le> mx \<Longrightarrow> parse_uint mx (show_nat n) = Some n"
proof -
  assume le: "n \<le> mx"
  obtain c r where s: "show_nat n = c # r" "is_digit c" using show_nat_head by blast
  then have "byte c \<noteq> 43" by (auto simp: is_digit_def)
  with s le digits_val_show [of n] show ?thesis
    by (simp add: parse_uint_def Let_def del: digits_val.simps)
qed

lemma show_nat_digits: "c \<in> set (show_nat n) \<Longrightarrow> is_digit c"
proof (induction n rule: show_nat.induct)
  case (1 n)
  have d: "is_digit (char_of (48 + k))" if "k < 10" for k :: nat
    using that by (simp add: is_digit_def byte_char_of)
  show ?case
  proof (cases "n < 10")
    case True
    with 1 show ?thesis by (simp add: show_nat.simps [of n] d)
  next
    case False
    with 1 d [of "n mod 10"] show ?thesis by (auto simp: show_nat.simps [of n])
  qed
qed

lemma show_nat_inj: "show_nat m = show_nat n \<Longrightarrow> m = n"
  using digits_val_show by (metis option.inject)

section \<open>Lists\<close>

lemma set_map_filter: "set (List.map_filter f xs) = {y. \<exists>x\<in>set xs. f x = Some y}"
  by (force simp: List.map_filter_def)

section \<open>Maps\<close>

definition retain :: "('k \<Rightarrow> 'v \<Rightarrow> bool) \<Rightarrow> ('k \<rightharpoonup> 'v) \<Rightarrow> ('k \<rightharpoonup> 'v)" where
  \<comment> \<open>\<open>HashMap::retain\<close>\<close>
  "retain P m = (\<lambda>k. case m k of None \<Rightarrow> None | Some v \<Rightarrow> if P k v then Some v else None)"

lemma retain_Some: "retain P m k = Some v \<longleftrightarrow> m k = Some v \<and> P k v"
  by (auto simp: retain_def split: option.splits if_splits)

lemma retain_None: "retain P m k = None \<longleftrightarrow> (\<forall>v. m k = Some v \<longrightarrow> \<not> P k v)"
  by (auto simp: retain_def split: option.splits if_splits)

lemma retain_empty [simp]: "retain P Map.empty = Map.empty"
  by (simp add: retain_def)

section \<open>Bytes as text\<close>

definition hex_digit :: "nat \<Rightarrow> char" where
  "hex_digit n = (if n < 10 then char_of (48 + n) else char_of (87 + n))"

definition hex_byte :: "u8 \<Rightarrow> str" where
  \<comment> \<open>\<open>format!("{byte:02x}")\<close>\<close>
  "hex_byte b = [hex_digit (unat b div 16), hex_digit (unat b mod 16)]"

definition hex :: "bytes \<Rightarrow> str" where
  "hex bs = concat (map hex_byte bs)"

definition as_bytes :: "str \<Rightarrow> bytes" where
  "as_bytes s = map (\<lambda>c. word_of_nat (of_char c)) s"

lemma length_hex [simp]: "length (hex bs) = 2 * length bs"
  by (induction bs) (auto simp: hex_def hex_byte_def)

lemma as_bytes_inj: "as_bytes a = as_bytes b \<longleftrightarrow> a = b"
proof
  assume "as_bytes a = as_bytes b"
  moreover have "inj (\<lambda>c. word_of_nat (of_char c) :: u8)"
  proof (rule injI)
    fix c d assume eq: "(word_of_nat (of_char c) :: u8) = word_of_nat (of_char d)"
    have "unat (word_of_nat (of_char e) :: u8) = of_char e" for e :: char
      by (simp add: unat_of_nat of_char_mod_256)
    with eq have "(of_char c :: nat) = of_char d" by metis
    then show "c = d" by simp
  qed
  ultimately show "a = b" by (simp add: as_bytes_def inj_map_eq_map)
qed simp

lemma length_as_bytes [simp]: "length (as_bytes s) = length s"
  by (simp add: as_bytes_def)

lemma as_bytes_Nil [simp]: "as_bytes s = [] \<longleftrightarrow> s = []"
  by (simp add: as_bytes_def)

lemma hex_digit_alnum: "n < 16 \<Longrightarrow> is_alnum (hex_digit n)"
  by (auto simp: hex_digit_def is_alnum_def is_digit_def is_alpha_def is_lower_def byte_char_of)

lemma hex_alnum: "c \<in> set (hex bs) \<Longrightarrow> is_alnum c"
proof -
  assume "c \<in> set (hex bs)"
  then obtain b where "c \<in> set (hex_byte b)" by (auto simp: hex_def)
  moreover have "unat b < 256" using unsigned_less [of b] by simp
  ultimately show ?thesis by (auto simp: hex_byte_def intro: hex_digit_alnum)
qed

lemma cut_at:
  "a @ d # x = b @ d # y \<Longrightarrow> d \<notin> set a \<Longrightarrow> d \<notin> set b \<Longrightarrow> a = b \<and> x = y"
proof (induction a arbitrary: b)
  case Nil
  then show ?case by (cases b) auto
next
  case (Cons c a)
  then show ?case by (cases b) auto
qed

lemma hex_digit_inj: "m < 16 \<Longrightarrow> n < 16 \<Longrightarrow> hex_digit m = hex_digit n \<Longrightarrow> m = n"
proof -
  assume "m < 16" "n < 16" "hex_digit m = hex_digit n"
  then have "byte (hex_digit m) = byte (hex_digit n)" by simp
  with \<open>m < 16\<close> \<open>n < 16\<close> show ?thesis by (auto simp: hex_digit_def of_char_of split: if_splits)
qed

lemma hex_byte_inj: "hex_byte a = hex_byte b \<Longrightarrow> a = b"
proof -
  assume "hex_byte a = hex_byte b"
  moreover have "unat a < 256" "unat b < 256" using unsigned_less [of a] unsigned_less [of b] by simp_all
  ultimately have "unat a div 16 = unat b div 16" "unat a mod 16 = unat b mod 16"
    by (auto simp: hex_byte_def intro: hex_digit_inj)
  then have "unat a = unat b" by (metis div_mult_mod_eq)
  then show ?thesis by (simp only: word_unat_eq_iff)
qed

lemma hex_inj: "hex a = hex b \<Longrightarrow> a = b"
proof (induction a arbitrary: b)
  case Nil
  then show ?case by (cases b) (auto simp: hex_def hex_byte_def)
next
  case (Cons x a)
  then obtain y b' where b: "b = y # b'" by (cases b) (auto simp: hex_def hex_byte_def)
  from Cons.prems b have "hex_byte x @ hex a = hex_byte y @ hex b'" by (simp add: hex_def)
  then have "hex_byte x = hex_byte y" "hex a = hex b'" by (auto simp: hex_byte_def)
  with Cons.IH b show ?case by (simp add: hex_byte_inj)
qed

section \<open>Reading to a limit\<close>

definition read_limited :: "nat \<Rightarrow> bytes \<times> bool \<Rightarrow> bytes option" where
  \<comment> \<open>\<open>reader.take(n).read_to_end\<close>: an error past the limit is never met\<close>
  "read_limited n r =
     (case r of (out, failed) \<Rightarrow>
        if n \<le> length out then Some (take n out) else if failed then None else Some out)"

section \<open>Big-endian numbers\<close>

fun be_bytes :: "nat \<Rightarrow> nat \<Rightarrow> bytes" where
  \<comment> \<open>\<open>to_be_bytes\<close> of an integer of so many bytes\<close>
  "be_bytes 0 n = []"
| "be_bytes (Suc k) n = be_bytes k (n div 256) @ [word_of_nat (n mod 256)]"

definition from_be_bytes :: "bytes \<Rightarrow> nat" where
  "from_be_bytes bs = foldl (\<lambda>n b. n * 256 + unat b) 0 bs"

lemma length_be_bytes [simp]: "length (be_bytes k n) = k"
  by (induction k arbitrary: n) simp_all

lemma from_be_bytes_be_bytes: "n < 256 ^ k \<Longrightarrow> from_be_bytes (be_bytes k n) = n"
proof (induction k arbitrary: n)
  case (Suc k)
  have "n div 256 < 256 ^ k" using Suc.prems by (simp add: less_mult_imp_div_less mult.commute)
  with Suc.IH [of "n div 256"] show ?case by (simp add: from_be_bytes_def unat_of_nat)
qed (simp add: from_be_bytes_def)

lemma be_bytes_inj: "be_bytes k m = be_bytes k n \<Longrightarrow> m < 256 ^ k \<Longrightarrow> n < 256 ^ k \<Longrightarrow> m = n"
  using from_be_bytes_be_bytes by metis

end
