(* ===== verification/Host.thy ===== *)
theory Host
  imports Prelude
begin

text \<open>
  \<open>src/proxy/src/host.rs\<close>: what a hostname is (\<open>normalize\<close>) and when one name covers another
  (\<open>covers\<close>), and the interface \<open>host_cover\<close> through which the blocklist, the injection
  exclusions and the never-decrypt list use them. A \<open>HashSet<String>\<close> is a \<^typ>\<open>str set\<close>.
\<close>

abbreviation (input) dot :: char where "dot \<equiv> CHR ''.''"

section \<open>Model\<close>

definition HOUSEKEEPING :: "str list" where
  "HOUSEKEEPING = [''localhost'', ''localhost.localdomain'', ''local'', ''broadcasthost'']"

function parents :: "str \<Rightarrow> str list" where
  \<comment> \<open>\<open>successors\<close>: the name, then each domain above it\<close>
  "parents name =
     name # (case split_once dot name of None \<Rightarrow> [] | Some (label, parent) \<Rightarrow> parents parent)"
  by pat_completeness auto
termination by (relation "measure length") (auto dest: split_once_length)

declare parents.simps [simp del]

definition canon :: "str \<Rightarrow> str" where
  \<comment> \<open>\<open>host.trim_end_matches('.').to_ascii_lowercase()\<close>\<close>
  "canon host = to_lower (trim_end_matches dot host)"

definition covers :: "str set \<Rightarrow> str \<Rightarrow> bool" where
  "covers hosts host =
     (if Set.is_empty hosts then False
      else list_ex (\<lambda>name. name \<in> hosts) (parents (canon host)))"

definition housekeeping :: "str \<Rightarrow> bool" where
  "housekeeping domain \<longleftrightarrow> List.member HOUSEKEEPING domain \<or> starts_with domain ''ip6-''"

definition label_char :: "char \<Rightarrow> bool" where
  "label_char c \<longleftrightarrow> is_alnum c \<or> c = CHR ''-'' \<or> c = CHR ''_''"

definition plausible :: "str \<Rightarrow> bool" where
  "plausible domain =
     list_all (\<lambda>label. label \<noteq> [] \<and> list_all label_char label) (split_on (\<lambda>c. c = dot) domain)"

definition normalize :: "str \<Rightarrow> str option" where
  "normalize raw =
     (let domain = to_lower (trim_end_matches dot (trim raw)) in
      if dot \<notin> set domain \<or> housekeeping domain then None
      else if plausible domain then Some domain else None)"

section \<open>Specification\<close>

lemma dot_not_alpha [simp]: "\<not> is_alpha dot"
  by (simp add: is_alpha_def is_upper_def is_lower_def)

definition under :: "str \<Rightarrow> str \<Rightarrow> bool" where
  \<comment> \<open>\<open>under name d\<close>: \<open>name\<close> is \<open>d\<close> or has it as a suffix that starts at a label boundary\<close>
  "under name d \<longleftrightarrow> name = d \<or> (\<exists>p. name = p @ dot # d)"

lemma under_refl [simp]: "under d d"
  by (simp add: under_def)

lemma under_trans: "under a b \<Longrightarrow> under b c \<Longrightarrow> under a c"
  unfolding under_def by (metis append.assoc append_Cons)

lemma under_sub [simp]: "under (p @ dot # d) d"
  by (auto simp: under_def)

lemma set_parents: "d \<in> set (parents name) \<longleftrightarrow> under name d"
proof (induction name rule: parents.induct)
  case (1 name)
  show ?case
  proof (cases "split_once dot name")
    case None
    then have "dot \<notin> set name" by (simp add: split_once_None_iff)
    with None show ?thesis
      by (auto simp: parents.simps [of name] under_def)
  next
    case (Some ab)
    obtain a b where ab: "ab = (a, b)" by force
    with Some have name: "name = a @ dot # b" "dot \<notin> set a" by (simp_all add: split_once_Some_iff)
    have "(\<exists>p. a @ dot # b = p @ dot # d) \<longleftrightarrow> under b d"
    proof
      assume "\<exists>p. a @ dot # b = p @ dot # d"
      then obtain p where p: "a @ dot # b = p @ dot # d" ..
      with name(2) obtain q where "p = a @ q" "dot # b = q @ dot # d"
        by (fastforce simp: append_eq_append_conv2 Cons_eq_append_conv append_eq_Cons_conv)
      then show "under b d" by (cases q) (auto simp: under_def)
    next
      assume "under b d"
      then show "\<exists>p. a @ dot # b = p @ dot # d"
        unfolding under_def by (metis append.assoc append_Cons)
    qed
    moreover have "d \<in> set (parents b) \<longleftrightarrow> under b d" using 1 [OF Some ab [symmetric]] .
    moreover have "parents name = name # parents b" using Some ab by (subst parents.simps) simp
    ultimately show ?thesis using name by (auto simp: under_def [of "a @ dot # b"])
  qed
qed

lemma covers_iff: "covers S host \<longleftrightarrow> (\<exists>d\<in>S. under (canon host) d)"
  by (auto simp: covers_def list_ex_iff set_parents)

lemma canon_idem [simp]: "canon (canon h) = canon h"
  by (simp add: canon_def trim_end_matches_lower)

lemma canon_lower [simp]: "canon (to_lower h) = canon h"
  by (simp add: canon_def trim_end_matches_lower)

lemma canon_trailing_dot [simp]: "canon (h @ [dot]) = canon h"
  by (simp add: canon_def)

section \<open>What \<open>covers\<close> promises\<close>

locale host_cover =
  fixes cov :: "str set \<Rightarrow> str \<Rightarrow> bool"
    and name_of :: "str \<Rightarrow> str"
    and below :: "str \<Rightarrow> str \<Rightarrow> bool"
  assumes cov_spec: "cov S h \<longleftrightarrow> (\<exists>d\<in>S. below (name_of h) d)"
    and below_self: "below d d"
    and below_trans: "below a b \<Longrightarrow> below b c \<Longrightarrow> below a c"
    and name_idem: "name_of (name_of h) = name_of h"
begin

lemma cov_empty: "\<not> cov {} h"
  by (simp add: cov_spec)

lemma cov_mono: "S \<subseteq> T \<Longrightarrow> cov S h \<Longrightarrow> cov T h"
  by (auto simp: cov_spec)

lemma cov_un: "cov (S \<union> T) h \<longleftrightarrow> cov S h \<or> cov T h"
  by (auto simp: cov_spec)

lemma cov_insert: "cov (insert d S) h \<longleftrightarrow> below (name_of h) d \<or> cov S h"
  by (auto simp: cov_spec)

lemma cov_member: "name_of h \<in> S \<Longrightarrow> cov S h"
  using below_self by (auto simp: cov_spec)

lemma cov_name: "cov S (name_of h) \<longleftrightarrow> cov S h"
  by (simp add: cov_spec name_idem)

lemma cov_below:
  assumes "cov S h" and "below (name_of k) (name_of h)"
  shows "cov S k"
  using assms below_trans by (auto simp: cov_spec)

end

interpretation hc: host_cover covers canon under
  by unfold_locales (auto simp: covers_iff intro: under_trans)

section \<open>What \<open>normalize\<close> promises\<close>

lemma housekeeping_lower_def: "housekeeping d = (d \<in> set HOUSEKEEPING \<or> starts_with d ''ip6-'')"
  by (simp add: housekeeping_def)

lemma normalize_SomeD:
  assumes "normalize raw = Some d"
  shows "d = to_lower (trim_end_matches dot (trim raw))"
    and "dot \<in> set d" and "\<not> housekeeping d" and "plausible d"
  using assms by (auto simp: normalize_def Let_def split: if_splits)

lemma plausible_chars: "plausible d \<Longrightarrow> c \<in> set d \<Longrightarrow> label_char c \<or> c = dot"
  using split_on_chars [of c d "\<lambda>c. c = dot"]
  by (fastforce simp: plausible_def list_all_iff)

lemma label_char_ascii: "label_char c \<Longrightarrow> 33 \<le> byte c \<and> byte c \<le> 127"
  by (auto simp: label_char_def is_alnum_def is_alpha_def is_upper_def is_lower_def is_digit_def)

lemma ws_prefix_plain: "s = [] \<or> 33 \<le> byte (hd s) \<and> byte (hd s) \<le> 127 \<Longrightarrow> ws_prefix s = 0"
  by (cases s rule: ws_prefix.cases) auto

lemma trim_plain:
  assumes "\<And>c. c \<in> set s \<Longrightarrow> 33 \<le> byte c \<and> byte c \<le> 127"
  shows "trim s = s"
proof -
  have "ws_prefix (drop n s) = 0" for n
    using assms in_set_dropD [of "hd (drop n s)" n s]
    by (intro ws_prefix_plain) (metis hd_in_set)
  moreover from this [of 0] have "ws_prefix s = 0" by simp
  ultimately show ?thesis by (intro trim_id) (simp_all add: ws_suffix_def Let_def)
qed

lemma normalize_plain:
  assumes "normalize raw = Some d"
  shows "trim d = d"
proof (rule trim_plain)
  fix c assume "c \<in> set d"
  with normalize_SomeD(4) [OF assms] have "label_char c \<or> c = dot" by (rule plausible_chars)
  then show "33 \<le> byte c \<and> byte c \<le> 127"
  proof
    assume "label_char c" then show ?thesis by (rule label_char_ascii)
  next
    assume "c = dot" then show ?thesis by simp
  qed
qed

lemma normalize_lower_canon:
  assumes "normalize raw = Some d"
  shows "canon d = d"
proof -
  have "trim_end_matches dot d = d"
    using normalize_SomeD(1) [OF assms] by (simp add: trim_end_matches_lower)
  moreover have "to_lower d = d" using normalize_SomeD(1) [OF assms] by simp
  ultimately show ?thesis by (simp add: canon_def)
qed

lemma normalize_idem: "normalize raw = Some d \<Longrightarrow> normalize d = Some d"
proof -
  assume n: "normalize raw = Some d"
  have "to_lower (trim_end_matches dot (trim d)) = d"
    using normalize_lower_canon [OF n] normalize_plain [OF n] by (simp add: canon_def)
  with normalize_SomeD(2-4) [OF n] show ?thesis by (simp add: normalize_def)
qed

end
