(* ===== verification/Message.thy ===== *)
theory Message
  imports Host
begin

text \<open>
  The messages the interceptor chain carries (\<open>src/proxy/src/interceptor.rs\<close>: \<open>ProxyRequest\<close>,
  \<open>ProxyResponse\<close>, \<open>ResponseHead\<close>), the host part of a URL (\<open>src/proxy/src/main.rs\<close>:
  \<open>host_of\<close>, \<open>authority_host\<close>), and the header accesses several components repeat.
\<close>

section \<open>Data\<close>

datatype ip_addr = V4 "32 word" | V6 "128 word"

type_synonym socket_addr = "ip_addr \<times> 16 word"

fun is_ipv4 :: "ip_addr \<Rightarrow> bool" where
  "is_ipv4 (V4 a) = True"
| "is_ipv4 (V6 a) = False"

record proxy_request =
  rq_method :: str
  rq_url :: str
  rq_headers :: headers
  rq_body :: bytes
  rq_peer :: "socket_addr option"

record proxy_response =
  rs_status :: nat
  rs_headers :: headers
  rs_body :: bytes

record response_head =
  hd_status :: nat
  hd_headers :: headers

definition simple_request :: proxy_request where
  \<comment> \<open>an example\<close>
  "simple_request = \<lparr>rq_method = ''GET'', rq_url = ''https://a.example/'', rq_headers = [], rq_body = [], rq_peer = None\<rparr>"

section \<open>The host of a URL\<close>

definition authority_host :: "str \<Rightarrow> str" where
  "authority_host authority =
     (if starts_with authority ''['' then
        (case find_char (\<lambda>c. c = CHR '']'') authority of
           None \<Rightarrow> authority
         | Some i \<Rightarrow> take (i + 1) authority)
      else
        (case split_once CHR '':'' authority of
           None \<Rightarrow> authority
         | Some (host, port) \<Rightarrow> host))"

definition split_scheme :: "str \<Rightarrow> (str \<times> str) option" where
  \<comment> \<open>\<open>url.split_once("://")\<close>\<close>
  "split_scheme url =
     (case find_sub ''://'' url of None \<Rightarrow> None | Some i \<Rightarrow> Some (take i url, drop (i + 3) url))"

definition host_of :: "str \<Rightarrow> str" where
  "host_of url =
     (let rest = (case split_scheme url of None \<Rightarrow> url | Some (scheme, rest) \<Rightarrow> rest);
          host = hd (split_on (\<lambda>c. c = CHR ''/'' \<or> c = CHR ''?'' \<or> c = CHR ''#'') rest)
      in authority_host host)"

section \<open>Headers\<close>

definition header :: "headers \<Rightarrow> str \<Rightarrow> str option" where
  \<comment> \<open>the value of the first header of that name, names compared without case\<close>
  "header hs name = map_option snd (find (\<lambda>(n, v). eq_ci n name) hs)"

definition without :: "str \<Rightarrow> headers \<Rightarrow> headers" where
  \<comment> \<open>\<open>headers.retain(|(n, _)| !n.eq_ignore_ascii_case(name))\<close>\<close>
  "without name hs = filter (\<lambda>(n, v). \<not> eq_ci n name) hs"

definition has_header :: "headers \<Rightarrow> str \<Rightarrow> bool" where
  "has_header hs name \<longleftrightarrow> list_ex (\<lambda>(n, v). eq_ci n name) hs"

lemma header_Nil [simp]: "header [] name = None"
  by (simp add: header_def)

lemma header_Cons [simp]:
  "header ((n, v) # hs) name = (if eq_ci n name then Some v else header hs name)"
  by (simp add: header_def)

lemma header_None_iff: "header hs name = None \<longleftrightarrow> (\<forall>(n, v)\<in>set hs. \<not> eq_ci n name)"
  by (auto simp: header_def find_None_iff)

lemma header_Some_in: "header hs name = Some v \<Longrightarrow> \<exists>n. (n, v) \<in> set hs \<and> eq_ci n name"
  by (induction hs) (auto split: if_splits)

lemma header_append:
  "header (xs @ ys) name = (case header xs name of None \<Rightarrow> header ys name | Some v \<Rightarrow> Some v)"
  by (induction xs) auto

lemma has_header_iff: "has_header hs name \<longleftrightarrow> header hs name \<noteq> None"
  by (induction hs) (auto simp: has_header_def)

lemma without_Nil [simp]: "without name [] = []"
  by (simp add: without_def)

lemma without_Cons [simp]:
  "without name ((n, v) # hs) = (if eq_ci n name then without name hs else (n, v) # without name hs)"
  by (simp add: without_def)

lemma without_append [simp]: "without name (xs @ ys) = without name xs @ without name ys"
  by (simp add: without_def)

lemma without_idem [simp]: "without name (without name hs) = without name hs"
  by (simp add: without_def)

lemma set_without: "set (without name hs) = {(n, v). (n, v) \<in> set hs \<and> \<not> eq_ci n name}"
  by (auto simp: without_def)

lemma header_without_same [simp]: "header (without name hs) name = None"
  by (auto simp: header_None_iff set_without)

lemma header_without_other:
  "\<not> eq_ci name other \<Longrightarrow> header (without name hs) other = header hs other"
proof (induction hs)
  case (Cons h hs)
  obtain n v where "h = (n, v)" by force
  with Cons show ?case by (auto simp: eq_ci_def)
qed simp

lemma header_eq_ci: "eq_ci a b \<Longrightarrow> header hs a = header hs b"
  by (induction hs) (auto simp: eq_ci_def)

section \<open>What \<open>host_of\<close> returns\<close>

lemma hd_split_on_no_sep: "c \<in> set (hd (split_on p s)) \<Longrightarrow> \<not> p c"
  by (metis hd_in_set split_on_ne split_on_no_sep)

lemma hd_split_on_append:
  "\<forall>c\<in>set a. \<not> p c \<Longrightarrow> b = [] \<or> p (hd b) \<Longrightarrow> hd (split_on p (a @ b)) = a"
  by (cases b) (auto simp: split_on_append_sep split_on_id)

lemma authority_host_subset: "set (authority_host a) \<subseteq> set a"
  by (auto simp: authority_host_def split_once_Some_iff dest: in_set_takeD split: option.splits if_splits)

lemma host_of_clean:
  "c \<in> set (host_of url) \<Longrightarrow> c \<noteq> CHR ''/'' \<and> c \<noteq> CHR ''?'' \<and> c \<noteq> CHR ''#''"
  using authority_host_subset by (fastforce simp: host_of_def Let_def dest: hd_split_on_no_sep)

end
