(* ===== verification/Floats.thy ===== *)
theory Floats
  imports Prelude
begin

text \<open>
  The few things the code does with \<open>f32\<close> and \<open>f64\<close>: parsing decimal text, one multiplication or
  division, comparison with zero, rounding to an integer and printing with one decimal. A finite
  non-negative float is kept as the exact fraction it stands for, and every operation rounds to
  the nearest representable value, ties to even, as IEEE 754 has it: no real numbers, and
  everything computes.
\<close>

section \<open>Decimal text\<close>

datatype decimal = Infinite bool | NotANumber | Finite bool nat int
  \<comment> \<open>\<open>Finite negative m e\<close> is \<open>m * 10 ^ e\<close> with that sign\<close>

definition take_digits :: "str \<Rightarrow> str \<times> str" where
  "take_digits s = (takeWhile is_digit s, dropWhile is_digit s)"

definition digits_nat :: "str \<Rightarrow> nat" where
  "digits_nat s = (case digits_val 0 s of Some n \<Rightarrow> n | None \<Rightarrow> 0)"

definition split_sign :: "str \<Rightarrow> bool \<times> str" where
  "split_sign s =
     (case s of
        [] \<Rightarrow> (False, [])
      | c # r \<Rightarrow> if c = CHR ''-'' then (True, r) else if c = CHR ''+'' then (False, r) else (False, s))"

definition parse_exponent :: "str \<Rightarrow> int option" where
  \<comment> \<open>what may follow the digits: nothing, or \<open>e\<close> and a signed number\<close>
  "parse_exponent s =
     (case s of
        [] \<Rightarrow> Some 0
      | c # r \<Rightarrow>
          if ascii_lower c \<noteq> CHR ''e'' then None
          else (case split_sign r of (negative, ds) \<Rightarrow>
                  if ds = [] \<or> \<not> list_all is_digit ds then None
                  else Some (if negative then - int (digits_nat ds) else int (digits_nat ds))))"

definition parse_number :: "bool \<Rightarrow> str \<Rightarrow> decimal option" where
  "parse_number negative s =
     (let (whole, r) = take_digits s;
          (part, r) = (case r of [] \<Rightarrow> ([], r) | c # r' \<Rightarrow> if c = CHR ''.'' then take_digits r' else ([], r))
      in if whole = [] \<and> part = [] then None
         else map_option (\<lambda>e. Finite negative (digits_nat (whole @ part)) (e - int (length part))) (parse_exponent r))"

definition parse_decimal :: "str \<Rightarrow> decimal option" where
  \<comment> \<open>the grammar of \<open>f32::from_str\<close> and \<open>f64::from_str\<close>\<close>
  "parse_decimal s =
     (case split_sign s of (negative, r) \<Rightarrow>
        if to_lower r = ''inf'' \<or> to_lower r = ''infinity'' then Some (Infinite negative)
        else if to_lower r = ''nan'' then Some NotANumber
        else parse_number negative r)"

section \<open>Rounding\<close>

type_synonym fraction = "nat \<times> nat"
  \<comment> \<open>numerator and denominator, the denominator not 0\<close>

fun bit_length :: "nat \<Rightarrow> nat" where
  "bit_length n = (if n = 0 then 0 else Suc (bit_length (n div 2)))"

declare bit_length.simps [simp del]

definition half_even :: "fraction \<Rightarrow> nat" where
  \<comment> \<open>to the nearest integer, ties to even\<close>
  "half_even x =
     (case x of (n, d) \<Rightarrow>
        let q = n div d; r = n mod d
        in if 2 * r < d then q else if d < 2 * r then q + 1 else if even q then q else q + 1)"

definition half_away :: "fraction \<Rightarrow> nat" where
  \<comment> \<open>\<open>f64::round\<close>\<close>
  "half_away x = (case x of (n, d) \<Rightarrow> (2 * n + d) div (2 * d))"

definition scaled :: "int \<Rightarrow> fraction \<Rightarrow> fraction" where
  \<comment> \<open>times a power of two\<close>
  "scaled k x = (case x of (n, d) \<Rightarrow> if 0 \<le> k then (n * 2 ^ nat k, d) else (n, d * 2 ^ nat (- k)))"

definition exponent_of :: "fraction \<Rightarrow> int" where
  \<comment> \<open>the \<open>e\<close> with \<open>2 ^ e \<le> n / d < 2 ^ (e + 1)\<close>\<close>
  "exponent_of x =
     (let (n, d) = x;
          e = int (bit_length n) - int (bit_length d);
          (n', d') = scaled (- e) x
      in if n' < d' then e - 1 else e)"

definition round_float :: "nat \<Rightarrow> int \<Rightarrow> fraction \<Rightarrow> fraction" where
  \<comment> \<open>to \<open>p\<close> significant bits, and not below \<open>2 ^ least\<close>\<close>
  "round_float p least x =
     (if fst x = 0 then (0, 1)
      else let ulp = max (exponent_of x - int p + 1) least
           in scaled ulp (half_even (scaled (- ulp) x), 1))"

definition f64 :: "fraction \<Rightarrow> fraction" where "f64 x = round_float 53 (- 1074) x"
definition f32 :: "fraction \<Rightarrow> fraction" where "f32 x = round_float 24 (- 149) x"

definition ten_power :: "nat \<Rightarrow> int \<Rightarrow> fraction" where
  "ten_power m e = (if 0 \<le> e then (m * 10 ^ nat e, 1) else (m, 10 ^ nat (- e)))"

definition overflows64 :: "fraction \<Rightarrow> bool" where
  \<comment> \<open>the rounded value is past the largest finite \<open>f64\<close>\<close>
  "overflows64 x \<longleftrightarrow> 2 ^ 1024 * snd (f64 x) \<le> fst (f64 x)"

definition f32_not_positive :: "decimal \<Rightarrow> bool" where
  \<comment> \<open>\<open>q <= 0.0\<close> of the parsed \<open>f32\<close>: negative, zero, or too small not to be rounded to zero\<close>
  "f32_not_positive x =
     (case x of
        Infinite negative \<Rightarrow> negative
      | NotANumber \<Rightarrow> False
      | Finite negative m e \<Rightarrow> negative \<or> fst (f32 (ten_power m e)) = 0)"

definition f64_positive_finite :: "decimal \<Rightarrow> fraction option" where
  \<comment> \<open>the value, if \<open>x.is_finite() && x > 0.0\<close>\<close>
  "f64_positive_finite x =
     (case x of
        Finite negative m e \<Rightarrow>
          (let v = f64 (ten_power m e)
           in if negative \<or> fst v = 0 \<or> overflows64 (ten_power m e) then None else Some v)
      | _ \<Rightarrow> None)"

definition times :: "fraction \<Rightarrow> fraction \<Rightarrow> fraction" where
  "times x y = f64 (fst x * fst y, snd x * snd y)"

definition over :: "fraction \<Rightarrow> fraction \<Rightarrow> fraction" where
  "over x y = f64 (fst x * snd y, snd x * fst y)"

definition of_integer :: "nat \<Rightarrow> fraction" where
  "of_integer n = f64 (n, 1)"

definition one_decimal :: "fraction \<Rightarrow> str" where
  \<comment> \<open>\<open>format!("{:.1}", x)\<close>: the exact value rounded to tenths, ties to even\<close>
  "one_decimal x =
     (let t = half_even (10 * fst x, snd x) in show_nat (t div 10) @ ''.'' @ show_nat (t mod 10))"

section \<open>Facts\<close>

lemma half_even_exact: "0 < d \<Longrightarrow> half_even (n * d, d) = n"
  by (simp add: half_even_def)

lemma half_away_exact: "0 < d \<Longrightarrow> half_away (n * d, d) = n"
  by (simp add: half_away_def algebra_simps div_nat_eqI)

end
