(* ===== verification/Config.thy ===== *)
theory Config
  imports Message Floats
begin

text \<open>
  \<open>src/proxy/src/config.rs\<close>: the sections of the configuration as records, their defaults, the
  accessors the rest of the proxy reads them through, and the expansion of \<open>~\<close> in paths. Field
  names repeated between sections carry the section's name. Reading the TOML file is not
  modelled; the environment and the file system are arguments of \<open>locate\<close> and \<open>home\<close>.
\<close>

section \<open>Sections\<close>

record http_config =
  alt_svc :: str
  keep_alive :: bool
  idle_timeout_seconds :: nat
  compress :: bool

definition default_http :: http_config where
  "default_http = \<lparr>alt_svc = ''h3=\":4433\"; ma=86400'', keep_alive = True, idle_timeout_seconds = 60,
     compress = True\<rparr>"

datatype address_policy = System | PreferIpv4 | PreferIpv6

record images_config =
  images_enabled :: bool
  cache_mb :: nat
  origin_cache_mb :: nat
  max_cacheable_mb :: nat
  quality :: nat
  reduced_quality :: nat
  grey_quality :: nat
  max_megapixels :: nat

definition default_images :: images_config where
  "default_images = \<lparr>images_enabled = True, cache_mb = 512, origin_cache_mb = 256, max_cacheable_mb = 8,
     quality = 80, reduced_quality = 50, grey_quality = 35, max_megapixels = 16\<rparr>"

record link_config =
  link_enabled :: bool
  full_kbps :: nat
  reduced_kbps :: nat
  grey_kbps :: nat
  placeholder_kbps :: nat
  ttl_minutes :: nat
  max_clients :: nat

definition default_link :: link_config where
  "default_link = \<lparr>link_enabled = True, full_kbps = 2000, reduced_kbps = 700, grey_kbps = 250,
     placeholder_kbps = 80, ttl_minutes = 10, max_clients = 1024\<rparr>"

record passthrough_config =
  passthrough_hosts :: "str list"
  passthrough_urls :: "str list"
  passthrough_refresh_hours :: nat
  learn_from_challenges :: bool
  passthrough_port :: nat

definition default_passthrough :: passthrough_config where
  "default_passthrough = \<lparr>passthrough_hosts = [], passthrough_urls = [], passthrough_refresh_hours = 24,
     learn_from_challenges = False, passthrough_port = 443\<rparr>"

datatype url_logging = Path | Host | Full

definition default_url_logging :: url_logging where
  "default_url_logging = Path"

record ca_config =
  ca_cert :: "str option"
  ca_key :: "str option"

record paths_config =
  cache_dir :: str
  state_dir :: str

record plugins_config =
  plugins_dir :: str
  plugins_enabled :: bool
  stamp_responses :: bool

record blocklist_config =
  blocklist_enabled :: bool
  blocklist_files :: "str list"
  blocklist_urls :: "str list"
  blocklist_allow :: "str list"
  blocklist_refresh_hours :: nat

definition default_blocklist :: blocklist_config where
  "default_blocklist = \<lparr>blocklist_enabled = True, blocklist_files = [], blocklist_urls = [],
     blocklist_allow = [], blocklist_refresh_hours = 24\<rparr>"

record cosmetic_config =
  cosmetic_enabled :: bool
  cosmetic_files :: "str list"
  cosmetic_urls :: "str list"
  cosmetic_refresh_hours :: nat
  cosmetic_generic :: bool

definition default_cosmetic :: cosmetic_config where
  "default_cosmetic = \<lparr>cosmetic_enabled = True, cosmetic_files = [], cosmetic_urls = [],
     cosmetic_refresh_hours = 24, cosmetic_generic = False\<rparr>"

record internal_config =
  internal_enabled :: bool

definition default_internal :: internal_config where
  "default_internal = \<lparr>internal_enabled = True\<rparr>"

record inject_config =
  inject_enabled :: bool
  inject_exclude :: "str list"
  lazy_images :: bool
  eager_images :: nat

definition default_inject :: inject_config where
  "default_inject = \<lparr>inject_enabled = True, inject_exclude = [], lazy_images = True, eager_images = 3\<rparr>"

record tls_config =
  leaf_ttl_hours :: nat
  clock_skew_minutes :: nat
  refresh_margin_minutes :: nat
  allow_bypass :: bool
  bypass_ttl_minutes :: nat
  tls_bypass_phrase :: str

definition default_tls :: tls_config where
  "default_tls = \<lparr>leaf_ttl_hours = 24, clock_skew_minutes = 60, refresh_margin_minutes = 60,
     allow_bypass = True, bypass_ttl_minutes = 60, tls_bypass_phrase = ''thisisunsafe''\<rparr>"

datatype threads = Count nat | PerCore str

definition default_threads :: threads where
  "default_threads = PerCore ''1C''"

record limits_config =
  max_request_body_mb :: nat
  max_response_body_mb :: nat
  worker_threads :: threads
  connect_timeout_seconds :: nat
  read_timeout_seconds :: nat
  plugin_timeout_seconds :: nat
  stream_buffer_mb :: nat
  hello_timeout_ms :: nat

definition default_limits :: limits_config where
  "default_limits = \<lparr>max_request_body_mb = 10, max_response_body_mb = 64, worker_threads = default_threads,
     connect_timeout_seconds = 10, read_timeout_seconds = 30, plugin_timeout_seconds = 10,
     stream_buffer_mb = 32, hello_timeout_ms = 10000\<rparr>"

record quic_config =
  max_datagram_size :: nat
  max_idle_timeout_ms :: nat
  initial_max_data :: nat
  initial_max_stream_data :: nat
  initial_max_streams :: nat

definition default_quic :: quic_config where
  "default_quic = \<lparr>max_datagram_size = 1350, max_idle_timeout_ms = 30000, initial_max_data = 10000000,
     initial_max_stream_data = 1000000, initial_max_streams = 100\<rparr>"

record config =
  listen :: socket_addr
  listen_tcp :: socket_addr
  ca_section :: ca_config
  http_section :: http_config
  paths_section :: paths_config
  plugins_section :: plugins_config
  blocklist_section :: blocklist_config
  log_urls :: url_logging
  images_section :: images_config
  link_section :: link_config
  upstream_addresses :: address_policy
  passthrough_section :: passthrough_config
  cosmetic_section :: cosmetic_config
  internal_section :: internal_config
  inject_section :: inject_config
  tls_section :: tls_config
  limits_section :: limits_config
  quic_section :: quic_config

section \<open>Accessors\<close>

definition parse_threads :: "str \<Rightarrow> nat \<Rightarrow> nat option" where
  "parse_threads spec cores =
     (let spec = trim spec in
      if spec = [] \<or> last spec \<notin> {CHR ''C'', CHR ''c''} then parse_uint u64_max spec
      else (case parse_decimal (trim (butlast spec)) of
              None \<Rightarrow> None
            | Some x \<Rightarrow>
                (case f64_positive_finite x of
                   None \<Rightarrow> None
                 | Some multiplier \<Rightarrow> Some (min (half_away (times multiplier (of_integer cores))) u64_max))))"

definition resolve_threads :: "nat \<Rightarrow> threads \<Rightarrow> nat" where
  \<comment> \<open>\<open>Threads::resolve\<close>, over \<open>available_cores()\<close>\<close>
  "resolve_threads cores t =
     max 1 (case t of
              Count n \<Rightarrow> if n = 0 then cores else n
            | PerCore spec \<Rightarrow> (case parse_threads spec cores of Some n \<Rightarrow> n | None \<Rightarrow> cores))"

definition leaf_ttl :: "tls_config \<Rightarrow> nat" where
  \<comment> \<open>seconds, as are the next two\<close>
  "leaf_ttl t = leaf_ttl_hours t * 3600"

definition clock_skew :: "tls_config \<Rightarrow> nat" where
  "clock_skew t = clock_skew_minutes t * 60"

definition refresh_margin :: "tls_config \<Rightarrow> nat" where
  "refresh_margin t = refresh_margin_minutes t * 60"

definition bypass_ttl :: "tls_config \<Rightarrow> nat" where
  \<comment> \<open>seconds\<close>
  "bypass_ttl t = bypass_ttl_minutes t * 60"

definition bypass_phrase :: "tls_config \<Rightarrow> str option" where
  "bypass_phrase t =
     (let phrase = trim (tls_bypass_phrase t)
      in if allow_bypass t \<and> phrase \<noteq> [] then Some phrase else None)"

definition max_request_body :: "limits_config \<Rightarrow> nat" where
  \<comment> \<open>\<open>usize\<close> multiplication, wrapping as a release build does\<close>
  "max_request_body l = (max_request_body_mb l * 1024 * 1024) mod 2 ^ 64"

definition max_response_body :: "limits_config \<Rightarrow> nat" where
  "max_response_body l = (max_response_body_mb l * 1024 * 1024) mod 2 ^ 64"

definition stream_buffer_bytes :: "limits_config \<Rightarrow> nat" where
  "stream_buffer_bytes l = (stream_buffer_mb l * 1024 * 1024) mod 2 ^ 64"

definition stream_buffer_chunks :: "limits_config \<Rightarrow> nat \<Rightarrow> nat option" where
  \<comment> \<open>\<^const>\<open>None\<close> is the panic of a division by zero\<close>
  "stream_buffer_chunks l chunk_size =
     (if chunk_size = 0 then None
      else Some (max 1 (stream_buffer_bytes l div chunk_size)))"

section \<open>Paths\<close>

definition path_join :: "str \<Rightarrow> str \<Rightarrow> str" where
  \<comment> \<open>\<open>Path::join\<close> with a relative second part\<close>
  "path_join dir rest =
     (if starts_with rest ''/'' then rest
      else if dir = [] \<or> last dir = CHR ''/'' then dir @ rest
      else dir @ ''/'' @ rest)"

definition home :: "str option \<Rightarrow> str option" where
  \<comment> \<open>\<open>env\<close> is the value of \<open>HOME\<close>\<close>
  "home env = (case env of None \<Rightarrow> None | Some h \<Rightarrow> if h = [] \<or> h = ''/'' then None else Some h)"

record environment =
  HOME :: "str option"
  XDG_CONFIG_HOME :: "str option"
  XDG_CACHE_HOME :: "str option"
  XDG_DATA_HOME :: "str option"

definition bare :: environment where
  "bare = \<lparr>HOME = None, XDG_CONFIG_HOME = None, XDG_CACHE_HOME = None, XDG_DATA_HOME = None\<rparr>"

definition config_home :: "environment \<Rightarrow> str" where
  "config_home env =
     (case XDG_CONFIG_HOME env of
        Some p \<Rightarrow> p
      | None \<Rightarrow> path_join (case home (HOME env) of Some h \<Rightarrow> h | None \<Rightarrow> ''.'') ''.config'')"

definition tilde_or :: "str option \<Rightarrow> str \<Rightarrow> str" where
  "tilde_or h rest = (case h of Some h \<Rightarrow> path_join h rest | None \<Rightarrow> path_join ''~'' rest)"

definition default_cache_dir :: "environment \<Rightarrow> str" where
  "default_cache_dir env =
     path_join (case XDG_CACHE_HOME env of Some p \<Rightarrow> p | None \<Rightarrow> tilde_or (home (HOME env)) ''.cache'') ''mach5''"

definition default_state_dir :: "environment \<Rightarrow> str" where
  "default_state_dir env =
     path_join (case XDG_DATA_HOME env of
        Some p \<Rightarrow> p
      | None \<Rightarrow> path_join (tilde_or (home (HOME env)) ''.local'') ''share'') ''mach5''"

definition default_plugin_dir :: "environment \<Rightarrow> str" where
  "default_plugin_dir env = path_join (path_join (config_home env) ''mach5'') ''plugins''"

definition default_paths :: "environment \<Rightarrow> paths_config" where
  "default_paths env = \<lparr>cache_dir = default_cache_dir env, state_dir = default_state_dir env\<rparr>"

definition default_plugins :: "environment \<Rightarrow> plugins_config" where
  "default_plugins env = \<lparr>plugins_dir = default_plugin_dir env, plugins_enabled = True, stamp_responses = False\<rparr>"

definition default_config :: "environment \<Rightarrow> config" where
  "default_config env = \<lparr>listen = (V4 0, 4433), listen_tcp = (V4 0, 4443),
     ca_section = \<lparr>ca_cert = None, ca_key = None\<rparr>, http_section = default_http, paths_section = default_paths env,
     plugins_section = default_plugins env, blocklist_section = default_blocklist, log_urls = default_url_logging,
     images_section = default_images, link_section = default_link, upstream_addresses = System,
     passthrough_section = default_passthrough, cosmetic_section = default_cosmetic,
     internal_section = default_internal, inject_section = default_inject, tls_section = default_tls,
     limits_section = default_limits, quic_section = default_quic\<rparr>"

definition strip_tilde :: "str \<Rightarrow> str option" where
  \<comment> \<open>\<open>path.strip_prefix("~")\<close>: whole components only\<close>
  "strip_tilde path =
     (if path = ''~'' then Some []
      else case strip_prefix path ''~/'' of None \<Rightarrow> None | Some rest \<Rightarrow> Some (dropWhile (\<lambda>c. c = CHR ''/'') rest))"

definition expand_tilde :: "str option \<Rightarrow> str \<Rightarrow> str" where
  "expand_tilde env path =
     (case strip_tilde path of
        None \<Rightarrow> path
      | Some rest \<Rightarrow> (case home env of Some h \<Rightarrow> path_join h rest | None \<Rightarrow> path))"

definition normalize_config :: "str option \<Rightarrow> config \<Rightarrow> config" where
  "normalize_config env c =
     c\<lparr>ca_section := \<lparr>ca_cert = map_option (expand_tilde env) (ca_cert (ca_section c)),
              ca_key = map_option (expand_tilde env) (ca_key (ca_section c))\<rparr>,
       paths_section := \<lparr>cache_dir = expand_tilde env (cache_dir (paths_section c)),
                 state_dir = expand_tilde env (state_dir (paths_section c))\<rparr>,
       plugins_section := (plugins_section c)\<lparr>plugins_dir := expand_tilde env (plugins_dir (plugins_section c))\<rparr>,
       blocklist_section := (blocklist_section c)\<lparr>
         blocklist_files := map (expand_tilde env) (blocklist_files (blocklist_section c))\<rparr>,
       cosmetic_section := (cosmetic_section c)\<lparr>
         cosmetic_files := map (expand_tilde env) (cosmetic_files (cosmetic_section c))\<rparr>\<rparr>"

definition locate :: "str option \<Rightarrow> (str \<Rightarrow> bool) \<Rightarrow> environment \<Rightarrow> str option" where
  \<comment> \<open>over \<open>$MACH5_CONFIG\<close>, the test for a regular file and the environment\<close>
  "locate named is_file env =
     (case named of
        Some path \<Rightarrow> Some path
      | None \<Rightarrow>
          if is_file ''mach5.toml'' then Some ''mach5.toml''
          else let user = path_join (path_join (config_home env) ''mach5'') ''mach5.toml''
               in if is_file user then Some user else None)"

section \<open>Facts\<close>

lemma bypass_phrase_Some:
  "bypass_phrase t = Some p \<Longrightarrow> allow_bypass t \<and> p = trim (tls_bypass_phrase t) \<and> p \<noteq> []"
  by (auto simp: bypass_phrase_def Let_def split: if_splits)

lemma resolve_threads_pos: "0 < resolve_threads cores t"
  by (simp add: resolve_threads_def)

lemma stream_buffer_chunks_pos: "stream_buffer_chunks l n = Some k \<Longrightarrow> 0 < k"
  by (auto simp: stream_buffer_chunks_def split: if_splits)

end
