(* ===== verification/Metrics.thy ===== *)
theory Metrics
  imports Floats "HOL-Library.Mapping" "HOL-Library.AList_Mapping"
begin

text \<open>
  \<open>src/proxy/src/metrics.rs\<close>: the counters, the snapshot a page is rendered from, and how counts
  and uptimes are printed. A counter is a 64-bit word: additions wrap, as \<open>fetch_add\<close> does. The
  plugin timings are a \<open>BTreeMap\<close>, here a mapping; a duration is a number of microseconds.
\<close>

type_synonym counter = "64 word"

definition increment :: "counter \<Rightarrow> counter" where
  "increment c = c + 1"

definition add_count :: "nat \<Rightarrow> counter \<Rightarrow> counter" where
  "add_count n c = c + of_nat n"

record plugin_time =
  calls :: counter
  total_micros :: nat
  skipped :: counter

definition default_plugin_time :: plugin_time where
  "default_plugin_time = \<lparr>calls = 0, total_micros = 0, skipped = 0\<rparr>"

record metrics =
  requests :: counter
  blocked_count :: counter
  passed_through :: counter
  internal_count :: counter
  injected :: counter
  bypassed :: counter
  tls_failures :: counter
  upstream_failures :: counter
  bytes_from_origin :: counter
  bytes_to_client :: counter
  bytes_saved_by_compression :: counter
  bytes_saved_by_images :: counter
  images_stripped :: counter
  origin_cache_hits :: counter
  origin_cache_revalidated :: counter
  origin_cache_misses :: counter
  bytes_saved_by_origin_cache :: counter
  image_cache_hits :: counter
  image_cache_misses :: counter
  streams_parked :: counter
  not_cached_for_a_plugin :: counter
  lookups_ipv4_only :: counter
  lookups_ipv6_only :: counter
  lookups_dual :: counter
  plugin_times :: "(str, plugin_time) mapping"

definition default_metrics :: metrics where
  "default_metrics =
     \<lparr>requests = 0, blocked_count = 0, passed_through = 0, internal_count = 0, injected = 0, bypassed = 0,
      tls_failures = 0, upstream_failures = 0, bytes_from_origin = 0, bytes_to_client = 0,
      bytes_saved_by_compression = 0, bytes_saved_by_images = 0, images_stripped = 0,
      origin_cache_hits = 0, origin_cache_revalidated = 0, origin_cache_misses = 0,
      bytes_saved_by_origin_cache = 0, image_cache_hits = 0, image_cache_misses = 0,
      streams_parked = 0, not_cached_for_a_plugin = 0, lookups_ipv4_only = 0, lookups_ipv6_only = 0,
      lookups_dual = 0, plugin_times = Mapping.empty\<rparr>"

definition plugin_entry :: "str \<Rightarrow> metrics \<Rightarrow> plugin_time" where
  "plugin_entry name m = (case Mapping.lookup (plugin_times m) name of Some t \<Rightarrow> t | None \<Rightarrow> default_plugin_time)"

definition record_plugin_call :: "str \<Rightarrow> nat \<Rightarrow> metrics \<Rightarrow> metrics" where
  "record_plugin_call name elapsed m =
     (let time = plugin_entry name m
      in m\<lparr>plugin_times := Mapping.update name
           (time\<lparr>calls := calls time + 1, total_micros := total_micros time + elapsed\<rparr>) (plugin_times m)\<rparr>)"

definition record_plugin_skip :: "str \<Rightarrow> metrics \<Rightarrow> counter \<times> metrics" where
  "record_plugin_skip name m =
     (let time = plugin_entry name m; time = time\<lparr>skipped := skipped time + 1\<rparr>
      in (skipped time, m\<lparr>plugin_times := Mapping.update name time (plugin_times m)\<rparr>))"

record plugin_stats =
  s_calls :: counter
  s_total_micros :: counter
  s_mean_micros :: counter
  s_skipped :: counter

definition plugin_stats_of :: "plugin_time \<Rightarrow> plugin_stats" where
  "plugin_stats_of time =
     (let total = (of_nat (total_micros time) :: counter)
      in \<lparr>s_calls = calls time, s_total_micros = total, s_mean_micros = total div max (calls time) 1,
          s_skipped = skipped time\<rparr>)"

definition without_mach5 :: "metrics \<Rightarrow> counter" where
  "without_mach5 s = bytes_to_client s + bytes_saved_by_compression s + bytes_saved_by_images s"

section \<open>Printing\<close>

fun thousands_from :: "nat \<Rightarrow> str \<Rightarrow> str" where
  \<comment> \<open>the loop over \<open>digits.char_indices()\<close>: \<open>i\<close> digits done, the rest to go\<close>
  "thousands_from i [] = []"
| "thousands_from i (d # ds) =
     (if i > 0 \<and> length (d # ds) mod 3 = 0 then [CHR '','', d] else [d]) @ thousands_from (Suc i) ds"

definition thousands :: "nat \<Rightarrow> str" where
  "thousands n = thousands_from 0 (show_nat n)"

definition KB :: nat where "KB = 1024"
definition MB :: nat where "MB = KB * 1024"
definition GB :: nat where "GB = MB * 1024"

definition byte_count :: "nat \<Rightarrow> str" where
  \<comment> \<open>\<open>metrics::bytes\<close>\<close>
  "byte_count n =
     (case find (\<lambda>(unit, label). n \<ge> unit) [(GB, ''GB''), (MB, ''MB''), (KB, ''KB'')] of
        Some (unit, label) \<Rightarrow> one_decimal (over (of_integer n) (of_integer unit)) @ '' '' @ label
      | None \<Rightarrow> thousands n @ '' B'')"

definition share :: "nat \<Rightarrow> nat \<Rightarrow> str" where
  "share part whole =
     (if part = 0 \<or> whole = 0 then byte_count part
      else
        (let percent = half_away (over (times (of_integer part) (100, 1)) (of_integer whole))
         in if percent = 0 then byte_count part @ '' (<1%)''
            else byte_count part @ '' ('' @ show_nat percent @ ''%)''))"

definition duration :: "nat \<Rightarrow> str" where
  \<comment> \<open>of so many microseconds; the unit is the two bytes of U+00B5 and \<open>s\<close>\<close>
  "duration micros =
     (if micros < 1000 then one_decimal (of_integer micros) @ [CHR '' '', char_of (194 :: nat), char_of (181 :: nat), CHR ''s'']
      else one_decimal (over (of_integer micros) (1000, 1)) @ '' ms'')"

fun uptime_parts :: "str \<Rightarrow> (nat \<times> str) list \<Rightarrow> str" where
  "uptime_parts out [] = out"
| "uptime_parts out ((value, unit) # ps) =
     (if value = 0 \<and> out = [] \<and> unit \<noteq> ''s'' then uptime_parts out ps
      else uptime_parts ((if out = [] then out else out @ '' '') @ show_nat value @ unit) ps)"

definition uptime :: "nat \<Rightarrow> str" where
  \<comment> \<open>over \<open>elapsed.as_secs()\<close>\<close>
  "uptime seconds =
     uptime_parts [] [(seconds div 86400, ''d''), (seconds div 3600 mod 24, ''h''),
                      (seconds div 60 mod 60, ''m''), (seconds mod 60, ''s'')]"

lemma thousands_from_digits:
  "CHR '','' \<notin> set ds \<Longrightarrow> filter (\<lambda>c. c \<noteq> CHR '','') (thousands_from i ds) = ds"
  by (induction ds arbitrary: i) auto

lemma plugin_skip_without_call:
  "let (n, m) = record_plugin_skip name default_metrics
   in \<exists>t. Mapping.lookup (plugin_times m) name = Some t \<and> calls t = 0 \<and> n = 1"
  by (simp add: record_plugin_skip_def plugin_entry_def default_metrics_def default_plugin_time_def)

text \<open>
  Grouping the digits of a count loses nothing. Without its commas the printed count is the
  decimal numeral itself, so it parses back to the number.
\<close>

theorem thousands_roundtrip:
  assumes "n \<le> u64_max"
  shows "parse_u64 (filter (\<lambda>c. c \<noteq> CHR '','') (thousands n)) = Some n"
proof -
  have "CHR '','' \<notin> set (show_nat n)"
  proof
    assume "CHR '','' \<in> set (show_nat n)"
    then have "is_digit CHR '',''" by (rule show_nat_digits)
    then show False by (simp add: is_digit_def)
  qed
  with assms show ?thesis by (simp add: thousands_def thousands_from_digits parse_show)
qed

theorem thousands_roundtrip_witness:
  "parse_u64 (filter (\<lambda>c. c \<noteq> CHR '','') (thousands 1234567)) = Some 1234567"
  by (rule thousands_roundtrip) (simp add: u64_max_def)

end
