(* ===== verification/Blocklist.thy ===== *)
theory Blocklist
  imports Config Metrics
begin

text \<open>
  \<open>src/proxy/src/blocklist.rs\<close>: parsing of hosts files, bare domains and Adblock anchors, the
  four domain sets, the decision on a request, the answer to a blocked one, and the registry a
  refresh replaces. \<open>Instant::now()\<close>, the files on disk and the text the list fetcher returned
  are arguments.
\<close>

section \<open>Rules and their parsing\<close>

datatype rule = Block str | BlockEmbedded str | Allow str | AllowEmbedded str

datatype anchored = Plain str | ThirdParty str | Unreadable

definition anchored :: "str \<Rightarrow> anchored" where
  "anchored rule =
     (case strip_prefix rule ''||'' of
        None \<Rightarrow> Unreadable
      | Some rest \<Rightarrow>
          (let (pattern, options) =
             (case split_once CHR ''$'' rest of
                Some (pattern, options) \<Rightarrow> (pattern, Some options)
              | None \<Rightarrow> (rest, None));
             domain = hd (split_on (\<lambda>c. c = CHR ''^'') pattern)
           in if find_char (\<lambda>c. c = CHR ''*'' \<or> c = CHR ''/'') domain \<noteq> None then Unreadable
              else (case options of
                      None \<Rightarrow> Plain domain
                    | Some opts \<Rightarrow>
                        if opts = ''third-party'' then ThirdParty domain else Unreadable)))"

definition one :: "'a option \<Rightarrow> 'a list" where
  "one r = (case r of None \<Rightarrow> [] | Some x \<Rightarrow> [x])"

definition tab :: char where "tab = char_of (9::nat)"

definition cut_comment :: "str \<Rightarrow> str" where
  \<comment> \<open>\<open>line.find(" #").or_else(|| line.find("\t#"))\<close>, and the line up to there\<close>
  "cut_comment line =
     (case (case find_sub '' #'' line of Some i \<Rightarrow> Some i | None \<Rightarrow> find_sub [tab, CHR ''#''] line) of
        Some i \<Rightarrow> trim (take i line)
      | None \<Rightarrow> line)"

definition parse :: "str \<Rightarrow> rule list" where
  "parse raw =
     (let line = trim raw in
      if line = [] \<or> starts_with line ''#'' \<or> starts_with line ''!'' then []
      else let line = cut_comment line in
        case strip_prefix line ''@@'' of
          Some rule \<Rightarrow>
            one (case anchored rule of
                   Plain domain \<Rightarrow> map_option Allow (normalize domain)
                 | ThirdParty domain \<Rightarrow> map_option AllowEmbedded (normalize domain)
                 | Unreadable \<Rightarrow> None)
        | None \<Rightarrow>
            if starts_with line ''||'' then
              one (case anchored line of
                     Plain domain \<Rightarrow> map_option Block (normalize domain)
                   | ThirdParty domain \<Rightarrow> map_option BlockEmbedded (normalize domain)
                   | Unreadable \<Rightarrow> None)
            else
              case split_once_ws line of
                Some (address, rest) \<Rightarrow> map Block (List.map_filter normalize (split_whitespace rest))
              | None \<Rightarrow> one (map_option Block (normalize line)))"

section \<open>The list\<close>

record blocklist =
  blocked_set :: "str set"
  blocked_embedded :: "str set"
  allowed_set :: "str set"
  allowed_embedded :: "str set"
  sources :: nat
  built :: nat

definition new :: "nat \<Rightarrow> str list \<Rightarrow> blocklist" where
  "new now allow =
     \<lparr>blocked_set = {}, blocked_embedded = {},
      allowed_set = set (List.map_filter normalize allow), allowed_embedded = {},
      sources = 0, built = now\<rparr>"

fun add_rule :: "rule \<Rightarrow> blocklist \<Rightarrow> blocklist" where
  "add_rule (Block d) b = b\<lparr>blocked_set := insert d (blocked_set b)\<rparr>"
| "add_rule (BlockEmbedded d) b = b\<lparr>blocked_embedded := insert d (blocked_embedded b)\<rparr>"
| "add_rule (Allow d) b = b\<lparr>allowed_set := insert d (allowed_set b)\<rparr>"
| "add_rule (AllowEmbedded d) b = b\<lparr>allowed_embedded := insert d (allowed_embedded b)\<rparr>"

definition add :: "str \<Rightarrow> blocklist \<Rightarrow> blocklist" where
  "add text b = fold (\<lambda>line. fold add_rule (parse line)) (lines text) b"

definition load :: "nat \<Rightarrow> (str \<Rightarrow> str option) \<Rightarrow> str list \<Rightarrow> str list \<Rightarrow> blocklist" where
  \<comment> \<open>\<open>read path\<close> is what \<open>read_to_string\<close> gives for the path, \<^const>\<open>None\<close> for an error\<close>
  "load now read files allow =
     fold (\<lambda>path list. case read path of
             Some text \<Rightarrow> (add text list)\<lparr>sources := sources (add text list) + 1\<rparr>
           | None \<Rightarrow> list) files (new now allow)"

definition is_empty :: "blocklist \<Rightarrow> bool" where
  "is_empty b \<longleftrightarrow> blocked_set b = {} \<and> blocked_embedded b = {}"

definition len :: "blocklist \<Rightarrow> nat" where
  "len b = card (blocked_set b) + card (blocked_embedded b)"

record list_status =
  ls_domains :: nat
  ls_sources :: nat
  ls_age :: nat

definition list_status_of :: "nat \<Rightarrow> blocklist \<Rightarrow> list_status" where
  "list_status_of now b =
     \<lparr>ls_domains = card (blocked_set b) + card (blocked_embedded b), ls_sources = sources b, ls_age = now - built b\<rparr>"

definition same_as :: "blocklist \<Rightarrow> blocklist \<Rightarrow> bool" where
  "same_as a b \<longleftrightarrow>
     blocked_set a = blocked_set b \<and> blocked_embedded a = blocked_embedded b
     \<and> allowed_set a = allowed_set b \<and> allowed_embedded a = allowed_embedded b"

section \<open>Deciding on a request\<close>

definition fetch_metadata :: "proxy_request \<Rightarrow> str \<Rightarrow> str option" where
  "fetch_metadata req name = map_option (\<lambda>v. to_lower (trim v)) (header (rq_headers req) name)"

definition embedded :: "proxy_request \<Rightarrow> bool" where
  "embedded req =
     (if fetch_metadata req ''sec-fetch-site'' \<noteq> Some ''cross-site'' then False
      else fetch_metadata req ''sec-fetch-dest'' \<noteq> Some ''document'')"

definition blocks_request :: "blocklist \<Rightarrow> proxy_request \<Rightarrow> str \<Rightarrow> bool" where
  "blocks_request b req host =
     (let emb = embedded req in
      if covers (allowed_set b) host \<or> (emb \<and> covers (allowed_embedded b) host) then False
      else covers (blocked_set b) host \<or> (emb \<and> covers (blocked_embedded b) host))"

definition TRANSPARENT_GIF :: bytes where
  "TRANSPARENT_GIF =
     [0x47, 0x49, 0x46, 0x38, 0x39, 0x61, 0x01, 0x00, 0x01, 0x00, 0x80, 0x00, 0x00, 0x00, 0x00, 0x00,
      0xff, 0xff, 0xff, 0x21, 0xf9, 0x04, 0x01, 0x00, 0x00, 0x00, 0x00, 0x2c, 0x00, 0x00, 0x00, 0x00,
      0x01, 0x00, 0x01, 0x00, 0x00, 0x02, 0x02, 0x44, 0x01, 0x00, 0x3b]"

definition wants_image :: "proxy_request \<Rightarrow> bool" where
  "wants_image req =
     list_ex (\<lambda>(name, value). eq_ci name ''accept'' \<and> contains (to_lower value) ''image/'')
       (rq_headers req)"

definition blocked :: "proxy_request \<Rightarrow> proxy_response" where
  "blocked req =
     (let hs = [(''cache-control'', ''no-store''), (''x-mach5'', ''blocked'')] in
      if wants_image req then
        \<lparr>rs_status = 200, rs_headers = hs @ [(''content-type'', ''image/gif'')],
         rs_body = TRANSPARENT_GIF\<rparr>
      else \<lparr>rs_status = 204, rs_headers = hs, rs_body = []\<rparr>)"

definition on_request :: "blocklist \<Rightarrow> proxy_request \<Rightarrow> metrics \<Rightarrow> proxy_response option \<times> metrics" where
  "on_request list req m =
     (let host = host_of (rq_url req) in
      if \<not> blocks_request list req host then (None, m)
      else (Some (blocked req), m\<lparr>blocked_count := increment (blocked_count m)\<rparr>))"

section \<open>Refreshing\<close>

definition refresh_interval :: "blocklist_config \<Rightarrow> nat option" where
  \<comment> \<open>seconds\<close>
  "refresh_interval c =
     (if blocklist_enabled c \<and> blocklist_refresh_hours c > 0 then Some (blocklist_refresh_hours c * 3600) else None)"

definition build :: "nat \<Rightarrow> (str \<Rightarrow> str option) \<Rightarrow> blocklist_config \<Rightarrow> str list \<Rightarrow> blocklist" where
  "build now read c texts =
     fold (\<lambda>text list. (add text list)\<lparr>sources := sources (add text list) + 1\<rparr>) texts
       (load now read (blocklist_files c) (blocklist_allow c))"

datatype report = NoListsConfigured | NothingLoaded nat | Loaded nat nat nat

definition report_of :: "blocklist \<Rightarrow> nat \<Rightarrow> report" where
  "report_of list configured =
     (if configured = 0 then NoListsConfigured
      else if is_empty list then NothingLoaded configured
      else Loaded (len list) (sources list) configured)"

definition configured :: "blocklist_config \<Rightarrow> nat" where
  "configured c = length (blocklist_files c) + length (blocklist_urls c)"

definition refresh ::
  "nat \<Rightarrow> (str \<Rightarrow> str option) \<Rightarrow> blocklist_config \<Rightarrow> str list \<Rightarrow> blocklist \<Rightarrow> blocklist \<times> report option"
where
  \<comment> \<open>the list in force after a refresh with these fetched texts, and the log line if it moved\<close>
  "refresh now read c texts current =
     (let list = build now read c texts
      in (list, if same_as list current then None else Some (report_of list (configured c))))"

section \<open>Rules are normalised domains\<close>

fun rule_domain :: "rule \<Rightarrow> str" where
  "rule_domain (Block d) = d"
| "rule_domain (BlockEmbedded d) = d"
| "rule_domain (Allow d) = d"
| "rule_domain (AllowEmbedded d) = d"

lemma set_one [simp]: "set (one r) = set_option r"
  by (cases r) (auto simp: one_def)

lemma parse_domain: "r \<in> set (parse line) \<Longrightarrow> normalize (rule_domain r) = Some (rule_domain r)"
  by (fastforce simp: parse_def Let_def List.map_filter_def
      split: if_splits option.splits anchored.splits dest: normalize_idem)

definition domains :: "blocklist \<Rightarrow> str set" where
  "domains b = blocked_set b \<union> blocked_embedded b \<union> allowed_set b \<union> allowed_embedded b"

definition wf :: "blocklist \<Rightarrow> bool" where
  "wf b \<longleftrightarrow> (\<forall>d\<in>domains b. normalize d = Some d)"

definition rules_of :: "str \<Rightarrow> rule list" where
  "rules_of text = concat (map parse (lines text))"

lemma add_rules: "add text b = fold add_rule (rules_of text) b"
proof -
  have "fold (\<lambda>line. fold add_rule (parse line)) ls b = fold add_rule (concat (map parse ls)) b" for ls
    by (induction ls arbitrary: b) auto
  then show ?thesis by (simp add: add_def rules_of_def)
qed

lemma domains_add_rule: "domains (add_rule r b) = insert (rule_domain r) (domains b)"
  by (cases r) (auto simp: domains_def)

lemma domains_add: "domains (add text b) = domains b \<union> rule_domain ` set (rules_of text)"
proof -
  have "domains (fold add_rule rs b) = domains b \<union> rule_domain ` set rs" for rs
    by (induction rs arbitrary: b) (auto simp: domains_add_rule)
  then show ?thesis by (simp add: add_rules)
qed

lemma wf_add: "wf b \<Longrightarrow> wf (add text b)"
  by (auto simp: wf_def domains_add rules_of_def dest: parse_domain)

lemma wf_sources [simp]: "wf (b\<lparr>sources := n\<rparr>) = wf b"
  by (simp add: wf_def domains_def)

lemma wf_new: "wf (new now allow)"
  by (auto simp: wf_def domains_def new_def List.map_filter_def dest: normalize_idem)

lemma wf_fold:
  assumes "wf b" and "\<And>x b. x \<in> set xs \<Longrightarrow> wf b \<Longrightarrow> wf (f x b)"
  shows "wf (fold f xs b)"
  using assms by (induction xs arbitrary: b) auto

lemma wf_load: "wf (load now read files allow)"
  unfolding load_def by (intro wf_fold wf_new) (auto split: option.splits intro: wf_add)

lemma wf_build: "wf (build now read c texts)"
  unfolding build_def by (intro wf_fold wf_load) (auto intro: wf_add)

section \<open>What the sources contribute\<close>

lemma sets_add_rule:
  "blocked_set (add_rule r b) = blocked_set b \<union> {d. Block d = r}"
  "blocked_embedded (add_rule r b) = blocked_embedded b \<union> {d. BlockEmbedded d = r}"
  "allowed_set (add_rule r b) = allowed_set b \<union> {d. Allow d = r}"
  "allowed_embedded (add_rule r b) = allowed_embedded b \<union> {d. AllowEmbedded d = r}"
  "sources (add_rule r b) = sources b"
  by (cases r; auto)+

lemma sets_fold_rules:
  "blocked_set (fold add_rule rs b) = blocked_set b \<union> {d. Block d \<in> set rs}"
  "blocked_embedded (fold add_rule rs b) = blocked_embedded b \<union> {d. BlockEmbedded d \<in> set rs}"
  "allowed_set (fold add_rule rs b) = allowed_set b \<union> {d. Allow d \<in> set rs}"
  "allowed_embedded (fold add_rule rs b) = allowed_embedded b \<union> {d. AllowEmbedded d \<in> set rs}"
  "sources (fold add_rule rs b) = sources b"
  by (induction rs arbitrary: b) (auto simp: sets_add_rule)

lemmas sets_add = sets_fold_rules [of "rules_of t" b, folded add_rules] for t b

definition add_source :: "str \<Rightarrow> blocklist \<Rightarrow> blocklist" where
  "add_source text list = (add text list)\<lparr>sources := sources (add text list) + 1\<rparr>"

lemma sets_add_source:
  "blocked_set (fold add_source ts b) = blocked_set b \<union> {d. \<exists>t\<in>set ts. Block d \<in> set (rules_of t)}"
  "blocked_embedded (fold add_source ts b) =
     blocked_embedded b \<union> {d. \<exists>t\<in>set ts. BlockEmbedded d \<in> set (rules_of t)}"
  "allowed_set (fold add_source ts b) = allowed_set b \<union> {d. \<exists>t\<in>set ts. Allow d \<in> set (rules_of t)}"
  "allowed_embedded (fold add_source ts b) =
     allowed_embedded b \<union> {d. \<exists>t\<in>set ts. AllowEmbedded d \<in> set (rules_of t)}"
  "sources (fold add_source ts b) = sources b + length ts"
  by (induction ts arbitrary: b) (auto simp: add_source_def sets_add)

definition texts_read :: "(str \<Rightarrow> str option) \<Rightarrow> blocklist_config \<Rightarrow> str list \<Rightarrow> str list" where
  "texts_read read c texts = List.map_filter read (blocklist_files c) @ texts"

lemma load_add_source: "load now read files allow = fold add_source (List.map_filter read files) (new now allow)"
proof -
  have "fold (\<lambda>path list. case read path of
             Some text \<Rightarrow> (add text list)\<lparr>sources := sources (add text list) + 1\<rparr>
           | None \<Rightarrow> list) files b = fold add_source (List.map_filter read files) b" for b
    by (induction files arbitrary: b)
      (auto simp: List.map_filter_simps add_source_def split: option.splits)
  then show ?thesis by (simp add: load_def)
qed

lemma build_add_source:
  "build now read c texts = fold add_source (texts_read read c texts) (new now (blocklist_allow c))"
  by (simp add: build_def load_add_source texts_read_def add_source_def [abs_def])

section \<open>Requests\<close>

lemma not_under_single_label: "dot \<notin> set h \<Longrightarrow> dot \<in> set d \<Longrightarrow> \<not> under h d"
  by (auto simp: under_def)

lemma wf_covers_label:
  assumes "wf b" and "S \<subseteq> domains b" and "dot \<notin> set (canon host)"
  shows "\<not> covers S host"
proof
  assume "covers S host"
  then obtain d where "d \<in> S" "under (canon host) d" by (auto simp: covers_iff)
  moreover from \<open>d \<in> S\<close> assms have "dot \<in> set d" by (auto simp: wf_def dest: normalize_SomeD)
  ultimately show False using assms(3) not_under_single_label by blast
qed

lemma same_as_build: "same_as (build now read c texts) (build now' read c texts)"
  by (simp add: same_as_def build_add_source sets_add_source new_def)

lemma same_as_blocks: "same_as a b \<Longrightarrow> blocks_request a = blocks_request b"
  by (simp add: same_as_def blocks_request_def fun_eq_iff)

section \<open>The line formats\<close>

definition plain_char :: "char \<Rightarrow> bool" where
  "plain_char c \<longleftrightarrow> label_char c \<or> c = dot"

lemma plain_char_visible: "plain_char c \<Longrightarrow> 33 \<le> byte c \<and> byte c \<le> 127"
  by (auto simp: plain_char_def dest: label_char_ascii)

lemma not_plain_char [simp]:
  "\<not> plain_char CHR ''#''" "\<not> plain_char CHR ''!''" "\<not> plain_char CHR ''$''" "\<not> plain_char CHR ''^''"
  "\<not> plain_char CHR ''*''" "\<not> plain_char CHR ''/''" "\<not> plain_char CHR ''|''" "\<not> plain_char CHR ''@''"
  "\<not> plain_char CHR '' ''"
  by (simp_all add: plain_char_def label_char_def is_alnum_def is_alpha_def is_upper_def is_lower_def is_digit_def)

lemma normalize_plain_char: "normalize d = Some d \<Longrightarrow> c \<in> set d \<Longrightarrow> plain_char c"
  using normalize_SomeD(4) plausible_chars plain_char_def by blast

lemma normal_special: "normalize d = Some d \<Longrightarrow> \<not> plain_char c \<Longrightarrow> c \<notin> set d"
  using normalize_plain_char by blast

lemma normalize_nonempty: "normalize raw = Some d \<Longrightarrow> d \<noteq> []"
  using normalize_SomeD(2) by fastforce

lemma cut_comment_no_hash: "CHR ''#'' \<notin> set l \<Longrightarrow> cut_comment l = l"
proof -
  assume "CHR ''#'' \<notin> set l"
  then have "find_sub ('' #'') l = None" "find_sub [tab, CHR ''#''] l = None"
    by (auto simp: find_sub_None_iff)
  then show ?thesis by (simp add: cut_comment_def)
qed

lemma trim_visible: "(\<And>c. c \<in> set l \<Longrightarrow> 33 \<le> byte c \<and> byte c \<le> 127) \<Longrightarrow> trim l = l"
  by (rule trim_plain)

lemma hd_split_caret: "CHR ''^'' \<notin> set d \<Longrightarrow> hd (split_on (\<lambda>c. c = CHR ''^'') (d @ CHR ''^'' # r)) = d"
  by (subst hd_split_on_append) auto

lemma no_star_slash: "normalize d = Some d \<Longrightarrow> find_char (\<lambda>c. c = CHR ''*'' \<or> c = CHR ''/'') d = None"
  by (auto simp: find_char_None_iff normal_special)

lemma anchored_plain:
  assumes "normalize d = Some d"
  shows "anchored (''||'' @ d @ ''^'') = Plain d"
proof -
  have "CHR ''$'' \<notin> set (d @ ''^'')" "CHR ''^'' \<notin> set d"
    using normal_special [OF assms] by auto
  then have "split_once CHR ''$'' (d @ ''^'') = None" "hd (split_on (\<lambda>c. c = CHR ''^'') (d @ ''^'')) = d"
    by (simp_all add: split_once_None_iff hd_split_caret)
  then show ?thesis using no_star_slash [OF assms] by (simp add: anchored_def)
qed

lemma anchored_option:
  assumes "normalize d = Some d"
  shows "anchored (''||'' @ d @ ''^$'' @ opt) = (if opt = ''third-party'' then ThirdParty d else Unreadable)"
proof -
  have "CHR ''$'' \<notin> set (d @ ''^'')" "CHR ''^'' \<notin> set d"
    using normal_special [OF assms] by auto
  then have "split_once CHR ''$'' (d @ ''^$'' @ opt) = Some (d @ ''^'', opt)"
      "hd (split_on (\<lambda>c. c = CHR ''^'') (d @ ''^'')) = d"
    by (simp_all add: split_once_Some_iff hd_split_caret)
  then show ?thesis using no_star_slash [OF assms] by (simp add: anchored_def)
qed

lemma parse_anchor_line:
  assumes "\<And>c. c \<in> set l \<Longrightarrow> 33 \<le> byte c \<and> byte c \<le> 127" and "CHR ''#'' \<notin> set l"
  shows "parse (''||'' @ l) = one (case anchored (''||'' @ l) of
           Plain domain \<Rightarrow> map_option Block (normalize domain)
         | ThirdParty domain \<Rightarrow> map_option BlockEmbedded (normalize domain)
         | Unreadable \<Rightarrow> None)" (is ?block)
    and "parse (''@@||'' @ l) = one (case anchored (''||'' @ l) of
           Plain domain \<Rightarrow> map_option Allow (normalize domain)
         | ThirdParty domain \<Rightarrow> map_option AllowEmbedded (normalize domain)
         | Unreadable \<Rightarrow> None)" (is ?allow)
proof -
  have "trim (''||'' @ l) = ''||'' @ l" "trim (''@@||'' @ l) = ''@@||'' @ l"
    using assms(1) by (auto intro!: trim_visible)
  moreover have "cut_comment (''||'' @ l) = ''||'' @ l" "cut_comment (''@@||'' @ l) = ''@@||'' @ l"
    using assms(2) by (auto intro!: cut_comment_no_hash)
  ultimately show ?block ?allow by (simp_all add: parse_def)
qed

lemma ws_prefix_visible: "33 \<le> byte c \<Longrightarrow> byte c \<le> 127 \<Longrightarrow> ws_prefix (c # s) = 0"
  by (rule ws_prefix_plain) simp

lemma words_from_visible:
  "(\<And>c. c \<in> set s \<Longrightarrow> 33 \<le> byte c \<and> byte c \<le> 127) \<Longrightarrow>
   words_from acc s = (if acc @ s = [] then [] else [acc @ s])"
proof (induction s arbitrary: acc)
  case (Cons c s)
  then have "ws_prefix (c # s) = 0" by (intro ws_prefix_visible) auto
  with Cons show ?case by simp
qed simp

lemma split_once_ws_visible:
  assumes "\<And>c. c \<in> set a \<Longrightarrow> 33 \<le> byte c \<and> byte c \<le> 127"
  shows "split_once_ws a = None"
    and "split_once_ws (a @ CHR '' '' # s) = Some (a, s)"
  using assms
proof (induction a)
  case Nil
  { case 1 show ?case by simp next
    case 2 show ?case by (cases s rule: ws_prefix.cases) auto }
next
  case (Cons c a)
  { case 1
    with Cons(1) show ?case using ws_prefix_visible [of c a] by auto
  next
    case 2
    with Cons(2) show ?case using ws_prefix_visible [of c "a @ CHR '' '' # s"] by auto }
qed

lemma parse_bare:
  assumes "normalize d = Some d"
  shows "parse d = [Block d]"
proof -
  have vis: "\<And>c. c \<in> set d \<Longrightarrow> 33 \<le> byte c \<and> byte c \<le> 127"
    using assms normalize_plain_char plain_char_visible by blast
  have no: "CHR ''#'' \<notin> set d" "CHR ''!'' \<notin> set d" "CHR ''@'' \<notin> set d" "CHR ''|'' \<notin> set d"
    using normal_special [OF assms] by auto
  obtain e es where d: "d = e # es" using normalize_nonempty [OF assms] by (cases d) auto
  with no have "\<not> starts_with d ''#''" "\<not> starts_with d ''!''" "strip_prefix d ''@@'' = None"
      "\<not> starts_with d ''||''"
    by auto
  moreover have "trim d = d" "cut_comment d = d" "split_once_ws d = None"
    using vis no by (auto intro: trim_visible cut_comment_no_hash split_once_ws_visible)
  ultimately show ?thesis using assms normalize_nonempty [OF assms] by (simp add: parse_def one_def)
qed

lemma trim_visible_ends:
  assumes "s \<noteq> []" "33 \<le> byte (hd s)" "byte (hd s) \<le> 127" "33 \<le> byte (last s)" "byte (last s) \<le> 127"
  shows "trim s = s"
proof (rule trim_id)
  show "ws_prefix s = 0" using assms(2,3) by (simp add: ws_prefix_plain)
  have l: "drop (length s - 1) s = [last s]"
    using assms(1) by (metis append_butlast_last_id append_eq_conv_conj length_butlast)
  have "ws_prefix (drop (length s - n) s) < n" if nn: "1 \<le> n" "n \<le> 3" "n \<le> length s" for n
  proof -
    define t where "t = drop (length s - n) s"
    have t: "length t = n" "last t = last s" using nn by (auto simp: t_def)
    consider a where "t = [a]" | a b where "t = [a, b]" | a b c where "t = [a, b, c]"
    proof -
      assume cases: "\<And>a. t = [a] \<Longrightarrow> thesis" "\<And>a b. t = [a, b] \<Longrightarrow> thesis"
        "\<And>a b c. t = [a, b, c] \<Longrightarrow> thesis"
      have "length t = Suc 0 \<or> length t = Suc (Suc 0) \<or> length t = Suc (Suc (Suc 0))"
        using t(1) nn by auto
      then show thesis using cases by (auto simp: length_Suc_conv)
    qed
    then have "ws_prefix t < length t" using t(2) assms(4,5) by cases auto
    with t show ?thesis by (simp add: t_def)
  qed
  from this [of 1] this [of 2] this [of 3] show "ws_suffix s = 0" by (auto simp: ws_suffix_def Let_def)
qed

lemma parse_hosts_line:
  assumes "normalize d = Some d"
  shows "parse (''0.0.0.0 '' @ d) = [Block d]"
proof -
  have vis: "\<And>c. c \<in> set d \<Longrightarrow> 33 \<le> byte c \<and> byte c \<le> 127"
    using assms normalize_plain_char plain_char_visible by blast
  have ne: "d \<noteq> []" by (rule normalize_nonempty [OF assms])
  let ?l = "''0.0.0.0 '' @ d"
  have "trim ?l = ?l" using vis [OF last_in_set [OF ne]] ne by (intro trim_visible_ends) auto
  moreover have "cut_comment ?l = ?l"
    using normal_special [OF assms, of "CHR ''#''"] by (intro cut_comment_no_hash) auto
  moreover have "split_once_ws (''0.0.0.0'' @ CHR '' '' # d) = Some (''0.0.0.0'', d)"
    by (rule split_once_ws_visible(2)) auto
  then have "split_once_ws ?l = Some (''0.0.0.0'', d)" by (simp only: append_Cons append_Nil)
  moreover have "split_whitespace d = [d]"
    using words_from_visible [OF vis] ne by (simp add: split_whitespace_def)
  ultimately show ?thesis using assms
    by (simp add: parse_def List.map_filter_simps del: split_once_ws.simps)
qed

section \<open>Properties\<close>

lemma tab_comment_read_as_rule:
  \<comment> \<open>a comment introduced by a tab is cut at the later space marker only\<close>
  "parse (''0.0.0.0 a.com'' @ [tab] @ ''# see b.com #2'') = [Block ''a.com'', Block ''b.com'']"
  by code_simp

definition listed :: "(str \<Rightarrow> rule) \<Rightarrow> str list \<Rightarrow> str \<Rightarrow> bool" where
  \<comment> \<open>some text has a rule of that shape for the host or a domain above it\<close>
  "listed shape texts host \<longleftrightarrow>
     (\<exists>t\<in>set texts. \<exists>d. shape d \<in> set (rules_of t) \<and> under (canon host) d)"

text \<open>
  C11: the decision of a freshly built list is the abstract one. A request is blocked exactly when
  some source that could be read lists its host, or a domain above it, and neither the
  configuration nor any source excepts it; third-party rules, of both kinds, count only for a
  request that something else embedded. In particular the order of the sources, repetitions and
  unreadable files do not matter.
\<close>

theorem build_blocks_iff:
  "blocks_request (build now read c texts) req host \<longleftrightarrow>
     (let ts = texts_read read c texts in
      \<not> ((\<exists>a\<in>set (blocklist_allow c). \<exists>d. normalize a = Some d \<and> under (canon host) d)
         \<or> listed Allow ts host \<or> embedded req \<and> listed AllowEmbedded ts host)
      \<and> (listed Block ts host \<or> embedded req \<and> listed BlockEmbedded ts host))"
  by (auto simp: blocks_request_def build_add_source sets_add_source covers_iff listed_def Let_def new_def
      set_map_filter)

text \<open>
  No list, whatever text it holds and wherever it came from, can block a host of a single
  label. A misread line therefore never takes out a top-level domain or the local machine.
\<close>

theorem single_label_never_blocked:
  assumes "dot \<notin> set (canon host)"
  shows "\<not> blocks_request (build now read c texts) req host"
proof -
  let ?b = "build now read c texts"
  have "\<not> covers (blocked_set ?b) host" "\<not> covers (blocked_embedded ?b) host"
    using wf_covers_label [OF wf_build [of now read c texts] _ assms] by (auto simp: domains_def)
  then show ?thesis by (simp add: blocks_request_def Let_def)
qed

theorem single_label_never_blocked_witness:
  "\<not> blocks_request (build 0 (\<lambda>_. None) default_blocklist [''com'', ''||com^'']) \<lparr>rq_method = ''GET'', rq_url = ''https://com/'',
       rq_headers = [], rq_body = [], rq_peer = None\<rparr> ''com''"
  by (rule single_label_never_blocked) code_simp

text \<open>
  The line formats the published lists use are read as what they say. For a domain that is
  already in normal form, the bare line, the hosts line and the Adblock anchor block it, the
  third-party option narrows the rule instead of dropping or widening it, the exceptions mirror
  both, and a rule with any other option is refused.
\<close>

theorem parse_formats:
  assumes "normalize d = Some d"
  shows "parse d = [Block d]
       \<and> parse (''0.0.0.0 '' @ d) = [Block d]
       \<and> parse (''||'' @ d @ ''^'') = [Block d]
       \<and> parse (''||'' @ d @ ''^$third-party'') = [BlockEmbedded d]
       \<and> parse (''@@||'' @ d @ ''^'') = [Allow d]
       \<and> parse (''@@||'' @ d @ ''^$third-party'') = [AllowEmbedded d]
       \<and> parse (''||'' @ d @ ''^$document'') = []"
proof -
  have vis: "33 \<le> byte c \<and> byte c \<le> 127" if "c \<in> set (d @ opt)" "set opt \<subseteq> set ''^$third-partydocument''"
    for c opt
    using that assms normalize_plain_char plain_char_visible by fastforce
  have no: "CHR ''#'' \<notin> set d" using normal_special [OF assms] by simp
  have block: "parse (''||'' @ d @ opt) = one (case anchored (''||'' @ d @ opt) of
           Plain domain \<Rightarrow> map_option Block (normalize domain)
         | ThirdParty domain \<Rightarrow> map_option BlockEmbedded (normalize domain)
         | Unreadable \<Rightarrow> None)"
    and allow: "parse (''@@||'' @ d @ opt) = one (case anchored (''||'' @ d @ opt) of
           Plain domain \<Rightarrow> map_option Allow (normalize domain)
         | ThirdParty domain \<Rightarrow> map_option AllowEmbedded (normalize domain)
         | Unreadable \<Rightarrow> None)"
    if "set opt \<subseteq> set ''^$third-partydocument''" for opt
  proof -
    have "CHR ''#'' \<notin> set (d @ opt)" using no that by auto
    then show "parse (''||'' @ d @ opt) = one (case anchored (''||'' @ d @ opt) of
           Plain domain \<Rightarrow> map_option Block (normalize domain)
         | ThirdParty domain \<Rightarrow> map_option BlockEmbedded (normalize domain)
         | Unreadable \<Rightarrow> None)"
      and "parse (''@@||'' @ d @ opt) = one (case anchored (''||'' @ d @ opt) of
           Plain domain \<Rightarrow> map_option Allow (normalize domain)
         | ThirdParty domain \<Rightarrow> map_option AllowEmbedded (normalize domain)
         | Unreadable \<Rightarrow> None)"
      using parse_anchor_line [OF vis [OF _ that]] by blast+
  qed
  have sub: "set ''^'' \<subseteq> set ''^$third-partydocument''" "set ''^$third-party'' \<subseteq> set ''^$third-partydocument''"
      "set ''^$document'' \<subseteq> set ''^$third-partydocument''"
    by simp_all
  have anc: "anchored (''||'' @ d @ ''^$third-party'') = ThirdParty d"
      "anchored (''||'' @ d @ ''^$document'') = Unreadable"
    using anchored_option [OF assms, of "''third-party''"] anchored_option [OF assms, of "''document''"]
    by simp_all
  note eval = anchored.case assms option.map one_def option.case
  have "parse (''||'' @ d @ ''^'') = [Block d]" "parse (''@@||'' @ d @ ''^'') = [Allow d]"
    by (simp_all only: block [OF sub(1)] allow [OF sub(1)] anchored_plain [OF assms] eval)
  moreover have "parse (''||'' @ d @ ''^$third-party'') = [BlockEmbedded d]"
      "parse (''@@||'' @ d @ ''^$third-party'') = [AllowEmbedded d]"
    by (simp_all only: block [OF sub(2)] allow [OF sub(2)] anc eval)
  moreover have "parse (''||'' @ d @ ''^$document'') = []"
    by (simp only: block [OF sub(3)] anc eval)
  ultimately show ?thesis
    using parse_bare [OF assms] parse_hosts_line [OF assms] by blast
qed

theorem parse_formats_witness:
  "parse ''||ads.example.com^$third-party'' = [BlockEmbedded ''ads.example.com'']"
proof -
  have "normalize ''ads.example.com'' = Some ''ads.example.com''" by code_simp
  from parse_formats [OF this] show ?thesis by simp
qed

text \<open>
  A refresh that reports nothing changed nothing. When the rebuilt list is published without
  a log line, every request is decided as it was before.
\<close>

theorem silent_refresh_same_decisions:
  assumes "refresh now read c texts current = (list, None)"
  shows "blocks_request list req host = blocks_request current req host"
  using assms same_as_blocks by (auto simp: refresh_def Let_def split: if_splits)

theorem silent_refresh_same_decisions_witness:
  "let c = default_blocklist\<lparr>blocklist_urls := [''u'']\<rparr>;
       req = \<lparr>rq_method = ''GET'', rq_url = ''https://ads.example.com/'', rq_headers = [], rq_body = [],
              rq_peer = None\<rparr>
   in blocks_request (build 9 (\<lambda>_. None) c [''ads.example.com'']) req ''ads.example.com''
      = blocks_request (build 1 (\<lambda>_. None) c [''ads.example.com'']) req ''ads.example.com''"
proof -
  have "refresh 9 (\<lambda>_. None) c ts (build 1 (\<lambda>_. None) c ts) = (build 9 (\<lambda>_. None) c ts, None)" for c ts
    by (simp add: refresh_def same_as_build)
  from silent_refresh_same_decisions [OF this] show ?thesis by (simp add: Let_def)
qed

end
