(* ===== verification/Redact.thy ===== *)
theory Redact
  imports Config
begin

text \<open>
  \<open>src/proxy/src/redact.rs\<close>: what of a URL may be logged. The process-wide policy is a write-once
  cell: \<open>init\<close> keeps the first value it was given and \<open>policy\<close> falls back to the default.
\<close>

definition init :: "url_logging \<Rightarrow> url_logging option \<Rightarrow> url_logging option" where
  \<comment> \<open>\<open>OnceLock::set\<close>: a later call changes nothing\<close>
  "init p cell = (case cell of None \<Rightarrow> Some p | Some q \<Rightarrow> Some q)"

definition policy :: "url_logging option \<Rightarrow> url_logging" where
  "policy cell = (case cell of None \<Rightarrow> default_url_logging | Some p \<Rightarrow> p)"

definition trim_url :: "str \<Rightarrow> url_logging \<Rightarrow> str" where
  "trim_url url p =
     (case p of
        Full \<Rightarrow> url
      | Path \<Rightarrow>
          (let cut = (case find_char (\<lambda>c. c = CHR ''?'' \<or> c = CHR ''#'') url of
                        Some i \<Rightarrow> i | None \<Rightarrow> length url)
           in take cut url)
      | Host \<Rightarrow>
          (let after_scheme = (case find_sub ''://'' url of Some i \<Rightarrow> i + 3 | None \<Rightarrow> 0);
               cut = (case find_char (\<lambda>c. c = CHR ''/'' \<or> c = CHR ''?'' \<or> c = CHR ''#'')
                             (drop after_scheme url) of
                        Some i \<Rightarrow> after_scheme + i | None \<Rightarrow> length url)
           in take cut url))"

definition url :: "url_logging option \<Rightarrow> str \<Rightarrow> str" where
  "url cell u = trim_url u (policy cell)"

function (sequential) replace_all :: "str \<Rightarrow> str \<Rightarrow> str \<Rightarrow> str" where
  \<comment> \<open>\<open>str::replace\<close> for a pattern that is not empty\<close>
  "replace_all pat rep [] = []"
| "replace_all pat rep (c # s) =
     (if pat \<noteq> [] \<and> starts_with (c # s) pat
      then rep @ replace_all pat rep (drop (length pat) (c # s))
      else c # replace_all pat rep s)"
  by pat_completeness auto
termination by (relation "measure (\<lambda>(p, r, s). length s)") auto

definition detail :: "url_logging option \<Rightarrow> str \<Rightarrow> str \<Rightarrow> str" where
  \<comment> \<open>an empty URL is its own safe part, so the pattern of \<open>replace\<close> is never empty\<close>
  "detail cell msg full_url =
     (let safe = url cell full_url
      in if safe = full_url then msg else replace_all full_url safe msg)"

section \<open>Facts\<close>

lemma policy_init: "policy (init q (init p cell)) = policy (init p cell)"
  by (simp add: init_def policy_def split: option.splits)

lemma trim_url_prefix: "\<exists>rest. u = trim_url u p @ rest"
  by (cases p) (auto simp: trim_url_def Let_def intro: append_take_drop_id [symmetric])

lemma replace_all_absent: "\<not> contains s pat \<Longrightarrow> replace_all pat rep s = s"
proof (induction pat rep s rule: replace_all.induct)
  case (2 pat rep c s)
  have "\<not> starts_with (c # s) pat"
    using "2.prems" by (auto simp: contains_def split: if_splits)
  moreover have "\<not> contains s pat"
    using "2.prems" by (auto simp: contains_def split: if_splits)
  ultimately show ?case using "2.IH"(2) by simp
qed simp

lemma replace_all_prefix:
  assumes "pat \<noteq> []"
  shows "replace_all pat rep (pat @ s) = rep @ replace_all pat rep s"
proof -
  obtain c r where p: "pat = c # r" using assms by (cases pat) auto
  then have "starts_with (c # (r @ s)) pat" by (metis append_Cons starts_with_append)
  with p show ?thesis by simp
qed

text \<open>
  What reaches the log is always a prefix of the URL that was asked for, and under the
  default policy it holds no query string and no fragment.
\<close>

theorem url_is_a_clean_prefix:
  "(\<exists>rest. u = url cell u @ rest)
   \<and> (policy cell = Path \<longrightarrow> CHR ''?'' \<notin> set (url cell u) \<and> CHR ''#'' \<notin> set (url cell u))"
proof
  show "\<exists>rest. u = url cell u @ rest" by (simp add: url_def trim_url_prefix)
  show "policy cell = Path \<longrightarrow> CHR ''?'' \<notin> set (url cell u) \<and> CHR ''#'' \<notin> set (url cell u)"
    by (auto simp: url_def trim_url_def Let_def find_char_None_iff dest: find_char_Some split: option.splits)
qed

theorem url_is_a_clean_prefix_witness:
  "CHR ''?'' \<notin> set (url (init Path None) ''https://a.example/reset?token=1'')"
proof -
  have "policy (init Path None) = Path" by (simp add: init_def policy_def)
  then show ?thesis
    using url_is_a_clean_prefix [of "''https://a.example/reset?token=1''" "init Path None"] by blast
qed

text \<open>
  An error message of the form the HTTP client builds, the whole URL and then what went
  wrong, is logged with only the safe part of the URL, whatever the policy.
\<close>

theorem detail_of_transport_error:
  assumes "\<not> contains msg u"
  shows "detail cell (u @ msg) u = url cell u @ msg"
proof (cases "u = []")
  case True
  then have "url cell u = u" using trim_url_prefix [of u "policy cell"] by (simp add: url_def)
  with True show ?thesis by (simp add: detail_def)
next
  case False
  then show ?thesis
    using replace_all_prefix [OF False, of "url cell u" msg] replace_all_absent [OF assms]
    by (simp add: detail_def Let_def)
qed

theorem detail_of_transport_error_witness:
  "detail None (''https://a.example/cb?code=s3cret'' @ '': timed out'') ''https://a.example/cb?code=s3cret''
   = ''https://a.example/cb: timed out''"
proof -
  have "\<not> contains '': timed out'' ''https://a.example/cb?code=s3cret''" by code_simp
  from detail_of_transport_error [OF this, of None] show ?thesis
    by (simp add: url_def policy_def default_url_logging_def trim_url_def)
qed

end
