(* ===== verification/Resolver.thy ===== *)
theory Resolver
  imports Config Metrics
begin

text \<open>
  \<open>src/proxy/src/resolver.rs\<close>: grouping an origin's addresses by family, and counting which
  families a lookup found. The lookup itself is an argument.
\<close>

definition count :: "metrics \<Rightarrow> socket_addr list \<Rightarrow> metrics" where
  "count m addresses =
     (let v4 = list_ex (\<lambda>a. is_ipv4 (fst a)) addresses;
          v6 = list_ex (\<lambda>a. \<not> is_ipv4 (fst a)) addresses
      in case (v4, v6) of
           (True, True) \<Rightarrow> m\<lparr>lookups_dual := increment (lookups_dual m)\<rparr>
         | (True, False) \<Rightarrow> m\<lparr>lookups_ipv4_only := increment (lookups_ipv4_only m)\<rparr>
         | (False, True) \<Rightarrow> m\<lparr>lookups_ipv6_only := increment (lookups_ipv6_only m)\<rparr>
         | (False, False) \<Rightarrow> m)"

definition order :: "socket_addr list \<Rightarrow> address_policy \<Rightarrow> socket_addr list" where
  \<comment> \<open>\<^const>\<open>sort_key\<close> is stable, as \<open>sort_by_key\<close> is; \<^const>\<open>False\<close> sorts before \<^const>\<open>True\<close>\<close>
  "order addresses p =
     (case p of
        System \<Rightarrow> addresses
      | PreferIpv4 \<Rightarrow> sort_key (\<lambda>a. \<not> is_ipv4 (fst a)) addresses
      | PreferIpv6 \<Rightarrow> sort_key (\<lambda>a. is_ipv4 (fst a)) addresses)"

definition resolve ::
  "address_policy \<Rightarrow> metrics \<Rightarrow> socket_addr list option \<Rightarrow> socket_addr list option \<times> metrics"
where
  \<comment> \<open>over the result of \<open>to_socket_addrs\<close>, \<^const>\<open>None\<close> for its error\<close>
  "resolve p m looked_up =
     (case looked_up of
        None \<Rightarrow> (None, m)
      | Some addresses \<Rightarrow> (Some (order addresses p), count m addresses))"

lemma insort_key_bool:
  fixes f :: "'a \<Rightarrow> bool"
  assumes "\<forall>a\<in>set as. \<not> f a" and "\<forall>b\<in>set bs. f b"
  shows "insort_key f x (as @ bs) = (if f x then as @ x # bs else x # as @ bs)"
  using assms
proof (induction as)
  case Nil
  then show ?case by (cases bs) auto
qed auto

lemma sort_key_bool:
  fixes f :: "'a \<Rightarrow> bool"
  shows "sort_key f xs = filter (\<lambda>x. \<not> f x) xs @ filter f xs"
  by (induction xs) (simp_all add: insort_key_bool)

text \<open>
  Ordering by a preferred family only groups. Every address the resolver returned is still
  there, the preferred family comes first, and within each family the resolver's own order is
  kept; with no preference nothing moves.
\<close>

theorem order_groups_families:
  "order addresses PreferIpv4 =
     filter (\<lambda>a. is_ipv4 (fst a)) addresses @ filter (\<lambda>a. \<not> is_ipv4 (fst a)) addresses
   \<and> order addresses PreferIpv6 =
     filter (\<lambda>a. \<not> is_ipv4 (fst a)) addresses @ filter (\<lambda>a. is_ipv4 (fst a)) addresses
   \<and> order addresses System = addresses"
  by (simp_all add: order_def sort_key_bool)

end
