(* ===== verification/Settings.thy ===== *)
theory Settings
  imports Config
begin

text \<open>
  \<open>src/proxy/src/settings.rs\<close>: the settings a page may change, the WebP quality each asks for, and
  the store that keeps them. The JSON codec of \<open>serde_json\<close> is a parameter (\<open>enc\<close>, \<open>dec\<close>); the
  file is the content of its path, and a write that fails leaves it as it was, since it is made
  beside and renamed.
\<close>

datatype quality = Auto | High | Low | Off | NoImages

datatype injection = On | InjectionOff

record settings =
  image_quality :: quality
  injection :: injection

definition default_settings :: settings where
  "default_settings = \<lparr>image_quality = Auto, injection = On\<rparr>"

fun applied_to :: "quality \<Rightarrow> nat \<Rightarrow> nat option" where
  \<comment> \<open>\<open>u8\<close>: additions saturate at 255, subtractions at 0\<close>
  "applied_to Auto configured = Some configured"
| "applied_to High configured = Some (min (min (configured + 12) u8_max) 95)"
| "applied_to Low configured = Some (max (configured - 35) 20)"
| "applied_to Off configured = None"
| "applied_to NoImages configured = None"

datatype stored = Missing | Unreadable | Content bytes

record store =
  held :: settings
  backing :: stored

definition load :: "(bytes \<Rightarrow> settings option) \<Rightarrow> stored \<Rightarrow> store" where
  "load dec f =
     \<lparr>held = (case f of
                Content b \<Rightarrow> (case dec b of Some s \<Rightarrow> s | None \<Rightarrow> default_settings)
              | Missing \<Rightarrow> default_settings
              | Unreadable \<Rightarrow> default_settings),
      backing = f\<rparr>"

definition get :: "store \<Rightarrow> settings" where
  "get st = held st"

definition persist :: "(settings \<Rightarrow> bytes option) \<Rightarrow> bool \<Rightarrow> settings \<Rightarrow> stored \<Rightarrow> stored" where
  \<comment> \<open>\<open>written\<close>: whether creating, writing, syncing and renaming all succeeded\<close>
  "persist enc written s f =
     (case enc s of None \<Rightarrow> f | Some json \<Rightarrow> if written then Content json else f)"

definition set_settings :: "(settings \<Rightarrow> bytes option) \<Rightarrow> bool \<Rightarrow> settings \<Rightarrow> store \<Rightarrow> store" where
  "set_settings enc written s st =
     (if held st = s then st
      else st\<lparr>held := s, backing := persist enc written s (backing st)\<rparr>)"

section \<open>What reading back and restarting give\<close>

definition in_sync :: "(bytes \<Rightarrow> settings option) \<Rightarrow> store \<Rightarrow> bool" where
  \<comment> \<open>a restart would come up with what is held now\<close>
  "in_sync dec st \<longleftrightarrow> held (load dec (backing st)) = held st"

lemma get_set [simp]: "get (set_settings enc written s st) = s"
  by (simp add: get_def set_settings_def)

lemma in_sync_set:
  assumes "\<And>s. \<exists>b. enc s = Some b \<and> dec b = Some s" and "in_sync dec st"
  shows "in_sync dec (set_settings enc True s st)"
proof -
  obtain b where "enc s = Some b" "dec b = Some s" using assms(1) by blast
  with assms(2) show ?thesis by (simp add: in_sync_def set_settings_def persist_def load_def)
qed

lemma fold_set:
  assumes "\<And>s. \<exists>b. enc s = Some b \<and> dec b = Some s" and "in_sync dec st"
  shows "in_sync dec (fold (set_settings enc True) ss st)"
    and "get (fold (set_settings enc True) ss st) = last (get st # ss)"
  using assms(2) in_sync_set [OF assms(1)] by (induction ss arbitrary: st) auto

text \<open>
  Settings survive a restart. Whatever is set, in whatever order, while the writes succeed,
  the store read back from its file holds the last value; the only thing assumed of the JSON
  codec is that it decodes what it encoded.
\<close>

theorem settings_survive_restart:
  assumes codec: "\<And>s. \<exists>b. enc s = Some b \<and> dec b = Some s"
    and "ss \<noteq> []"
  shows "get (load dec (backing (fold (set_settings enc True) ss (load dec f)))) = last ss"
proof -
  have "in_sync dec (load dec f)" by (simp add: in_sync_def load_def)
  from fold_set [OF codec this] \<open>ss \<noteq> []\<close> show ?thesis by (simp add: in_sync_def get_def)
qed

text \<open>A codec, for the witness: one byte per tier and one for the injection switch.\<close>

fun tier_byte :: "quality \<Rightarrow> u8" where
  "tier_byte Auto = 0" | "tier_byte High = 1" | "tier_byte Low = 2" | "tier_byte Off = 3"
| "tier_byte NoImages = 4"

definition byte_tier :: "u8 \<Rightarrow> quality" where
  "byte_tier b = (if b = 0 then Auto else if b = 1 then High else if b = 2 then Low
     else if b = 3 then Off else NoImages)"

definition small_enc :: "settings \<Rightarrow> bytes option" where
  "small_enc s = Some [tier_byte (image_quality s), if injection s = On then 1 else 0]"

definition small_dec :: "bytes \<Rightarrow> settings option" where
  "small_dec b = (case b of [q, i] \<Rightarrow> Some \<lparr>image_quality = byte_tier q,
     injection = (if i = 1 then On else InjectionOff)\<rparr> | _ \<Rightarrow> None)"

lemma small_codec: "\<exists>b. small_enc s = Some b \<and> small_dec b = Some s"
  by (cases s; cases "image_quality s"; cases "injection s")
    (simp_all add: small_enc_def small_dec_def byte_tier_def)

theorem settings_survive_restart_witness:
  "get (load small_dec (backing (fold (set_settings small_enc True)
     [default_settings\<lparr>image_quality := Low\<rparr>, default_settings\<lparr>injection := InjectionOff\<rparr>]
     (load small_dec Missing)))) = default_settings\<lparr>injection := InjectionOff\<rparr>"
  using settings_survive_restart [OF small_codec,
      of "[default_settings\<lparr>image_quality := Low\<rparr>, default_settings\<lparr>injection := InjectionOff\<rparr>]" Missing]
  by simp

text \<open>
  What the panel's tiers ask for stays a WebP quality, and is ordered the way their names say
  as long as the configured quality lies between 20 and 95. Outside that range the caps cross
  (\<open>tiers_cross\<close>): \<open>High\<close> is worse than a configured 100 and \<open>Low\<close> better than a configured 10.
\<close>

theorem tiers_ordered:
  assumes "20 \<le> configured" and "configured \<le> 95"
  shows "\<exists>lo hi. applied_to Low configured = Some lo \<and> applied_to High configured = Some hi
       \<and> lo \<le> configured \<and> configured \<le> hi \<and> 20 \<le> lo \<and> hi \<le> 95"
  using assms by (auto simp: u8_max_def)

theorem tiers_ordered_witness:
  "\<exists>lo hi. applied_to Low 80 = Some lo \<and> applied_to High 80 = Some hi
     \<and> lo \<le> 80 \<and> 80 \<le> hi \<and> 20 \<le> lo \<and> hi \<le> 95"
  by (rule tiers_ordered) simp_all

lemma tiers_cross: "applied_to High 100 = Some 95" "applied_to Low 10 = Some 20"
  by (simp_all add: u8_max_def)

end
