(* ===== verification/Insecure.thy ===== *)
theory Insecure
  imports Config
begin

text \<open>
  \<open>src/proxy/src/insecure.rs\<close>: the registry of hosts whose certificate is not checked, and the
  single-use tokens that let a warning page add to it. The two mutex-guarded maps are the fields
  of a record; \<open>Instant::now()\<close> is an argument counting nanoseconds, and so is the result of the
  random source. The TLS client itself (\<open>Unverified\<close>) is BoringSSL and not modelled.
\<close>

section \<open>Model\<close>

definition second :: nat where
  "second = 1000000000"

definition OFFER_TTL :: nat where
  "OFFER_TTL = 600 * second"

record bypasses =
  hosts :: "str \<rightharpoonup> nat"
  offered :: "str \<rightharpoonup> str \<times> nat"

definition default_bypasses :: bypasses where
  "default_bypasses = \<lparr>hosts = Map.empty, offered = Map.empty\<rparr>"

definition key :: "str \<Rightarrow> str" where
  "key host = to_lower (trim_end_matches dot host)"

definition token :: "bytes option \<Rightarrow> str" where
  \<comment> \<open>over the 32 bytes of \<open>rand_bytes\<close>, or its failure\<close>
  "token rand = (case rand of None \<Rightarrow> [] | Some bs \<Rightarrow> hex bs)"

definition same :: "bytes \<Rightarrow> bytes \<Rightarrow> bool" where
  "same expected given =
     (if expected = [] \<or> length expected \<noteq> length given then False
      else fold (\<lambda>(a, b) differences. or differences (xor a b)) (zip expected given) 0 = 0)"

definition allow :: "str \<Rightarrow> nat \<Rightarrow> nat \<Rightarrow> bypasses \<Rightarrow> bypasses" where
  "allow host ttl now b = b\<lparr>hosts := (hosts b)(key host \<mapsto> now + ttl)\<rparr>"

definition allows :: "str \<Rightarrow> nat \<Rightarrow> bypasses \<Rightarrow> bool \<times> bypasses" where
  "allows host now b =
     (let hs = retain (\<lambda>_ expiry. expiry > now) (hosts b)
      in (hs (key host) \<noteq> None, b\<lparr>hosts := hs\<rparr>))"

definition offer :: "str \<Rightarrow> bytes option \<Rightarrow> nat \<Rightarrow> bypasses \<Rightarrow> str \<times> bypasses" where
  "offer host rand now b =
     (let tok = token rand;
          off = retain (\<lambda>_ (_, expiry). expiry > now) (offered b)
      in (tok, b\<lparr>offered := off(key host \<mapsto> (tok, now + OFFER_TTL))\<rparr>))"

definition redeem :: "str \<Rightarrow> str \<Rightarrow> nat \<Rightarrow> nat \<Rightarrow> nat \<Rightarrow> bypasses \<Rightarrow> bool \<times> bypasses" where
  \<comment> \<open>\<open>later\<close> is the second reading of the clock, inside \<open>allow\<close>\<close>
  "redeem host tok ttl now later b =
     (let host = key host;
          off = retain (\<lambda>_ (_, expiry). expiry > now) (offered b)
      in case off host of
           None \<Rightarrow> (False, b\<lparr>offered := off\<rparr>)
         | Some (expected, _) \<Rightarrow>
             if \<not> same (as_bytes expected) (as_bytes tok) then (False, b\<lparr>offered := off\<rparr>)
             else (True, allow host ttl later (b\<lparr>offered := off(host := None)\<rparr>)))"

section \<open>Comparing tokens\<close>

lemma fold_differences_mono:
  fixes acc :: u8
  assumes "fold (\<lambda>(a, b) d. or d (xor a b)) ps acc = 0"
  shows "acc = 0"
  using assms
proof (induction ps arbitrary: acc)
  case (Cons p ps)
  then have "or acc (xor (fst p) (snd p)) = 0" by (auto simp: case_prod_unfold)
  then show ?case by (simp add: or_eq_0_iff)
qed simp

lemma same_iff: "same e g \<longleftrightarrow> e \<noteq> [] \<and> e = g"
proof -
  have "fold (\<lambda>(a, b) d. or d (xor a b)) (zip e g) (0::u8) = 0 \<longleftrightarrow> e = g" if "length e = length g"
    using that
  proof (induction e g rule: list_induct2)
    case (Cons a e b g)
    show ?case
    proof (cases "a = b")
      case True
      with Cons show ?thesis by simp
    next
      case False
      then have "xor a b \<noteq> 0" by (metis xor.assoc xor.left_neutral xor.right_neutral xor_self_eq)
      with False fold_differences_mono [of "zip e g" "xor a b"] show ?thesis by auto
    qed
  qed simp
  then show ?thesis by (auto simp: same_def)
qed

lemma same_as_bytes: "same (as_bytes a) (as_bytes b) \<longleftrightarrow> a \<noteq> [] \<and> a = b"
  by (simp add: same_iff as_bytes_inj)

lemma key_idem [simp]: "key (key h) = key h"
  by (simp add: key_def trim_end_matches_lower)

lemma redeem_True_iff:
  "fst (redeem host tok ttl now later b) \<longleftrightarrow>
     tok \<noteq> [] \<and> (\<exists>e. offered b (key host) = Some (tok, e) \<and> now < e)"
  by (auto simp: redeem_def Let_def same_as_bytes retain_None retain_Some split: option.splits)

lemma redeem_hosts:
  "hosts (snd (redeem host tok ttl now later b)) =
     (if fst (redeem host tok ttl now later b) then (hosts b)(key host \<mapsto> later + ttl) else hosts b)"
  by (auto simp: redeem_def Let_def allow_def split: option.splits)

lemma redeem_offered:
  "offered (snd (redeem host tok ttl now later b)) k = Some v \<Longrightarrow>
     offered b k = Some v \<and> (fst (redeem host tok ttl now later b) \<longrightarrow> k \<noteq> key host)"
proof -
  define off where "off = retain (\<lambda>_ (_, expiry). expiry > now) (offered b)"
  have off: "off k' = Some w \<Longrightarrow> offered b k' = Some w" for k' w by (simp add: off_def retain_Some)
  assume "offered (snd (redeem host tok ttl now later b)) k = Some v"
  then show ?thesis
    by (auto simp: redeem_def Let_def allow_def off_def [symmetric] dest: off
        split: option.splits if_splits)
qed

section \<open>Runs of the registry\<close>

datatype event =
    Offered str str nat
  | Redeemed str str nat nat nat
  | Refused str
  | Asked str

inductive bypass_run :: "event list \<Rightarrow> nat \<Rightarrow> bypasses \<Rightarrow> bool" where
  \<comment> \<open>the history, newest first, the clock and the state: the operations the rest of the proxy
    calls, in any order, at moments that never go back\<close>
  start: "bypass_run [] t default_bypasses"
| offers: "bypass_run h t b \<Longrightarrow> t \<le> now \<Longrightarrow> offer host rand now b = (tok, b') \<Longrightarrow>
     bypass_run (Offered (key host) tok now # h) now b'"
| redeems: "bypass_run h t b \<Longrightarrow> t \<le> now \<Longrightarrow> now \<le> later \<Longrightarrow>
     redeem host tok ttl now later b = (True, b') \<Longrightarrow>
     bypass_run (Redeemed (key host) tok now later ttl # h) later b'"
| refuses: "bypass_run h t b \<Longrightarrow> t \<le> now \<Longrightarrow> redeem host tok ttl now later b = (False, b') \<Longrightarrow>
     bypass_run (Refused (key host) # h) now b'"
| asks: "bypass_run h t b \<Longrightarrow> t \<le> now \<Longrightarrow> allows host now b = (ok, b') \<Longrightarrow>
     bypass_run (Asked (key host) # h) now b'"

fun concerns :: "str \<Rightarrow> event \<Rightarrow> bool" where
  \<comment> \<open>the events that replace or spend the token of a host\<close>
  "concerns k (Offered k' _ _) \<longleftrightarrow> k = k'"
| "concerns k (Redeemed k' _ _ _ _) \<longleftrightarrow> k = k'"
| "concerns k _ \<longleftrightarrow> False"

definition pending :: "event list \<Rightarrow> str \<Rightarrow> str \<Rightarrow> nat \<Rightarrow> bool" where
  \<comment> \<open>the last thing that happened to the host's token is that it was offered, at \<open>t\<^sub>0\<close>\<close>
  "pending h k tok t0 \<longleftrightarrow>
     (\<exists>newer older. h = newer @ Offered k tok t0 # older \<and> (\<forall>e\<in>set newer. \<not> concerns k e))"

definition earned :: "event list \<Rightarrow> str \<Rightarrow> nat \<Rightarrow> bool" where
  \<comment> \<open>a bypass until \<open>expiry\<close> goes back to a redeemed token that was pending and in time\<close>
  "earned h k expiry \<longleftrightarrow>
     (\<exists>newer older tok now later ttl t0.
        h = newer @ Redeemed k tok now later ttl # older \<and> expiry = later + ttl
        \<and> tok \<noteq> [] \<and> pending older k tok t0 \<and> now < t0 + OFFER_TTL)"

definition bypass_inv :: "event list \<Rightarrow> bypasses \<Rightarrow> bool" where
  "bypass_inv h b \<longleftrightarrow>
     (\<forall>k tok e. offered b k = Some (tok, e) \<longrightarrow> (\<exists>t0. pending h k tok t0 \<and> e = t0 + OFFER_TTL))
     \<and> (\<forall>k e. hosts b k = Some e \<longrightarrow> earned h k e)"

lemma pending_Cons: "\<not> concerns k ev \<Longrightarrow> pending h k tok t0 \<Longrightarrow> pending (ev # h) k tok t0"
  unfolding pending_def by (metis append_Cons set_ConsD)

lemma pending_now: "pending (Offered k tok t0 # h) k tok t0"
  by (fastforce simp: pending_def)

lemma earned_Cons: "earned h k e \<Longrightarrow> earned (ev # h) k e"
  unfolding earned_def by (metis append_Cons)

lemma earned_now:
  "tok \<noteq> [] \<Longrightarrow> pending h k tok t0 \<Longrightarrow> now < t0 + OFFER_TTL \<Longrightarrow>
   earned (Redeemed k tok now later ttl # h) k (later + ttl)"
  unfolding earned_def by (metis append_Nil)

lemma bypass_inv_frame:
  assumes "bypass_inv h b" and "\<And>k. \<not> concerns k ev"
    and "\<And>k v. offered b' k = Some v \<Longrightarrow> offered b k = Some v"
    and "\<And>k e. hosts b' k = Some e \<Longrightarrow> hosts b k = Some e"
  shows "bypass_inv (ev # h) b'"
  unfolding bypass_inv_def
proof (intro conjI allI impI)
  fix k tok e
  assume "offered b' k = Some (tok, e)"
  then obtain t0 where "pending h k tok t0" "e = t0 + OFFER_TTL"
    using assms(1,3) unfolding bypass_inv_def by blast
  with assms(2) show "\<exists>t0. pending (ev # h) k tok t0 \<and> e = t0 + OFFER_TTL"
    using pending_Cons by blast
next
  fix k e
  assume "hosts b' k = Some e"
  with assms(1,4) show "earned (ev # h) k e" unfolding bypass_inv_def using earned_Cons by blast
qed

lemma bypass_inv_run: "bypass_run h t b \<Longrightarrow> bypass_inv h b"
proof (induction rule: bypass_run.induct)
  case (start t)
  show ?case by (simp add: bypass_inv_def default_bypasses_def)
next
  case (offers h t b now host rand tok b')
  let ?ev = "Offered (key host) tok now"
  have b': "b' = b\<lparr>offered := (retain (\<lambda>_ (_, expiry). expiry > now) (offered b))
      (key host \<mapsto> (tok, now + OFFER_TTL))\<rparr>"
    using offers by (auto simp: offer_def Let_def)
  have "\<exists>t0. pending (?ev # h) k tk t0 \<and> x = t0 + OFFER_TTL" if "offered b' k = Some (tk, x)" for k tk x
  proof (cases "k = key host")
    case True
    with that show ?thesis using pending_now by (auto simp: b')
  next
    case False
    with that have "offered b k = Some (tk, x)" by (simp add: b' retain_Some)
    with offers.IH obtain t0 where "pending h k tk t0" "x = t0 + OFFER_TTL"
      unfolding bypass_inv_def by blast
    moreover have "\<not> concerns k ?ev" using False by simp
    ultimately show ?thesis using pending_Cons by blast
  qed
  moreover have "earned (?ev # h) k x" if "hosts b' k = Some x" for k x
    using that offers.IH by (auto simp: b' bypass_inv_def intro: earned_Cons)
  ultimately show ?case by (simp add: bypass_inv_def)
next
  case (redeems h t b now later host tok ttl b')
  let ?ev = "Redeemed (key host) tok now later ttl"
  have b': "b' = snd (redeem host tok ttl now later b)" and ok: "fst (redeem host tok ttl now later b)"
    using redeems by simp_all
  then obtain e where e: "tok \<noteq> []" "offered b (key host) = Some (tok, e)" "now < e"
    using redeem_True_iff by blast
  with redeems.IH obtain t0 where t0: "pending h (key host) tok t0" "e = t0 + OFFER_TTL"
    unfolding bypass_inv_def by blast
  have "earned (?ev # h) k x" if "hosts b' k = Some x" for k x
    using that redeems.IH e t0 ok redeem_hosts [of host tok ttl now later b]
    by (auto simp: b' bypass_inv_def intro: earned_now earned_Cons split: if_splits)
  moreover have "\<exists>t0. pending (?ev # h) k tk t0 \<and> x = t0 + OFFER_TTL"
    if "offered b' k = Some (tk, x)" for k tk x
  proof -
    have "offered b k = Some (tk, x)" "\<not> concerns k ?ev"
      using redeem_offered [of host tok ttl now later b k] that b' ok by auto
    with redeems.IH show ?thesis unfolding bypass_inv_def using pending_Cons by metis
  qed
  ultimately show ?case by (simp add: bypass_inv_def)
next
  case (refuses h t b now host tok ttl later b')
  then have b': "b' = snd (redeem host tok ttl now later b)" "\<not> fst (redeem host tok ttl now later b)"
    by simp_all
  then show ?case
    using redeem_hosts [of host tok ttl now later b] redeem_offered [of host tok ttl now later b]
    by (intro bypass_inv_frame [OF refuses.IH]) simp_all
next
  case (asks h t b now host ok b')
  then have b': "b' = b\<lparr>hosts := retain (\<lambda>_ expiry. expiry > now) (hosts b)\<rparr>"
    by (auto simp: allows_def Let_def)
  show ?case
    by (rule bypass_inv_frame [OF asks.IH]) (simp_all add: b' retain_Some)
qed

text \<open>
  C5: certificate verification is only ever off for a host somebody typed the phrase for. Whatever
  the other threads offered, redeemed or asked, a host that is waved through at \<open>now\<close> was waved
  through by a redemption for that very host, which has not expired, with a token that was not
  empty, was offered on that host's own warning page less than ten minutes before, and had
  neither been spent nor replaced since.
\<close>

theorem bypass_was_earned:
  assumes "bypass_run h t b" and "fst (allows host now b)"
  shows "\<exists>expiry. now < expiry \<and> earned h (key host) expiry"
proof -
  from assms(2) obtain e where "hosts b (key host) = Some e" "now < e"
    by (auto simp: allows_def Let_def retain_Some)
  with bypass_inv_run [OF assms(1)] show ?thesis by (auto simp: bypass_inv_def)
qed

lemma key_example: "key ''A.b.'' = ''a.b''" "key ''a.b'' = ''a.b''"
  by code_simp+

lemma token_example: "token (Some [1]) = ''01''"
  by code_simp

lemma run_example:
  "bypass_run [Redeemed ''a.b'' ''01'' 20 21 100, Offered ''a.b'' ''01'' 10] 21
     \<lparr>hosts = [''a.b'' \<mapsto> 121], offered = Map.empty\<rparr>"
proof -
  note k = key_example
  have "offer ''A.b.'' (Some [1]) 10 default_bypasses =
      (''01'', \<lparr>hosts = Map.empty, offered = [''a.b'' \<mapsto> (''01'', 10 + OFFER_TTL)]\<rparr>)"
    by (simp add: offer_def k token_example default_bypasses_def Let_def)
  from bypass_run.offers [OF bypass_run.start _ this, of 0]
  have 1: "bypass_run [Offered ''a.b'' ''01'' 10] 10
      \<lparr>hosts = Map.empty, offered = [''a.b'' \<mapsto> (''01'', 10 + OFFER_TTL)]\<rparr>" by (simp add: k)
  have "redeem ''a.b'' ''01'' 100 20 21 \<lparr>hosts = Map.empty, offered = [''a.b'' \<mapsto> (''01'', 10 + OFFER_TTL)]\<rparr>
      = (True, \<lparr>hosts = [''a.b'' \<mapsto> 121], offered = Map.empty\<rparr>)"
    by (auto simp: redeem_def k allow_def same_as_bytes retain_def OFFER_TTL_def second_def fun_eq_iff Let_def)
  from bypass_run.redeems [OF 1 _ _ this] show ?thesis by (simp add: k)
qed

theorem bypass_was_earned_witness:
  "\<exists>expiry. 100 < expiry
     \<and> earned [Redeemed ''a.b'' ''01'' 20 21 100, Offered ''a.b'' ''01'' 10] (key ''a.b'') expiry"
  by (rule bypass_was_earned [OF run_example]) (simp add: allows_def key_example retain_def)

text \<open>
  A token works once. After a redemption that succeeded, the same token is refused for that
  host at any later moment, until a new one is offered.
\<close>

theorem token_spent:
  assumes "redeem host tok ttl now later b = (True, b')"
  shows "fst (redeem host tok' ttl' now' later' b') = False"
proof -
  have "offered b' (key host) = None"
    using assms redeem_offered [of host tok ttl now later b "key host"]
    by (metis fst_conv not_None_eq snd_conv)
  then show ?thesis by (simp add: redeem_True_iff)
qed

theorem token_spent_witness:
  "let b = \<lparr>hosts = Map.empty, offered = [''a.b'' \<mapsto> (''01'', 1000)]\<rparr>
   in fst (redeem ''a.b'' ''01'' 100 30 31 (snd (redeem ''a.b'' ''01'' 100 20 21 b))) = False"
  unfolding Let_def
  by (rule token_spent [of _ "''01''" 100 20 21 "\<lparr>hosts = Map.empty, offered = [''a.b'' \<mapsto> (''01'', 1000)]\<rparr>"])
    (simp add: redeem_def key_example same_as_bytes retain_def Let_def)

end
