(* ===== verification/Disk.thy ===== *)
theory Disk
  imports Config "HOL-Library.Multiset"
begin

text \<open>
  \<open>src/proxy/src/disk.rs\<close>: the sweep that brings a cache directory back under its budget, the
  removal of everything in it, and the replacement of a file that no reader may see half done.
  The sweep is a function of the directory listing and of which removals the file system grants.
  \<open>replace\<close> is modelled one system call at a time over names and inodes, with any number of
  threads and processes interleaved.
\<close>

section \<open>Sweeping\<close>

record dirent =
  d_path :: str
  d_meta :: "(nat option \<times> nat option \<times> nat) option"
    \<comment> \<open>accessed, modified and length, if the metadata could be read\<close>

type_synonym swept_file = "nat \<times> nat \<times> str"
  \<comment> \<open>last use, size, path\<close>

definition sweep_candidate :: "dirent option \<Rightarrow> swept_file option" where
  "sweep_candidate e =
     (case e of
        None \<Rightarrow> None
      | Some entry \<Rightarrow>
          (case d_meta entry of
             None \<Rightarrow> None
           | Some (accessed, modified, bytes_long) \<Rightarrow>
               (case accessed of
                  Some used \<Rightarrow> Some (used, bytes_long, d_path entry)
                | None \<Rightarrow> (case modified of Some used \<Rightarrow> Some (used, bytes_long, d_path entry) | None \<Rightarrow> None))))"

definition file_used :: "swept_file \<Rightarrow> nat" where "file_used = fst"
definition file_size :: "swept_file \<Rightarrow> nat" where "file_size f = fst (snd f)"
definition file_path :: "swept_file \<Rightarrow> str" where "file_path f = snd (snd f)"

definition total_size :: "swept_file list \<Rightarrow> nat" where
  "total_size fs = sum_list (map file_size fs)"

fun sweep_loop :: "nat \<Rightarrow> nat \<Rightarrow> (str \<Rightarrow> bool) \<Rightarrow> nat \<Rightarrow> swept_file list \<Rightarrow> swept_file list \<times> nat" where
  \<comment> \<open>the files removed and the bytes freed; \<open>can\<close> is which \<open>remove_file\<close> calls succeed\<close>
  "sweep_loop whole budget can freed [] = ([], freed)"
| "sweep_loop whole budget can freed (f # fs) =
     (if whole - freed \<le> budget then ([], freed)
      else if can (file_path f) then
        (let (removed, freed') = sweep_loop whole budget can (freed + file_size f) fs
         in (f # removed, freed'))
      else sweep_loop whole budget can freed fs)"

definition sweep :: "(str \<Rightarrow> bool) \<Rightarrow> nat \<Rightarrow> dirent option list option \<Rightarrow> swept_file list \<times> nat" where
  \<comment> \<open>over the result of \<open>read_dir\<close>, each entry itself possibly an error\<close>
  "sweep can budget entries =
     (case entries of
        None \<Rightarrow> ([], 0)
      | Some es \<Rightarrow>
          (let files = List.map_filter sweep_candidate es; whole = total_size files
           in if whole \<le> budget then ([], 0)
              else sweep_loop whole budget can 0 (sort_key file_used files)))"

definition empty_dir :: "(str \<Rightarrow> bool) \<Rightarrow> dirent option list option \<Rightarrow> nat" where
  "empty_dir can entries =
     (case entries of
        None \<Rightarrow> 0
      | Some es \<Rightarrow> length (filter (\<lambda>e. can (d_path e)) (List.map_filter id es)))"

definition removable :: "(str \<Rightarrow> bool) \<Rightarrow> swept_file list \<Rightarrow> swept_file list" where
  "removable can fs = filter (\<lambda>f. can (file_path f)) fs"

lemma removable_simps [simp]:
  "removable can [] = []"
  "removable can (f # fs) = (if can (file_path f) then f # removable can fs else removable can fs)"
  by (simp_all add: removable_def)

lemma total_size_simps [simp]:
  "total_size [] = 0" "total_size (f # fs) = file_size f + total_size fs"
  by (simp_all add: total_size_def)

lemma sweep_loop_prefix:
  "\<exists>n \<le> length fs. sweep_loop whole budget can freed fs =
     (removable can (take n fs), freed + total_size (removable can (take n fs)))
     \<and> (n = length fs \<or> whole - (freed + total_size (removable can (take n fs))) \<le> budget)
     \<and> (\<forall>m<n. budget < whole - (freed + total_size (removable can (take m fs))))"
proof (induction fs arbitrary: freed)
  case Nil
  then show ?case by simp
next
  case (Cons f fs)
  show ?case
  proof (cases "whole - freed \<le> budget")
    case True
    then show ?thesis by (intro exI [of _ 0]) simp
  next
    case big: False
    let ?freed = "if can (file_path f) then freed + file_size f else freed"
    from Cons.IH [of ?freed] obtain n where n: "n \<le> length fs"
      "sweep_loop whole budget can ?freed fs =
        (removable can (take n fs), ?freed + total_size (removable can (take n fs)))"
      "n = length fs \<or> whole - (?freed + total_size (removable can (take n fs))) \<le> budget"
      "\<forall>m<n. budget < whole - (?freed + total_size (removable can (take m fs)))"
      by blast
    have "\<forall>m<Suc n. budget < whole - (freed + total_size (removable can (take m (f # fs))))"
    proof (intro allI impI)
      fix m assume "m < Suc n"
      then show "budget < whole - (freed + total_size (removable can (take m (f # fs))))"
        using n(4) big by (cases m) (auto simp: add.assoc split: if_splits)
    qed
    with n big show ?thesis
      by (intro exI [of _ "Suc n"]) (auto simp: add.assoc split: if_splits)
  qed
qed

text \<open>
  A sweep deletes the least recently used files, as few as it takes. What it removes is what
  it could remove of a shortest prefix of the listing sorted by last use; afterwards the
  directory fits its budget or nothing removable is left; a directory that fits is not touched.
\<close>

theorem sweep_lru:
  assumes "files = List.map_filter sweep_candidate es"
    and "sorted_files = sort_key file_used files"
    and "sweep can budget (Some es) = (removed, freed)"
  shows "\<exists>n \<le> length files. removed = removable can (take n sorted_files)
     \<and> freed = total_size removed
     \<and> (total_size files - freed \<le> budget \<or> removed = removable can sorted_files)
     \<and> (\<forall>m<n. budget < total_size files - total_size (removable can (take m sorted_files)))"
proof (cases "total_size files \<le> budget")
  case True
  with assms show ?thesis by (intro exI [of _ 0]) (simp add: sweep_def)
next
  case False
  from sweep_loop_prefix [where whole = "total_size files" and budget = budget and can = can and freed = 0
      and fs = sorted_files]
  obtain n where "n \<le> length sorted_files"
      "sweep_loop (total_size files) budget can 0 sorted_files =
        (removable can (take n sorted_files), total_size (removable can (take n sorted_files)))"
      "n = length sorted_files \<or>
        total_size files - total_size (removable can (take n sorted_files)) \<le> budget"
      "\<forall>m<n. budget < total_size files - total_size (removable can (take m sorted_files))"
    by auto
  with False assms show ?thesis by (intro exI [of _ n]) (auto simp: sweep_def Let_def)
qed

definition entry :: "str \<Rightarrow> nat \<Rightarrow> nat \<Rightarrow> dirent option" where
  "entry p used n = Some \<lparr>d_path = p, d_meta = Some (Some used, None, n)\<rparr>"

theorem sweep_lru_witness:
  "\<exists>n \<le> length (List.map_filter sweep_candidate [entry ''a'' 3 10, entry ''b'' 1 10, entry ''c'' 2 10]).
     [(1::nat, 10::nat, ''b'')] = removable (\<lambda>_. True)
       (take n (sort_key file_used (List.map_filter sweep_candidate [entry ''a'' 3 10, entry ''b'' 1 10, entry ''c'' 2 10])))"
proof -
  have "sweep (\<lambda>_. True) 20 (Some [entry ''a'' 3 10, entry ''b'' 1 10, entry ''c'' 2 10]) = ([(1, 10, ''b'')], 10)"
    by code_simp
  from sweep_lru [OF refl refl this] show ?thesis by blast
qed

section \<open>Names of temporaries\<close>

definition with_extension :: "str \<Rightarrow> str \<Rightarrow> str" where
  \<comment> \<open>\<open>Path::with_extension\<close> on the last component: what follows its last dot is replaced, a
    leading dot being part of the name\<close>
  "with_extension path ext =
     (let file = rev (takeWhile (\<lambda>c. c \<noteq> CHR ''/'') (rev path));
          dir = take (length path - length file) path;
          after = takeWhile (\<lambda>c. c \<noteq> dot) (rev file);
          stem = (if length file \<le> length after + 1 then file
                  else take (length file - length after - 1) file)
      in dir @ stem @ [dot] @ ext)"

definition temporary :: "nat \<Rightarrow> nat \<Rightarrow> str \<Rightarrow> str" where
  "temporary pid cnt path = with_extension path (''tmp'' @ show_nat pid @ [dot] @ show_nat cnt)"

definition temp_like :: "str \<Rightarrow> bool" where
  "temp_like p \<longleftrightarrow> (\<exists>x pid cnt. p = x @ ''.tmp'' @ show_nat pid @ [dot] @ show_nat cnt)"

lemma takeWhile_stop: "(\<And>c. c \<in> set m \<Longrightarrow> p c) \<Longrightarrow> \<not> p a \<Longrightarrow> takeWhile p (rev m @ a # r) = rev m"
  by (subst takeWhile_append2) auto

lemma digit_suffix_eq:
  assumes "x @ a # m = y @ b # n" and "\<not> is_digit a" and "\<not> is_digit b"
    and "\<And>c. c \<in> set m \<Longrightarrow> is_digit c" and "\<And>c. c \<in> set n \<Longrightarrow> is_digit c"
  shows "m = n \<and> x = y"
proof -
  have eq: "rev m @ a # rev x = rev n @ b # rev y"
    using arg_cong [OF assms(1), of rev] by simp
  have t: "takeWhile is_digit (rev m @ a # rev x) = rev m" "takeWhile is_digit (rev n @ b # rev y) = rev n"
    by (rule takeWhile_stop; fact assms)+
  with eq have "rev m = rev n" by metis
  with assms(1) show ?thesis by simp
qed

lemma with_extension_form: "\<exists>x. with_extension path ext = x @ [dot] @ ext"
  unfolding with_extension_def Let_def by (metis append.assoc)

lemma temporary_form: "\<exists>x. temporary pid cnt path = x @ ''.tmp'' @ show_nat pid @ [dot] @ show_nat cnt"
proof -
  obtain x where "with_extension path (''tmp'' @ show_nat pid @ [dot] @ show_nat cnt)
      = x @ [dot] @ ''tmp'' @ show_nat pid @ [dot] @ show_nat cnt"
    using with_extension_form by blast
  then show ?thesis by (simp add: temporary_def)
qed

lemma temporary_temp_like: "temp_like (temporary pid cnt path)"
  unfolding temp_like_def using temporary_form by blast

lemma temporary_inj:
  assumes "temporary pid cnt path = temporary pid' cnt' path'"
  shows "pid = pid' \<and> cnt = cnt'"
proof -
  obtain x y where x: "temporary pid cnt path = x @ ''.tmp'' @ show_nat pid @ [dot] @ show_nat cnt"
    and y: "temporary pid' cnt' path' = y @ ''.tmp'' @ show_nat pid' @ [dot] @ show_nat cnt'"
    using temporary_form by blast
  have nd: "\<not> is_digit dot" "\<not> is_digit CHR ''p''" by (simp_all add: is_digit_def)
  have "(x @ ''.tmp'' @ show_nat pid) @ dot # show_nat cnt = (y @ ''.tmp'' @ show_nat pid') @ dot # show_nat cnt'"
    using assms x y by simp
  from digit_suffix_eq [OF this nd(1) nd(1)]
  have 1: "show_nat cnt = show_nat cnt'" "x @ ''.tmp'' @ show_nat pid = y @ ''.tmp'' @ show_nat pid'"
    using show_nat_digits by auto
  then have "(x @ ''.tm'') @ CHR ''p'' # show_nat pid = (y @ ''.tm'') @ CHR ''p'' # show_nat pid'" by simp
  from digit_suffix_eq [OF this nd(2) nd(2)] have "show_nat pid = show_nat pid'"
    using show_nat_digits by auto
  with 1 show ?thesis by (auto dest: show_nat_inj)
qed

section \<open>Replacing a file\<close>

text \<open>
  A name maps to an inode, an inode to its bytes. \<open>fs::write\<close> opens the temporary (truncating the
  inode an existing name has), then writes piece by piece; \<open>rename\<close> moves the name and leaves the
  inode; any process may unlink any name at any moment, as the sweep does. A process that dies
  loses its threads and its \<open>WRITES\<close> counter but not its files. The counter is a natural number:
  its wrap-around after \<open>2 ^ 64\<close> writes is not modelled.
\<close>

datatype write_pc = Opening | Writing nat bytes

record writer =
  w_pid :: nat
  w_cnt :: nat
  w_target :: str
  w_content :: bytes
  w_pc :: write_pc

record vfs =
  names :: "str \<rightharpoonup> nat"
  inode :: "nat \<Rightarrow> bytes"
  unused :: nat
  writes :: "nat \<Rightarrow> nat"
  writers :: "nat \<rightharpoonup> writer"
  asked :: "(str \<times> bytes) set"
    \<comment> \<open>what \<open>replace\<close> was asked to put where, and what was there at the start\<close>

definition temporary_of :: "writer \<Rightarrow> str" where
  "temporary_of w = temporary (w_pid w) (w_cnt w) (w_target w)"

inductive replace_step :: "vfs \<Rightarrow> vfs \<Rightarrow> bool" where
  call: "writers s i = None \<Longrightarrow> \<not> temp_like path \<Longrightarrow>
     replace_step s (s\<lparr>writers := (writers s)(i \<mapsto> \<lparr>w_pid = pid, w_cnt = writes s pid, w_target = path,
         w_content = content, w_pc = Opening\<rparr>),
       writes := (writes s)(pid := Suc (writes s pid)), asked := insert (path, content) (asked s)\<rparr>)"
| truncate: "writers s i = Some w \<Longrightarrow> w_pc w = Opening \<Longrightarrow> names s (temporary_of w) = Some k \<Longrightarrow>
     replace_step s (s\<lparr>inode := (inode s)(k := []),
       writers := (writers s)(i \<mapsto> w\<lparr>w_pc := Writing k (w_content w)\<rparr>)\<rparr>)"
| create: "writers s i = Some w \<Longrightarrow> w_pc w = Opening \<Longrightarrow> names s (temporary_of w) = None \<Longrightarrow>
     replace_step s (s\<lparr>names := (names s)(temporary_of w \<mapsto> unused s), inode := (inode s)(unused s := []),
       unused := Suc (unused s),
       writers := (writers s)(i \<mapsto> w\<lparr>w_pc := Writing (unused s) (w_content w)\<rparr>)\<rparr>)"
| chunk: "writers s i = Some w \<Longrightarrow> w_pc w = Writing k (piece @ rest) \<Longrightarrow>
     replace_step s (s\<lparr>inode := (inode s)(k := inode s k @ piece),
       writers := (writers s)(i \<mapsto> w\<lparr>w_pc := Writing k rest\<rparr>)\<rparr>)"
| rename: "writers s i = Some w \<Longrightarrow> w_pc w = Writing k [] \<Longrightarrow> names s (temporary_of w) = Some j \<Longrightarrow>
     replace_step s (s\<lparr>names := (names s)(temporary_of w := None, w_target w \<mapsto> j),
       writers := (writers s)(i := None)\<rparr>)"
| give_up: "writers s i = Some w \<Longrightarrow>
     replace_step s (s\<lparr>names := (names s)(temporary_of w := None), writers := (writers s)(i := None)\<rparr>)"
| unlink: "replace_step s (s\<lparr>names := (names s)(path := None)\<rparr>)"
| die: "replace_step s (s\<lparr>writers := (\<lambda>i. case writers s i of None \<Rightarrow> None
         | Some w \<Rightarrow> if w_pid w = pid then None else Some w),
       writes := (writes s)(pid := 0)\<rparr>)"

definition initial :: "vfs \<Rightarrow> bool" where
  "initial s \<longleftrightarrow> writers s = Map.empty \<and> (\<forall>p k. names s p = Some k \<longrightarrow> k < unused s)
     \<and> (\<forall>p q k. names s p = Some k \<longrightarrow> names s q = Some k \<longrightarrow> p = q)
     \<and> (\<forall>p k. names s p = Some k \<longrightarrow> (p, inode s k) \<in> asked s)"

inductive replace_reach :: "vfs \<Rightarrow> bool" where
  init: "initial s \<Longrightarrow> replace_reach s"
| step: "replace_reach s \<Longrightarrow> replace_step s t \<Longrightarrow> replace_reach t"

definition names_ok :: "vfs \<Rightarrow> bool" where
  "names_ok s \<longleftrightarrow> (\<forall>p k. names s p = Some k \<longrightarrow> k < unused s)
     \<and> (\<forall>p q k. names s p = Some k \<longrightarrow> names s q = Some k \<longrightarrow> p = q)
     \<and> (\<forall>p k. names s p = Some k \<longrightarrow> \<not> temp_like p \<longrightarrow> (p, inode s k) \<in> asked s)"

definition owns :: "(str \<rightharpoonup> nat) \<Rightarrow> nat \<Rightarrow> writer \<Rightarrow> bool" where
  \<comment> \<open>no name but the writer's own temporary can lead to the inode, and that name nowhere else\<close>
  "owns ns k w \<longleftrightarrow> (\<forall>p j. ns p = Some j \<longrightarrow> (j = k \<longleftrightarrow> p = temporary_of w))"

definition writer_ok :: "vfs \<Rightarrow> writer \<Rightarrow> bool" where
  "writer_ok s w \<longleftrightarrow> w_cnt w < writes s (w_pid w) \<and> \<not> temp_like (w_target w)
     \<and> (w_target w, w_content w) \<in> asked s
     \<and> (case w_pc w of Opening \<Rightarrow> True
        | Writing k r \<Rightarrow> k < unused s \<and> w_content w = inode s k @ r \<and> owns (names s) k w)"

definition apart :: "writer \<Rightarrow> writer \<Rightarrow> bool" where
  "apart v w \<longleftrightarrow> (w_pid v, w_cnt v) \<noteq> (w_pid w, w_cnt w)
     \<and> (\<forall>k r q. w_pc v = Writing k r \<longrightarrow> w_pc w \<noteq> Writing k q)"

definition vfs_inv :: "vfs \<Rightarrow> bool" where
  "vfs_inv s \<longleftrightarrow> names_ok s \<and> (\<forall>i w. writers s i = Some w \<longrightarrow> writer_ok s w)
     \<and> (\<forall>i j v w. writers s i = Some v \<longrightarrow> writers s j = Some w \<longrightarrow> i \<noteq> j \<longrightarrow> apart v w)"

lemma vfs_inv_initial: "initial s \<Longrightarrow> vfs_inv s"
  by (simp add: initial_def vfs_inv_def names_ok_def)

lemma temporary_of_temp_like [simp]: "temp_like (temporary_of w)"
  by (simp add: temporary_of_def temporary_temp_like)

lemma temporary_of_pc [simp]: "temporary_of (w\<lparr>w_pc := x\<rparr>) = temporary_of w"
  by (simp add: temporary_of_def)

lemma apart_sym: "apart v w \<Longrightarrow> apart w v"
  unfolding apart_def by metis

lemma apart_temporary: "apart v w \<Longrightarrow> temporary_of v \<noteq> temporary_of w"
  unfolding apart_def temporary_of_def using temporary_inj by blast

lemma vfs_inv_update:
  assumes "vfs_inv s" and "writers t = (writers s)(i := ow)" and "names_ok t"
    and "\<And>j v. j \<noteq> i \<Longrightarrow> writers s j = Some v \<Longrightarrow> writer_ok s v \<Longrightarrow> writer_ok t v"
    and "\<And>w. ow = Some w \<Longrightarrow> writer_ok t w"
    and "\<And>j v w. ow = Some w \<Longrightarrow> j \<noteq> i \<Longrightarrow> writers s j = Some v \<Longrightarrow> writer_ok s v \<Longrightarrow> apart v w"
  shows "vfs_inv t"
  unfolding vfs_inv_def
proof (intro conjI allI impI)
  show "names_ok t" by fact
  show "writer_ok t w" if "writers t j = Some w" for j w
    using that assms(1,2,4,5) by (auto simp: vfs_inv_def split: if_splits)
  have new: "apart v w" if "ow = Some w" "j \<noteq> i" "writers s j = Some v" for j v w
    using that assms(1,6) by (auto simp: vfs_inv_def)
  fix a b v w
  assume v: "writers t a = Some v" and w: "writers t b = Some w" and "a \<noteq> b"
  consider "a = i" | "b = i" | "a \<noteq> i" "b \<noteq> i" by blast
  then show "apart v w"
  proof cases
    case 1
    with v w \<open>a \<noteq> b\<close> assms(2) have "apart w v" by (intro new [of v b w]) auto
    then show ?thesis by (rule apart_sym)
  next
    case 2
    with v w \<open>a \<noteq> b\<close> assms(2) show ?thesis by (intro new [of w a v]) auto
  next
    case 3
    with v w \<open>a \<noteq> b\<close> assms(1,2) show ?thesis by (auto simp: vfs_inv_def)
  qed
qed

lemma owns_pc [simp]: "owns ns k (w\<lparr>w_pc := x\<rparr>) = owns ns k w"
  by (simp add: owns_def)

lemma owns_temporary: "owns ns k w \<Longrightarrow> ns (temporary_of w) = Some j \<Longrightarrow> j = k"
  by (auto simp: owns_def)

lemma owns_name: "owns ns k w \<Longrightarrow> ns p = Some k \<Longrightarrow> p = temporary_of w"
  by (auto simp: owns_def)

lemma owns_remove: "owns ns k w \<Longrightarrow> owns (ns(p := None)) k w"
  by (auto simp: owns_def)

lemma owns_add: "owns ns k w \<Longrightarrow> p \<noteq> temporary_of w \<Longrightarrow> j \<noteq> k \<Longrightarrow> owns (ns(p \<mapsto> j)) k w"
  by (auto simp: owns_def)

lemma names_fresh: "names_ok s \<Longrightarrow> names s p \<noteq> Some (unused s)"
  by (auto simp: names_ok_def)

lemma vfs_inv_step: "replace_step s t \<Longrightarrow> vfs_inv s \<Longrightarrow> vfs_inv t"
proof (induction rule: replace_step.induct)
  case (call s i path content pid)
  have n: "names_ok s" using call by (simp add: vfs_inv_def)
  show ?case
  proof (rule vfs_inv_update [OF call(3), where i = i and ow = "Some \<lparr>w_pid = pid, w_cnt = writes s pid,
      w_target = path, w_content = content, w_pc = Opening\<rparr>"], goal_cases)
    case 2 show ?case using n by (auto simp: names_ok_def)
  next
    case (3 j v) then show ?case by (cases "w_pc v") (auto simp: writer_ok_def)
  next
    case 4 then show ?case using call(2) by (auto simp: writer_ok_def)
  next
    case (5 j v w) then show ?case by (auto simp: apart_def writer_ok_def)
  qed simp
next
  case (truncate s i w k)
  have n: "names_ok s" and w: "writer_ok s w" and others: "\<And>j v. j \<noteq> i \<Longrightarrow> writers s j = Some v \<Longrightarrow> apart v w"
    using truncate by (auto simp: vfs_inv_def)
  have ne: "w_pc v \<noteq> Writing k r" if "j \<noteq> i" "writers s j = Some v" "writer_ok s v" for j v r
    using apart_temporary [OF others [OF that(1,2)]] owns_name [of "names s" k v] that(3) truncate(3)
    by (auto simp: writer_ok_def)
  have o: "owns (names s) k w" and u: "k < unused s" using n truncate(3) by (auto simp: owns_def names_ok_def)
  have t: "names s p = Some k \<Longrightarrow> temp_like p" for p
    using owns_name [OF o] temporary_of_temp_like by metis
  show ?case
  proof (rule vfs_inv_update [OF truncate(4), where i = i and ow = "Some (w\<lparr>w_pc := Writing k (w_content w)\<rparr>)"], goal_cases)
    case 2 show ?case using n t by (auto simp: names_ok_def)
  next
    case (3 j v)
    show ?case
    proof (cases "w_pc v")
      case (Writing l r)
      with 3 ne [of j v r] show ?thesis by (auto simp: writer_ok_def)
    qed (use 3 in \<open>simp add: writer_ok_def\<close>)
  next
    case 4 then show ?case using w o u by (auto simp: writer_ok_def)
  next
    case (5 j v w')
    then have "\<forall>r. w_pc v \<noteq> Writing k r" using ne by blast
    with 5 others [of j v] show ?case by (auto simp: apart_def)
  qed simp
next
  case (create s i w)
  have n: "names_ok s" and w: "writer_ok s w" and others: "\<And>j v. j \<noteq> i \<Longrightarrow> writers s j = Some v \<Longrightarrow> apart v w"
    using create by (auto simp: vfs_inv_def)
  have o: "owns ((names s)(temporary_of w \<mapsto> unused s)) (unused s) w"
    using names_fresh [OF n] by (auto simp: owns_def)
  show ?case
  proof (rule vfs_inv_update [OF create(4), where i = i and ow = "Some (w\<lparr>w_pc := Writing (unused s) (w_content w)\<rparr>)"], goal_cases)
    case 2 show ?case using n by (auto simp: names_ok_def less_Suc_eq)
  next
    case (3 j v)
    have "temporary_of w \<noteq> temporary_of v" using apart_temporary [OF others [OF 3(1,2)]] by simp
    with 3 show ?case by (cases "w_pc v") (auto simp: writer_ok_def intro: owns_add)
  next
    case 4 then show ?case using w o by (auto simp: writer_ok_def)
  next
    case (5 j v w') then show ?case using others [of j v] by (auto simp: apart_def writer_ok_def)
  qed simp
next
  case (chunk s i w k piece rest)
  have n: "names_ok s" and w: "writer_ok s w" and others: "\<And>j v. j \<noteq> i \<Longrightarrow> writers s j = Some v \<Longrightarrow> apart v w"
    using chunk by (auto simp: vfs_inv_def)
  have o: "owns (names s) k w" using w chunk(2) by (simp add: writer_ok_def)
  have t: "names s p = Some k \<Longrightarrow> temp_like p" for p
    using owns_name [OF o] temporary_of_temp_like by metis
  show ?case
  proof (rule vfs_inv_update [OF chunk(3), where i = i and ow = "Some (w\<lparr>w_pc := Writing k rest\<rparr>)"], goal_cases)
    case 2 show ?case using n t by (auto simp: names_ok_def)
  next
    case (3 j v)
    show ?case
    proof (cases "w_pc v")
      case (Writing l r)
      with others [OF 3(1,2)] chunk(2) have "l \<noteq> k" by (auto simp: apart_def)
      with 3 Writing show ?thesis by (auto simp: writer_ok_def)
    qed (use 3 in \<open>simp add: writer_ok_def\<close>)
  next
    case 4 then show ?case using w chunk(2) by (auto simp: writer_ok_def)
  next
    case (5 j v w') then show ?case using others [of j v] chunk(2) by (auto simp: apart_def)
  qed simp
next
  case (rename s i w k j)
  have n: "names_ok s" and w: "writer_ok s w" and others: "\<And>j v. j \<noteq> i \<Longrightarrow> writers s j = Some v \<Longrightarrow> apart v w"
    using rename by (auto simp: vfs_inv_def)
  have o: "owns (names s) k w" and c: "w_content w = inode s k" and t: "\<not> temp_like (w_target w)"
    and a: "(w_target w, w_content w) \<in> asked s" and u: "k < unused s"
    using w rename(2) by (auto simp: writer_ok_def)
  have jk: "j = k" by (rule owns_temporary [OF o rename(3)])
  show ?case
  proof (rule vfs_inv_update [OF rename(4), where i = i and ow = None], goal_cases)
    case 2 show ?case using n jk c a u owns_name [OF o] by (auto simp: names_ok_def)
  next
    case (3 m v)
    have "w_target w \<noteq> temporary_of v" using t by (metis temporary_of_temp_like)
    moreover have "l \<noteq> k" if "w_pc v = Writing l r" for l r
      using that others [OF 3(1,2)] rename(2) by (auto simp: apart_def)
    ultimately show ?case using 3 jk
      by (cases "w_pc v") (auto simp: writer_ok_def intro!: owns_add owns_remove)
  qed simp_all
next
  case (give_up s i w)
  have n: "names_ok s" using give_up by (simp add: vfs_inv_def)
  show ?case
  proof (rule vfs_inv_update [OF give_up(2), where i = i and ow = None], goal_cases)
    case 2 show ?case using n by (auto simp: names_ok_def)
  next
    case (3 m v) then show ?case by (cases "w_pc v") (auto simp: writer_ok_def intro: owns_remove)
  qed simp_all
next
  case (unlink s path)
  have "writer_ok (s\<lparr>names := (names s)(path := None)\<rparr>) v" if "writer_ok s v" for v
    using that by (cases "w_pc v") (auto simp: writer_ok_def intro: owns_remove)
  with unlink show ?case by (auto simp: vfs_inv_def names_ok_def)
next
  case (die s pid)
  have "writer_ok (s\<lparr>writers := x, writes := (writes s)(pid := 0)\<rparr>) v" if "writer_ok s v" "w_pid v \<noteq> pid" for v x
    using that by (cases "w_pc v") (auto simp: writer_ok_def)
  with die show ?case
    unfolding vfs_inv_def by (auto simp: names_ok_def split: if_splits option.splits)
qed

lemma vfs_inv_reach: "replace_reach s \<Longrightarrow> vfs_inv s"
  by (induction rule: replace_reach.induct) (auto intro: vfs_inv_initial vfs_inv_step)

text \<open>
  C1: no reader ever sees a file half written. Whatever threads and processes replace files,
  fail, die, restart or delete at the same time, the bytes found under a name that is not a
  temporary's are, whole, bytes that \<open>replace\<close> was asked to put there or that were there at the
  start.
\<close>

theorem replace_never_tears:
  assumes "replace_reach s" and "names s path = Some k" and "\<not> temp_like path"
  shows "(path, inode s k) \<in> asked s"
  using vfs_inv_reach [OF assms(1)] assms(2,3) by (simp add: vfs_inv_def names_ok_def)

definition blank :: vfs where
  "blank = \<lparr>names = Map.empty, inode = (\<lambda>_. []), unused = 0, writes = (\<lambda>_. 0), writers = Map.empty,
     asked = {}\<rparr>"

lemma plain_not_temp_like: "\<not> temp_like ''a.body''"
proof
  assume "temp_like ''a.body''"
  then obtain x pid cnt where eq: "''a.body'' = x @ ''.tmp'' @ show_nat pid @ [dot] @ show_nat cnt"
    unfolding temp_like_def by blast
  obtain c r where "show_nat cnt = r @ [c]"
    using show_nat_head [of cnt] by (metis list.distinct(1) rev_exhaust)
  then have "is_digit (last ''a.body'')" using eq show_nat_digits [of c cnt] by simp
  then show False by (simp add: is_digit_def)
qed

theorem replace_never_tears_witness:
  "\<exists>s. replace_reach s \<and> names s ''a.body'' = Some 0 \<and> (''a.body'', inode s 0) \<in> asked s \<and> inode s 0 = [1, 2]"
proof -
  have s0: "replace_reach blank" by (rule replace_reach.init) (simp add: initial_def blank_def)
  define w where "w = \<lparr>w_pid = 7, w_cnt = 0, w_target = ''a.body'', w_content = [1, 2], w_pc = Opening\<rparr>"
  define s1 where "s1 = blank\<lparr>writers := [0 \<mapsto> w], writes := (\<lambda>_. 0)(7 := 1), asked := {(''a.body'', [1, 2])}\<rparr>"
  have s1: "replace_reach s1"
    using replace_reach.step [OF s0 replace_step.call [of blank 0 "''a.body''" "[1, 2]" 7]] plain_not_temp_like
    by (simp add: s1_def w_def blank_def)
  define s2 where "s2 = s1\<lparr>names := [temporary_of w \<mapsto> 0], inode := (\<lambda>_. [])(0 := []), unused := 1,
      writers := [0 \<mapsto> w\<lparr>w_pc := Writing 0 [1, 2]\<rparr>]\<rparr>"
  have s2: "replace_reach s2"
    using replace_reach.step [OF s1 replace_step.create [of s1 0 w]]
    by (simp add: s1_def s2_def w_def blank_def)
  define s3 where "s3 = s2\<lparr>inode := (\<lambda>_. [])(0 := [1, 2]), writers := [0 \<mapsto> w\<lparr>w_pc := Writing 0 []\<rparr>]\<rparr>"
  have s3: "replace_reach s3"
    using replace_reach.step [OF s2 replace_step.chunk [of s2 0 "w\<lparr>w_pc := Writing 0 [1, 2]\<rparr>" 0 "[1, 2]" "[]"]]
    by (simp add: s2_def s3_def)
  define s4 where "s4 = s3\<lparr>names := [''a.body'' \<mapsto> 0], writers := Map.empty\<rparr>"
  have t: "temporary_of w \<noteq> ''a.body''" using plain_not_temp_like temporary_of_temp_like by metis
  have wt: "w_target w = ''a.body''" by (simp add: w_def)
  have s4: "replace_reach s4"
    using replace_reach.step [OF s3 replace_step.rename [of s3 0 "w\<lparr>w_pc := Writing 0 []\<rparr>" 0 0]] t
    by (simp add: s2_def s3_def s4_def wt)
  have "names s4 ''a.body'' = Some 0" "inode s4 0 = [1, 2]" by (simp_all add: s4_def s3_def)
  with s4 replace_never_tears [OF s4 _ plain_not_temp_like] show ?thesis by blast
qed

end
