(* ===== verification/Link.thy ===== *)
theory Link
  imports Config
begin

text \<open>
  \<open>src/proxy/src/link.rs\<close>: the ladder of tiers, the smoothed estimate per client with its
  hysteresis, the bound on how many clients are remembered, and the two measurements it accepts.
  The hash map is an association list with distinct keys whose order stands for the iteration
  order; instants and durations count milliseconds, and \<open>duration_since\<close> of a later instant is 0.
  The process-wide store (\<open>shared\<close>) is not modelled.
\<close>

section \<open>Model\<close>

datatype tier = FullTier | Reduced | Grey | Placeholder | Nothing

fun degradation :: "tier \<Rightarrow> nat" where
  "degradation FullTier = 0"
| "degradation Reduced = 1"
| "degradation Grey = 2"
| "degradation Placeholder = 3"
| "degradation Nothing = 4"

fun label :: "tier \<Rightarrow> str" where
  "label FullTier = ''full quality''"
| "label Reduced = ''reduced quality''"
| "label Grey = ''greyscale''"
| "label Placeholder = ''placeholders''"
| "label Nothing = ''no images''"

definition COLD_START :: tier where "COLD_START = FullTier"
definition UPGRADE_SAMPLES :: nat where "UPGRADE_SAMPLES = 3"
definition MIN_WINDOW :: nat where "MIN_WINDOW = 250"
definition MIN_BYTES :: nat where "MIN_BYTES = 16 * 1024"
definition MIN_DELIVERED_BYTES :: nat where "MIN_DELIVERED_BYTES = 32 * 1024"

definition LADDER :: "tier list" where
  "LADDER = [FullTier, Reduced, Grey, Placeholder]"

record estimate =
  e_tier :: tier
  e_kbps :: nat
  e_age :: nat

fun descend :: "nat \<Rightarrow> nat list \<Rightarrow> nat list" where
  \<comment> \<open>\<open>floors[i] = floors[i].min(floors[i - 1])\<close>, left to right\<close>
  "descend prev [] = []"
| "descend prev (f # fs) = min f prev # descend (min f prev) fs"

definition thresholds_from_config :: "link_config \<Rightarrow> nat list" where
  "thresholds_from_config c =
     full_kbps c # descend (full_kbps c) [reduced_kbps c, grey_kbps c, placeholder_kbps c]"

definition tier_for :: "nat list \<Rightarrow> nat \<Rightarrow> tier" where
  "tier_for floors kbps =
     (case find (\<lambda>(t, floor). kbps \<ge> floor) (zip LADDER floors) of
        Some (t, floor) \<Rightarrow> t
      | None \<Rightarrow> Nothing)"

record entry =
  kbps :: nat
  tier_served :: tier
  upgrades :: nat
  seen :: nat

record links =
  enabled :: bool
  floors :: "nat list"
  ttl :: nat
  max_tracked :: nat
  clients :: "(ip_addr \<times> entry) list"

definition new :: "link_config \<Rightarrow> links" where
  "new c = \<lparr>enabled = link_enabled c, floors = thresholds_from_config c, ttl = ttl_minutes c * 60 * 1000,
     max_tracked = max (max_clients c) 1, clients = []\<rparr>"

definition blend :: "nat \<Rightarrow> nat \<Rightarrow> nat" where
  \<comment> \<open>in \<open>u64\<close>, then \<open>as u32\<close>\<close>
  "blend previous sample =
     (if sample < previous then (previous + sample) div 2 else (previous * 3 + sample) div 4) mod 2 ^ 32"

definition remeasure :: "nat list \<Rightarrow> nat \<Rightarrow> nat \<Rightarrow> entry \<Rightarrow> entry" where
  \<comment> \<open>one more sample of a client whose measurement still stands\<close>
  "remeasure fl sample now e =
     (let e = e\<lparr>kbps := blend (kbps e) sample, seen := now\<rparr>;
          candidate = tier_for fl (kbps e);
          confident = tier_for fl (kbps e div 5 * 4)
      in if degradation candidate \<ge> degradation (tier_served e) then
           e\<lparr>tier_served := candidate, upgrades := 0\<rparr>
         else if degradation confident < degradation (tier_served e) then
           (let e = e\<lparr>upgrades := min (upgrades e + 1) u8_max\<rparr>
            in if upgrades e \<ge> UPGRADE_SAMPLES then e\<lparr>tier_served := confident, upgrades := 0\<rparr> else e)
         else e\<lparr>upgrades := 0\<rparr>)"

definition first_measure :: "nat list \<Rightarrow> nat \<Rightarrow> nat \<Rightarrow> entry" where
  "first_measure fl sample now =
     \<lparr>kbps = sample, tier_served = tier_for fl sample, upgrades = 0, seen = now\<rparr>"

fun oldest :: "(ip_addr \<times> entry) list \<Rightarrow> ip_addr option" where
  \<comment> \<open>\<open>min_by_key(|(_, entry)| entry.seen)\<close>: the first of the least\<close>
  "oldest [] = None"
| "oldest ((p, e) # cs) =
     (if list_all (\<lambda>(q, f). seen e \<le> seen f) cs then Some p else oldest cs)"

function (sequential) evict :: "nat \<Rightarrow> (ip_addr \<times> entry) list \<Rightarrow> (ip_addr \<times> entry) list" where
  "evict mx cs =
     (if length cs > mx then
        (case oldest cs of None \<Rightarrow> cs | Some p \<Rightarrow> evict mx (filter (\<lambda>(q, e). q \<noteq> p) cs))
      else cs)"
  by pat_completeness auto

definition bound :: "links \<Rightarrow> nat \<Rightarrow> (ip_addr \<times> entry) list \<Rightarrow> (ip_addr \<times> entry) list" where
  "bound l now cs =
     (if length cs \<le> max_tracked l then cs
      else evict (max_tracked l) (filter (\<lambda>(p, e). now - seen e < ttl l) cs))"

lemma oldest_in: "oldest cs = Some p \<Longrightarrow> p \<in> fst ` set cs"
  by (induction cs) (auto split: if_splits)

lemma oldest_Some: "cs \<noteq> [] \<Longrightarrow> \<exists>p. oldest cs = Some p"
proof (induction cs)
  case (Cons c cs)
  then show ?case by (cases c; cases cs) auto
qed simp

lemma filter_other_shorter: "p \<in> fst ` set cs \<Longrightarrow> length (filter (\<lambda>(q, e). q \<noteq> p) cs) < length cs"
proof -
  assume "p \<in> fst ` set cs"
  then obtain e where "(p, e) \<in> set cs" by auto
  then show ?thesis by (rule length_filter_less) simp
qed

termination evict
  by (relation "measure (\<lambda>(mx, cs). length cs)") (auto dest!: oldest_in intro: filter_other_shorter)

declare evict.simps [simp del]

definition record_at :: "ip_addr \<Rightarrow> nat \<Rightarrow> nat \<Rightarrow> links \<Rightarrow> links" where
  "record_at peer sample now l =
     (if \<not> enabled l \<or> sample = 0 then l
      else (case map_of (clients l) peer of
              Some e \<Rightarrow>
                if now - seen e < ttl l
                then l\<lparr>clients := AList.update peer (remeasure (floors l) sample now e) (clients l)\<rparr>
                else l\<lparr>clients := bound l now
                       (AList.update peer (first_measure (floors l) sample now) (clients l))\<rparr>
            | None \<Rightarrow> l\<lparr>clients := bound l now
                       (AList.update peer (first_measure (floors l) sample now) (clients l))\<rparr>))"

definition estimate_at :: "ip_addr \<Rightarrow> nat \<Rightarrow> links \<Rightarrow> estimate option" where
  "estimate_at peer now l =
     (if \<not> enabled l then None
      else (case map_of (clients l) peer of
              None \<Rightarrow> None
            | Some e \<Rightarrow>
                (let age = now - seen e
                 in if age \<ge> ttl l then None
                    else Some \<lparr>e_tier = tier_served e, e_kbps = kbps e, e_age = age\<rparr>)))"

definition tier_at :: "ip_addr \<Rightarrow> nat \<Rightarrow> links \<Rightarrow> tier" where
  "tier_at peer now l = (case estimate_at peer now l of Some e \<Rightarrow> e_tier e | None \<Rightarrow> COLD_START)"

definition tracked :: "links \<Rightarrow> nat" where
  "tracked l = length (clients l)"

definition as_u32 :: "nat \<Rightarrow> nat option" where
  \<comment> \<open>\<open>u32::try_from(n).ok().filter(|n| *n > 0)\<close>\<close>
  "as_u32 n = (if n \<le> u32_max \<and> 0 < n then Some n else None)"

definition from_drain :: "nat \<Rightarrow> nat \<Rightarrow> nat option" where
  "from_drain drained elapsed =
     (if elapsed < MIN_WINDOW \<or> drained < MIN_BYTES then None
      else as_u32 (min (drained * 8) u64_max div (max elapsed 1 mod 2 ^ 64)))"

definition from_delivery_rate :: "nat \<Rightarrow> nat \<Rightarrow> nat option" where
  "from_delivery_rate bytes_per_second sent_bytes =
     (if sent_bytes < MIN_DELIVERED_BYTES then None
      else as_u32 (min (bytes_per_second * 8) u64_max div 1000))"

definition speed :: "nat \<Rightarrow> str" where
  "speed rate =
     (if rate \<ge> 1000 then one_decimal (over (of_integer rate) (1000, 1)) @ '' Mbps''
      else show_nat rate @ '' kbps'')"

section \<open>The ladder\<close>

definition descending :: "nat list \<Rightarrow> bool" where
  "descending fs \<longleftrightarrow> length fs = 4 \<and> sorted_wrt (\<ge>) fs"

lemma thresholds_descending: "descending (thresholds_from_config c)"
  by (simp add: descending_def thresholds_from_config_def min_def)

lemma tier_for_eq:
  "tier_for [a, b, c, d] n =
     (if n \<ge> a then FullTier else if n \<ge> b then Reduced else if n \<ge> c then Grey
      else if n \<ge> d then Placeholder else Nothing)"
  by (simp add: tier_for_def LADDER_def)

lemma four: "length fs = 4 \<Longrightarrow> \<exists>a b c d. fs = [a, b, c, d]"
  by (auto simp: numeral_eq_Suc length_Suc_conv)

lemma tier_for_mono:
  assumes "length fl = 4" and "m \<le> n"
  shows "degradation (tier_for fl n) \<le> degradation (tier_for fl m)"
proof -
  from four [OF assms(1)] obtain a b c d where "fl = [a, b, c, d]" by blast
  with assms(2) show ?thesis by (simp add: tier_for_eq)
qed

lemma degradation_inj: "degradation s = degradation t \<Longrightarrow> s = t"
  by (cases s; cases t) auto

section \<open>Smoothing\<close>

lemma blend_between:
  assumes "previous \<le> u32_max" and "sample \<le> u32_max"
  shows "min previous sample \<le> blend previous sample \<and> blend previous sample \<le> max previous sample"
proof -
  have "(previous + sample) div 2 < 2 ^ 32" "(previous * 3 + sample) div 4 < 2 ^ 32"
    using assms by (auto simp: u32_max_def)
  then show ?thesis by (auto simp: blend_def)
qed

definition entry_ok :: "nat list \<Rightarrow> entry \<Rightarrow> bool" where
  \<comment> \<open>nothing better is served than the smoothed speed earns\<close>
  "entry_ok fl e \<longleftrightarrow> kbps e \<le> u32_max \<and> upgrades e < UPGRADE_SAMPLES
     \<and> degradation (tier_for fl (kbps e)) \<le> degradation (tier_served e)"

lemma entry_ok_first: "sample \<le> u32_max \<Longrightarrow> entry_ok fl (first_measure fl sample now)"
  by (simp add: entry_ok_def first_measure_def UPGRADE_SAMPLES_def)

lemma entry_ok_remeasure:
  assumes "length fl = 4" and "sample \<le> u32_max" and "entry_ok fl e"
  shows "entry_ok fl (remeasure fl sample now e)"
proof -
  let ?k = "blend (kbps e) sample"
  have "?k \<le> u32_max" using blend_between [of "kbps e" sample] assms by (auto simp: entry_ok_def)
  moreover have "degradation (tier_for fl ?k) \<le> degradation (tier_for fl (?k div 5 * 4))"
    by (rule tier_for_mono [OF assms(1)]) simp
  ultimately show ?thesis using assms(3)
    by (auto simp: entry_ok_def remeasure_def Let_def UPGRADE_SAMPLES_def u8_max_def)
qed

lemma remeasure_upgrade:
  assumes "upgrades e < UPGRADE_SAMPLES"
  shows "degradation (tier_served (remeasure fl sample now e)) < degradation (tier_served e) \<Longrightarrow>
      upgrades e = UPGRADE_SAMPLES - 1"
    and "upgrades (remeasure fl sample now e) \<le> upgrades e + 1"
  using assms by (auto simp: remeasure_def Let_def UPGRADE_SAMPLES_def u8_max_def split: if_splits)

section \<open>The store\<close>

definition links_ok :: "links \<Rightarrow> bool" where
  "links_ok l \<longleftrightarrow> length (floors l) = 4 \<and> 1 \<le> max_tracked l \<and> distinct (map fst (clients l))
     \<and> length (clients l) \<le> max_tracked l \<and> (\<forall>(p, e)\<in>set (clients l). entry_ok (floors l) e)"

lemma links_ok_new: "links_ok (new c)"
  by (simp add: links_ok_def new_def thresholds_from_config_def)

lemma evict_step:
  assumes "length cs > mx"
  obtains p where "oldest cs = Some p" and "evict mx cs = evict mx (filter (\<lambda>(q, e). q \<noteq> p) cs)"
proof -
  obtain p where "oldest cs = Some p" using oldest_Some [of cs] assms by fastforce
  with assms that show thesis by (simp add: evict.simps [of mx cs])
qed

lemma evict_done: "\<not> length cs > mx \<Longrightarrow> evict mx cs = cs"
  by (simp add: evict.simps [of mx cs])

lemma length_evict: "length (evict mx cs) \<le> mx"
proof (induction mx cs rule: evict.induct)
  case (1 mx cs)
  show ?case
  proof (cases "length cs > mx")
    case True
    then obtain p where p: "oldest cs = Some p" "evict mx cs = evict mx (filter (\<lambda>(q, e). q \<noteq> p) cs)"
      by (rule evict_step)
    with 1 [OF True p(1)] show ?thesis by simp
  qed (simp add: evict_done)
qed

lemma evict_filter: "\<exists>Q. evict mx cs = filter Q cs"
proof (induction mx cs rule: evict.induct)
  case (1 mx cs)
  show ?case
  proof (cases "length cs > mx")
    case True
    then obtain p where p: "oldest cs = Some p" "evict mx cs = evict mx (filter (\<lambda>(q, e). q \<noteq> p) cs)"
      by (rule evict_step)
    from 1 [OF True p(1)] obtain Q where "evict mx (filter (\<lambda>(q, e). q \<noteq> p) cs) = filter Q (filter (\<lambda>(q, e). q \<noteq> p) cs)"
      by blast
    with p(2) show ?thesis by auto
  next
    case False
    then show ?thesis by (intro exI [of _ "\<lambda>_. True"]) (simp add: evict_done)
  qed
qed

lemma bound_filter: "\<exists>Q. bound l now cs = filter Q cs"
proof (cases "length cs \<le> max_tracked l")
  case True
  then show ?thesis by (intro exI [of _ "\<lambda>_. True"]) (simp add: bound_def)
next
  case False
  obtain Q where "evict (max_tracked l) (filter (\<lambda>(p, e). now - seen e < ttl l) cs)
      = filter Q (filter (\<lambda>(p, e). now - seen e < ttl l) cs)"
    using evict_filter by blast
  with False show ?thesis by (auto simp: bound_def)
qed

lemma length_bound: "length (bound l now cs) \<le> max_tracked l"
  by (simp add: bound_def length_evict)

lemma set_update_subset: "set (AList.update k v al) \<subseteq> insert (k, v) (set al)"
  by (induction al) auto

lemma length_update_present: "k \<in> fst ` set al \<Longrightarrow> length (AList.update k v al) = length al"
  by (induction al) auto

lemma links_ok_record:
  assumes "links_ok l" and "sample \<le> u32_max"
  shows "links_ok (record_at peer sample now l)"
proof (cases "\<not> enabled l \<or> sample = 0")
  case True
  with assms show ?thesis by (simp add: record_at_def)
next
  case False
  have upd: "\<forall>(p, e)\<in>set (AList.update peer x (clients l)). entry_ok (floors l) e"
    if "entry_ok (floors l) x" for x
    using assms(1) that set_update_subset [of peer x "clients l"] by (auto simp: links_ok_def)
  have dis: "distinct (map fst (AList.update peer x (clients l)))" for x
    using assms(1) by (simp add: links_ok_def distinct_update)
  have bnd: "links_ok (l\<lparr>clients := bound l now (AList.update peer x (clients l))\<rparr>)"
    if "entry_ok (floors l) x" for x
  proof -
    obtain Q where "bound l now (AList.update peer x (clients l)) = filter Q (AList.update peer x (clients l))"
      using bound_filter by blast
    then show ?thesis
      using assms(1) upd [OF that] dis [of x] length_bound [of l now "AList.update peer x (clients l)"]
      by (auto simp: links_ok_def distinct_map_filter)
  qed
  have first: "entry_ok (floors l) (first_measure (floors l) sample now)"
    by (rule entry_ok_first [OF assms(2)])
  show ?thesis
  proof (cases "map_of (clients l) peer")
    case None
    with False bnd [OF first] show ?thesis by (simp add: record_at_def)
  next
    case (Some e)
    then have mem: "(peer, e) \<in> set (clients l)" by (rule map_of_SomeD)
    with assms(1) have "entry_ok (floors l) (remeasure (floors l) sample now e)"
      by (intro entry_ok_remeasure [OF _ assms(2)]) (auto simp: links_ok_def)
    moreover have "length (AList.update peer x (clients l)) = length (clients l)" for x
      using mem by (intro length_update_present) force
    ultimately have "links_ok (l\<lparr>clients := AList.update peer (remeasure (floors l) sample now e) (clients l)\<rparr>)"
      using assms(1) upd dis by (simp add: links_ok_def)
    with False Some bnd [OF first] show ?thesis by (simp add: record_at_def)
  qed
qed

definition record_all :: "(ip_addr \<times> nat \<times> nat) list \<Rightarrow> links \<Rightarrow> links" where
  \<comment> \<open>a history of measurements: who, how many kbps, at which instant\<close>
  "record_all ms l = fold (\<lambda>(peer, sample, now). record_at peer sample now) ms l"

lemma record_at_fixed [simp]:
  "floors (record_at peer sample now l) = floors l"
  "ttl (record_at peer sample now l) = ttl l"
  "max_tracked (record_at peer sample now l) = max_tracked l"
  "enabled (record_at peer sample now l) = enabled l"
  by (auto simp: record_at_def split: option.splits)

lemma record_all_fixed [simp]:
  "floors (record_all ms l) = floors l"
  "ttl (record_all ms l) = ttl l"
  "max_tracked (record_all ms l) = max_tracked l"
  "enabled (record_all ms l) = enabled l"
  by (induction ms arbitrary: l) (auto simp: record_all_def)

lemma links_ok_record_all:
  "links_ok l \<Longrightarrow> \<forall>(p, s, t)\<in>set ms. s \<le> u32_max \<Longrightarrow> links_ok (record_all ms l)"
  by (induction ms arbitrary: l) (auto simp: record_all_def intro: links_ok_record)

lemma new_fixed [simp]:
  "floors (new c) = thresholds_from_config c" "ttl (new c) = ttl_minutes c * 60 * 1000"
  "max_tracked (new c) = max (max_clients c) 1" "enabled (new c) = link_enabled c"
  by (simp_all add: new_def)

lemma estimate_at_SomeD:
  assumes "estimate_at peer now l = Some est"
  obtains e where "(peer, e) \<in> set (clients l)" and "e_tier est = tier_served e" and "e_kbps est = kbps e"
    and "e_age est = now - seen e" and "now - seen e < ttl l" and "enabled l"
  using assms that by (auto simp: estimate_at_def Let_def split: if_splits option.splits dest: map_of_SomeD)

lemma fold_remeasure_sticky:
  "length ms + upgrades e < UPGRADE_SAMPLES \<Longrightarrow>
    degradation (tier_served e) \<le> degradation (tier_served (fold (\<lambda>(s, t). remeasure fl s t) ms e))"
proof (induction ms arbitrary: e)
  case (Cons m ms)
  obtain s t where m: "m = (s, t)" by (cases m)
  from Cons.prems have lt: "upgrades e < UPGRADE_SAMPLES" and ne: "upgrades e \<noteq> UPGRADE_SAMPLES - 1"
    by (auto simp: UPGRADE_SAMPLES_def)
  have up: "upgrades (remeasure fl s t e) \<le> upgrades e + 1" by (rule remeasure_upgrade(2) [OF lt])
  have "degradation (tier_served e) \<le> degradation (tier_served (remeasure fl s t e))"
    using remeasure_upgrade(1) [OF lt, of fl s t] ne by fastforce
  also have "\<dots> \<le> degradation (tier_served (fold (\<lambda>(s, t). remeasure fl s t) ms (remeasure fl s t e)))"
    using Cons.prems up by (intro Cons.IH) simp
  finally show ?case by (simp add: m)
qed simp

lemma unmeasured_is_full:
  "\<not> enabled l \<Longrightarrow> tier_at peer now l = FullTier"
  "map_of (clients l) peer = None \<Longrightarrow> tier_at peer now l = FullTier"
  "map_of (clients l) peer = Some e \<Longrightarrow> ttl l \<le> now - seen e \<Longrightarrow> tier_at peer now l = FullTier"
  by (auto simp: tier_at_def estimate_at_def COLD_START_def)

lemma record_at_disabled: "\<not> enabled l \<Longrightarrow> record_at peer sample now l = l"
  by (simp add: record_at_def)

lemma from_drain_SomeD:
  assumes "from_drain d t = Some k" and "t < 2 ^ 64"
  shows "0 < k \<and> k \<le> u32_max \<and> k * t \<le> 8 * d \<and> MIN_WINDOW \<le> t \<and> MIN_BYTES \<le> d"
proof -
  from assms have k: "k = min (d * 8) u64_max div t" and ok: "0 < k" "k \<le> u32_max" "MIN_WINDOW \<le> t" "MIN_BYTES \<le> d"
    by (auto simp: from_drain_def as_u32_def MIN_WINDOW_def split: if_splits)
  have "k * t \<le> min (d * 8) u64_max" unfolding k by (rule div_times_less_eq_dividend)
  then have "k * t \<le> 8 * d" by linarith
  with ok show ?thesis by simp
qed

lemmas link_steps = record_all_def record_at_def new_def first_measure_def remeasure_def blend_def
  bound_def estimate_at_def thresholds_from_config_def tier_for_def LADDER_def UPGRADE_SAMPLES_def
  u8_max_def

section \<open>Properties\<close>

text \<open>
  C19: after any history of measurements, an estimate shown for a client is younger than the
  configured time to live, its tier is never better than the one its smoothed speed earns, and the
  store holds no more clients than configured (and at least one).
\<close>
theorem tier_is_earned:
  assumes "\<forall>(p, s, t)\<in>set ms. s \<le> u32_max"
    and "estimate_at peer now (record_all ms (new c)) = Some est"
  shows "degradation (tier_for (thresholds_from_config c) (e_kbps est)) \<le> degradation (e_tier est)
    \<and> e_age est < ttl_minutes c * 60 * 1000
    \<and> tracked (record_all ms (new c)) \<le> max (max_clients c) 1"
proof -
  have ok: "links_ok (record_all ms (new c))"
    by (rule links_ok_record_all [OF links_ok_new assms(1)])
  from assms(2) obtain e where "(peer, e) \<in> set (clients (record_all ms (new c)))"
    and "e_tier est = tier_served e" "e_kbps est = kbps e" "e_age est = now - seen e"
    and "now - seen e < ttl (record_all ms (new c))"
    by (rule estimate_at_SomeD)
  with ok show ?thesis by (fastforce simp: links_ok_def entry_ok_def tracked_def)
qed

theorem tier_is_earned_witness:
  "degradation (tier_for (thresholds_from_config default_link) 750) \<le> degradation Reduced
    \<and> (100::nat) < ttl_minutes default_link * 60 * 1000
    \<and> tracked (record_all [(V4 1, 1000, 0), (V4 1, 500, 900)] (new default_link))
        \<le> max (max_clients default_link) 1"
proof -
  have e: "estimate_at (V4 1) 1000 (record_all [(V4 1, 1000, 0), (V4 1, 500, 900)] (new default_link))
    = Some \<lparr>e_tier = Reduced, e_kbps = 750, e_age = 100\<rparr>"
    by (simp add: link_steps default_link_def)
  show ?thesis
    using tier_is_earned [OF _ e] by (simp add: u32_max_def)
qed

text \<open>
  A client whose run of good samples has just been reset is served nothing better before its
  third further sample, whatever those samples say; and after every sample the tier is at least as
  degraded as the smoothed speed asks for, so a collapse of the link applies at once.
\<close>
theorem improving_takes_three_samples:
  assumes "length fl = 4" and "entry_ok fl e" and "upgrades e = 0" and "\<forall>(s, t)\<in>set ms. s \<le> u32_max"
  shows "(length ms < 3 \<longrightarrow>
      degradation (tier_served e) \<le> degradation (tier_served (fold (\<lambda>(s, t). remeasure fl s t) ms e)))
    \<and> degradation (tier_for fl (kbps (fold (\<lambda>(s, t). remeasure fl s t) ms e)))
      \<le> degradation (tier_served (fold (\<lambda>(s, t). remeasure fl s t) ms e))"
proof -
  have "entry_ok fl (fold (\<lambda>(s, t). remeasure fl s t) ms e)"
    using assms(2,4)
    by (induction ms arbitrary: e) (auto intro!: entry_ok_remeasure [OF assms(1)])
  then show ?thesis
    using assms(3) by (auto simp: entry_ok_def UPGRADE_SAMPLES_def intro!: fold_remeasure_sticky)
qed

theorem improving_takes_three_samples_witness:
  "let e = \<lparr>kbps = 500, tier_served = Grey, upgrades = 0, seen = 0\<rparr>;
       after = fold (\<lambda>(s, t). remeasure [2000, 700, 250, 80] s t)
     in degradation Grey \<le> degradation (tier_served (after [(9000, 1), (9000, 2)] e))
      \<and> tier_served (after [(9000, 1), (9000, 2), (9000, 3)] e) = FullTier"
proof -
  have "entry_ok [2000, 700, 250, 80] \<lparr>kbps = 500, tier_served = Grey, upgrades = 0, seen = 0\<rparr>"
    by (simp add: entry_ok_def link_steps u32_max_def)
  then have "degradation Grey \<le> degradation (tier_served (fold (\<lambda>(s, t). remeasure [2000, 700, 250, 80] s t)
      [(9000, 1), (9000, 2)] \<lparr>kbps = 500, tier_served = Grey, upgrades = 0, seen = 0\<rparr>))"
    using improving_takes_three_samples [of "[2000, 700, 250, 80]"
        "\<lparr>kbps = 500, tier_served = Grey, upgrades = 0, seen = 0\<rparr>" "[(9000, 1), (9000, 2)]"]
    by (simp add: u32_max_def)
  moreover have "tier_served (fold (\<lambda>(s, t). remeasure [2000, 700, 250, 80] s t)
      [(9000, 1), (9000, 2), (9000, 3)] \<lparr>kbps = 500, tier_served = Grey, upgrades = 0, seen = 0\<rparr>) = FullTier"
    by (simp add: link_steps)
  ultimately show ?thesis by (simp add: Let_def)
qed

end
