(* ===== verification/Filestore.thy ===== *)
theory Filestore
  imports Disk
begin

text \<open>
  A directory as the caches see it: a map from path to content. \<open>Disk.replace_never_tears\<close> is why
  a read may be taken to return some whole content. What the operating system answers during one
  operation (which replacements and removals it grants, what it lists) is an \<open>io\<close> argument.
  The locale \<open>file_store\<close> is the contract the caches rely on; its lemmas say where what a read
  returns comes from after any history of writes and removals.
\<close>

section \<open>Model\<close>

type_synonym files = "str \<rightharpoonup> bytes"

record io =
  may_replace :: "str \<Rightarrow> bool"
  may_remove :: "str \<Rightarrow> bool"
  listing :: "dirent option list option"

definition replace_file :: "bool \<Rightarrow> str \<Rightarrow> bytes \<Rightarrow> files \<Rightarrow> files" where
  "replace_file granted path content fs = (if granted then fs(path \<mapsto> content) else fs)"

definition remove_files :: "(str \<Rightarrow> bool) \<Rightarrow> files \<Rightarrow> files" where
  "remove_files gone fs = (\<lambda>p. if gone p then None else fs p)"

definition swept_away :: "io \<Rightarrow> nat \<Rightarrow> str \<Rightarrow> bool" where
  \<comment> \<open>the paths a sweep to this budget removes\<close>
  "swept_away w budget p \<longleftrightarrow> p \<in> set (map file_path (fst (sweep (may_remove w) budget (listing w))))"

definition quiet :: io where
  \<comment> \<open>everything granted, nothing listed\<close>
  "quiet = \<lparr>may_replace = (\<lambda>_. True), may_remove = (\<lambda>_. True), listing = Some []\<rparr>"

datatype fop = Write bool str bytes | Remove "str \<Rightarrow> bool"

section \<open>The contract\<close>

locale file_store =
  fixes rd :: "'s \<Rightarrow> str \<Rightarrow> bytes option"
    and wr :: "bool \<Rightarrow> str \<Rightarrow> bytes \<Rightarrow> 's \<Rightarrow> 's"
    and rm :: "(str \<Rightarrow> bool) \<Rightarrow> 's \<Rightarrow> 's"
  assumes rd_wr: "rd (wr granted p b s) q = (if granted \<and> q = p then Some b else rd s q)"
    and rd_rm: "rd (rm gone s) q = (if gone q then None else rd s q)"
begin

primrec perform :: "fop \<Rightarrow> 's \<Rightarrow> 's" where
  "perform (Write granted p b) s = wr granted p b s"
| "perform (Remove gone) s = rm gone s"

fun touches :: "str \<Rightarrow> fop \<Rightarrow> bool" where
  "touches q (Write granted p b) = (granted \<and> p = q)"
| "touches q (Remove gone) = gone q"

lemma untouched: "\<not> touches q f \<Longrightarrow> rd (perform f s) q = rd s q"
  by (cases f) (auto simp: rd_wr rd_rm)

lemma untouched_all: "\<forall>f\<in>set fops. \<not> touches q f \<Longrightarrow> rd (fold perform fops s) q = rd s q"
  by (induction fops arbitrary: s) (auto simp: untouched)

lemma last_write:
  "\<forall>f\<in>set later. \<not> touches q f \<Longrightarrow>
    rd (fold perform (earlier @ Write True q b # later) s) q = Some b"
  by (simp add: untouched_all rd_wr)

lemma provenance:
  "rd (fold perform fops s) q = Some b \<Longrightarrow> Write True q b \<in> set fops \<or> rd s q = Some b"
proof (induction fops arbitrary: s)
  case (Cons f fops)
  from Cons.prems have "rd (fold perform fops (perform f s)) q = Some b" by simp
  from Cons.IH [OF this] show ?case
  proof
    assume "rd (perform f s) q = Some b"
    then show ?thesis by (cases f) (auto simp: rd_wr rd_rm split: if_splits)
  qed simp
qed simp

lemma lost_is_lost:
  \<comment> \<open>what is absent and not written is absent\<close>
  "rd s q = None \<Longrightarrow> \<forall>b. Write True q b \<notin> set fops \<Longrightarrow> rd (fold perform fops s) q = None"
  using provenance [of fops s q] by (metis option.exhaust option.distinct(1))

end

interpretation fs: file_store "\<lambda>s p. s p" replace_file remove_files
  by unfold_locales (auto simp: replace_file_def remove_files_def)

lemma replace_file_simps [simp]:
  "replace_file True p b s = s(p \<mapsto> b)" "replace_file False p b s = s"
  by (simp_all add: replace_file_def)

lemma swept_away_quiet [simp]: "\<not> swept_away quiet budget p"
  by (simp add: swept_away_def quiet_def sweep_def List.map_filter_simps total_size_def)

lemma remove_quiet [simp]: "remove_files (swept_away quiet budget) s = s"
  by (simp add: remove_files_def)

lemma quiet_simps [simp]: "may_replace quiet p" "may_remove quiet p"
  by (simp_all add: quiet_def)

lemma swept_away_granted: "swept_away w budget p \<Longrightarrow> may_remove w p"
proof -
  assume "swept_away w budget p"
  then obtain es where "listing w = Some es" and *: "p \<in> file_path ` set (fst (sweep (may_remove w) budget (Some es)))"
    by (auto simp: swept_away_def sweep_def split: option.splits)
  obtain removed freed where s: "sweep (may_remove w) budget (Some es) = (removed, freed)" by force
  from sweep_lru [OF refl refl s] * s show ?thesis by (auto simp: removable_def)
qed

section \<open>Joined paths\<close>

lemma path_join_inj:
  assumes "\<not> starts_with a ''/''" and "\<not> starts_with b ''/''"
  shows "path_join dir a = path_join dir b \<longleftrightarrow> a = b"
  using assms by (auto simp: path_join_def)

end
