(* ===== verification/Imagecache.thy ===== *)
theory Imagecache
  imports Filestore Metrics
begin

text \<open>
  \<open>src/proxy/src/imagecache.rs\<close>: re-encoded images on disk, addressed by the SHA-256 of the
  bytes they came from, the quality and the form. The hash is a parameter; where a property needs
  it to tell inputs apart, that is a hypothesis about the inputs at hand. \<open>Form\<close> is declared
  in \<open>images.rs\<close>. Log lines and the process-wide instance are left out.
\<close>

section \<open>Model\<close>

datatype form = Colour | GreyForm | PlaceholderForm

fun form_tag :: "form \<Rightarrow> str" where
  "form_tag Colour = ''colour''"
| "form_tag GreyForm = ''grey''"
| "form_tag PlaceholderForm = ''placeholder''"

definition SWEEP_EVERY :: nat where "SWEEP_EVERY = 200"

record image_cache =
  ic_dir :: str
  ic_budget :: nat
  since_sweep :: nat
  ic_files :: files

definition new :: "config \<Rightarrow> bool \<Rightarrow> io \<Rightarrow> files \<Rightarrow> image_cache option" where
  \<comment> \<open>\<open>made\<close> is whether the directory could be created\<close>
  "new c made w disk =
     (let budget = cache_mb (images_section c) * 1024 * 1024 in
      if budget = 0 then None
      else if \<not> made then None
      else Some \<lparr>ic_dir = path_join (cache_dir (paths_section c)) ''images'', ic_budget = budget, since_sweep = 0,
             ic_files = remove_files (swept_away w budget) disk\<rparr>)"

definition name_for :: "(bytes \<Rightarrow> bytes) \<Rightarrow> bytes \<Rightarrow> nat \<Rightarrow> form \<Rightarrow> str" where
  "name_for sha256 original q f =
     hex (sha256 original) @ ''-q'' @ show_nat q @ ''-'' @ form_tag f @ ''.webp''"

definition path_for :: "(bytes \<Rightarrow> bytes) \<Rightarrow> image_cache \<Rightarrow> bytes \<Rightarrow> nat \<Rightarrow> form \<Rightarrow> str" where
  "path_for sha256 c original q f = path_join (ic_dir c) (name_for sha256 original q f)"

definition get :: "(bytes \<Rightarrow> bytes) \<Rightarrow> bytes \<Rightarrow> nat \<Rightarrow> form \<Rightarrow> image_cache \<Rightarrow> metrics \<Rightarrow> bytes option \<times> metrics" where
  "get sha256 original q f c m =
     (let found = ic_files c (path_for sha256 c original q f)
      in (found, if found \<noteq> None then m\<lparr>image_cache_hits := increment (image_cache_hits m)\<rparr>
                 else m\<lparr>image_cache_misses := increment (image_cache_misses m)\<rparr>))"

definition put :: "(bytes \<Rightarrow> bytes) \<Rightarrow> io \<Rightarrow> bytes \<Rightarrow> nat \<Rightarrow> form \<Rightarrow> bytes \<Rightarrow> image_cache \<Rightarrow> image_cache" where
  "put sha256 w original q f encoded c =
     (let path = path_for sha256 c original q f in
      if \<not> may_replace w path then c
      else
        (let written = replace_file True path encoded (ic_files c) in
         if since_sweep c + 1 \<ge> SWEEP_EVERY
         then c\<lparr>since_sweep := 0, ic_files := remove_files (swept_away w (ic_budget c)) written\<rparr>
         else c\<lparr>since_sweep := since_sweep c + 1, ic_files := written\<rparr>))"

section \<open>Names\<close>

lemma form_tag_inj: "form_tag f = form_tag g \<Longrightarrow> f = g"
  by (cases f; cases g) auto

lemma hex_no_dash: "CHR ''-'' \<notin> set (hex bs)"
  using hex_alnum [of "CHR ''-''" bs] by (auto simp: is_alnum_def is_alpha_def is_digit_def is_upper_def is_lower_def)

lemma name_for_inj:
  assumes "name_for sha256 o1 q1 f1 = name_for sha256 o2 q2 f2"
  shows "sha256 o1 = sha256 o2 \<and> q1 = q2 \<and> f1 = f2"
proof -
  have num: "CHR ''-'' \<notin> set (CHR ''q'' # show_nat q)" for q
    using show_nat_digits [of "CHR ''-''" q] by (auto simp: is_digit_def)
  have e: "hex (sha256 o1) @ CHR ''-'' # (CHR ''q'' # show_nat q1) @ CHR ''-'' # form_tag f1 @ ''.webp''
      = hex (sha256 o2) @ CHR ''-'' # (CHR ''q'' # show_nat q2) @ CHR ''-'' # form_tag f2 @ ''.webp''"
    using assms by (simp add: name_for_def)
  from cut_at [OF e hex_no_dash hex_no_dash]
  have h: "hex (sha256 o1) = hex (sha256 o2)"
    and e2: "(CHR ''q'' # show_nat q1) @ CHR ''-'' # form_tag f1 @ ''.webp''
      = (CHR ''q'' # show_nat q2) @ CHR ''-'' # form_tag f2 @ ''.webp''"
    by simp_all
  from cut_at [OF e2 num num] h show ?thesis
    by (auto intro: hex_inj show_nat_inj form_tag_inj)
qed

lemma name_for_relative: "\<not> starts_with (name_for sha256 orig q f) ''/''"
proof (cases "hex (sha256 orig)")
  case (Cons c r)
  then have "is_alnum c" using hex_alnum [of c "sha256 orig"] by simp
  with Cons show ?thesis
    by (auto simp: name_for_def is_alnum_def is_alpha_def is_digit_def is_upper_def is_lower_def)
qed (simp add: name_for_def)

lemma path_for_inj:
  assumes "path_for sha256 c o1 q1 f1 = path_for sha256 c o2 q2 f2"
  shows "sha256 o1 = sha256 o2 \<and> q1 = q2 \<and> f1 = f2"
proof (rule name_for_inj [of sha256])
  show "name_for sha256 o1 q1 f1 = name_for sha256 o2 q2 f2"
    using assms by (simp only: path_for_def path_join_inj [OF name_for_relative name_for_relative])
qed

section \<open>Histories\<close>

definition put_ops :: "(bytes \<Rightarrow> bytes) \<Rightarrow> io \<Rightarrow> bytes \<Rightarrow> nat \<Rightarrow> form \<Rightarrow> bytes \<Rightarrow> image_cache \<Rightarrow> fop list" where
  \<comment> \<open>a put as writes and removals\<close>
  "put_ops sha256 w original q f encoded c =
     (let path = path_for sha256 c original q f in
      if \<not> may_replace w path then []
      else Write True path encoded #
        (if since_sweep c + 1 \<ge> SWEEP_EVERY then [Remove (swept_away w (ic_budget c))] else []))"

lemma put_files: "ic_files (put sha256 w original q f encoded c) =
    fold fs.perform (put_ops sha256 w original q f encoded c) (ic_files c)"
  by (simp add: put_def put_ops_def Let_def)

lemma put_dir [simp]: "ic_dir (put sha256 w original q f encoded c) = ic_dir c"
  by (simp add: put_def Let_def)

lemma path_for_put [simp]:
  "path_for sha256 (put sha256 w original q f encoded c) o2 q2 f2 = path_for sha256 c o2 q2 f2"
  by (simp add: path_for_def)

definition puts :: "(bytes \<Rightarrow> bytes) \<Rightarrow> (io \<times> bytes \<times> nat \<times> form \<times> bytes) list \<Rightarrow> image_cache \<Rightarrow> image_cache" where
  "puts sha256 ps c = fold (\<lambda>(w, orig, q, f, encoded). put sha256 w orig q f encoded) ps c"

lemma puts_provenance:
  assumes "ic_files (puts sha256 ps c) path = Some b"
  shows "ic_files c path = Some b
    \<or> (\<exists>w orig q f. (w, orig, q, f, b) \<in> set ps \<and> path = path_for sha256 c orig q f)"
  using assms
proof (induction ps arbitrary: c)
  case (Cons p ps)
  obtain w orig q f e where p: "p = (w, orig, q, f, e)" by (cases p)
  from Cons.prems have "ic_files (puts sha256 ps (put sha256 w orig q f e c)) path = Some b"
    by (simp add: puts_def p)
  from Cons.IH [OF this] show ?case
  proof
    assume "ic_files (put sha256 w orig q f e c) path = Some b"
    then have "Write True path b \<in> set (put_ops sha256 w orig q f e c) \<or> ic_files c path = Some b"
      unfolding put_files by (rule fs.provenance)
    then show ?thesis
      by (auto simp: put_ops_def Let_def p split: if_splits)
  qed (auto simp: p)
qed (simp add: puts_def)

text \<open>
  A hit is the re-encoding of exactly the bytes in hand. Whatever was put into an empty cache,
  whichever writes failed and whenever it was swept, what \<open>get\<close> returns was put there for these
  bytes, this quality and this form, as long as SHA-256 tells the images involved apart.
\<close>

theorem image_hit_is_own_encoding:
  assumes "ic_files c = Map.empty"
    and "inj_on sha256 (insert original ((\<lambda>(w, orig, q, f, e). orig) ` set ps))"
    and "fst (get sha256 original q f (puts sha256 ps c) m) = Some b"
  shows "\<exists>w. (w, original, q, f, b) \<in> set ps"
proof -
  have dir: "ic_dir (puts sha256 ps c) = ic_dir c" for c
    by (induction ps arbitrary: c) (auto simp: puts_def)
  have "ic_files (puts sha256 ps c) (path_for sha256 c original q f) = Some b"
    using assms(3) by (simp add: get_def Let_def path_for_def dir)
  with assms(1) obtain w orig q' f' where p: "(w, orig, q', f', b) \<in> set ps"
    "path_for sha256 c original q f = path_for sha256 c orig q' f'"
    using puts_provenance by fastforce
  from path_for_inj [OF p(2)] have "sha256 original = sha256 orig" "q = q'" "f = f'" by auto
  moreover have "orig \<in> (\<lambda>(w, orig, q, f, e). orig) ` set ps" using p(1) by force
  ultimately have "original = orig" by (intro inj_onD [OF assms(2), of original orig]) simp_all
  with p \<open>q = q'\<close> \<open>f = f'\<close> show ?thesis by blast
qed

definition empty_cache :: image_cache where
  "empty_cache = \<lparr>ic_dir = ''/var/cache/images'', ic_budget = 100, since_sweep = 0, ic_files = Map.empty\<rparr>"

theorem image_hit_is_own_encoding_witness:
  "\<exists>w. (w, [1, 2, 3] :: bytes, 80 :: nat, GreyForm, [7]) \<in> set [(quiet, [1, 2], 80, GreyForm, [6]), (quiet, [1, 2, 3], 80, GreyForm, [7::u8])]"
proof (rule image_hit_is_own_encoding [of empty_cache id _ _ _ _ default_metrics])
  show "fst (get id [1, 2, 3] 80 GreyForm (puts id
      [(quiet, [1, 2], 80, GreyForm, [6]), (quiet, [1, 2, 3], 80, GreyForm, [7])] empty_cache) default_metrics) = Some [7]"
    by (simp add: get_def puts_def put_def Let_def empty_cache_def SWEEP_EVERY_def path_for_def)
qed (simp_all add: empty_cache_def)

end
