(* ===== verification/Httpcache.thy ===== *)
theory Httpcache
  imports Filestore Metrics
begin

text \<open>
  \<open>src/proxy/src/httpcache.rs\<close>: which exchanges a shared cache may keep, for how long, under
  which name, and the two files an entry is kept in. SHA-256 and the JSON coder of an entry are
  parameters; the clock (seconds) is an argument. Log lines and the process-wide instance are
  left out.
\<close>

section \<open>What an origin and a client say\<close>

definition KEYED_ON :: "str list" where
  "KEYED_ON = [''accept'', ''accept-encoding'']"

record entry =
  en_status :: nat
  en_headers :: headers
  fresh_until :: nat
  stored_at :: nat
  en_etag :: "str option"
  en_last_modified :: "str option"

definition is_fresh :: "nat \<Rightarrow> entry \<Rightarrow> bool" where
  "is_fresh now e \<longleftrightarrow> now < fresh_until e"

definition can_revalidate :: "entry \<Rightarrow> bool" where
  "can_revalidate e \<longleftrightarrow> en_etag e \<noteq> None \<or> en_last_modified e \<noteq> None"

definition joined :: "headers \<Rightarrow> str \<Rightarrow> str" where
  "joined hs name = join '', '' (map (\<lambda>(n, v). trim v) (filter (\<lambda>(n, v). eq_ci n name) hs))"

datatype client_demand = Anything | Revalidated | NotEvenStored

definition client_wants :: "proxy_request \<Rightarrow> client_demand" where
  "client_wants req =
     (let control = to_lower (joined (rq_headers req) ''cache-control'');
          pragma = to_lower (joined (rq_headers req) ''pragma'')
      in if contains control ''no-store'' then NotEvenStored
         else if contains control ''no-cache'' \<or> contains pragma ''no-cache'' then Revalidated
         else Anything)"

definition carries_credentials :: "proxy_request \<Rightarrow> bool" where
  "carries_credentials req \<longleftrightarrow> header (rq_headers req) ''authorization'' \<noteq> None"

fun find_directive :: "str \<Rightarrow> str list \<Rightarrow> str option" where
  \<comment> \<open>\<open>parts.find_map(|part| part.trim().strip_prefix(directive))\<close>\<close>
  "find_directive d [] = None"
| "find_directive d (part # parts) =
     (case strip_prefix (trim part) d of Some v \<Rightarrow> Some v | None \<Rightarrow> find_directive d parts)"

definition directive_seconds :: "str \<Rightarrow> str \<Rightarrow> nat option" where
  "directive_seconds control d =
     (case find_directive d (split_on (\<lambda>c. c = CHR '','') control) of
        None \<Rightarrow> None
      | Some v \<Rightarrow> parse_u64 (trim v))"

definition freshness :: "headers \<Rightarrow> nat option" where
  "freshness hs =
     (let control = to_lower (joined hs ''cache-control'') in
      case directive_seconds control ''s-maxage='' of
        Some n \<Rightarrow> Some n
      | None \<Rightarrow> directive_seconds control ''max-age='')"

definition SCRIPTS :: "str list" where
  "SCRIPTS = [''application/javascript'', ''text/javascript'', ''application/x-javascript'']"

definition FONTS :: "str list" where
  "FONTS = [''application/font-woff'', ''application/vnd.ms-fontobject'', ''application/x-font-ttf'']"

datatype asset_kind = Static | Style | Script | Other

definition kind :: "headers \<Rightarrow> asset_kind" where
  "kind hs =
     (case header hs ''content-type'' of
        None \<Rightarrow> Other
      | Some v \<Rightarrow>
          (let media = to_lower (trim (hd (split_on (\<lambda>c. c = CHR '';'') v)))
           in if starts_with media ''image/'' \<or> starts_with media ''font/'' \<or> media \<in> set FONTS then Static
              else if media = ''text/css'' then Style
              else if media \<in> set SCRIPTS then Script
              else Other))"

definition looks_fingerprinted :: "str \<Rightarrow> bool" where
  "looks_fingerprinted url =
     (let path = hd (split_on (\<lambda>c. c = CHR ''?'' \<or> c = CHR ''#'') url);
          name = last (split_on (\<lambda>c. c = CHR ''/'') path)
      in list_ex (\<lambda>segment.
           let long_enough = 8 \<le> length segment \<and> length segment \<le> 64;
               mixed = list_ex is_digit segment \<and> list_ex is_alpha segment;
               plausible = list_all (\<lambda>c. is_digit c \<or> is_lower c) segment
           in long_enough \<and> mixed \<and> plausible)
         (split_on (\<lambda>c. c = CHR ''.'' \<or> c = CHR ''-'' \<or> c = CHR ''_'') name))"

definition forbids :: "str \<Rightarrow> bool" where
  "forbids control \<longleftrightarrow> list_ex (contains control) [''private'', ''no-store'', ''no-cache'']"

definition all_keyed :: "str \<Rightarrow> bool" where
  "all_keyed vary \<longleftrightarrow> list_all (\<lambda>name. to_lower (trim name) \<in> set KEYED_ON) (split_on (\<lambda>c. c = CHR '','') vary)"

definition eligible :: "proxy_request \<Rightarrow> nat \<Rightarrow> headers \<Rightarrow> bool" where
  "eligible req status hs =
     (if status \<noteq> 200 then False
      else if \<not> eq_ci (rq_method req) ''GET'' then False
      else if client_wants req = NotEvenStored then False
      else if carries_credentials req then False
      else if kind hs = Other then False
      else if header hs ''set-cookie'' \<noteq> None then False
      else if forbids (to_lower (joined hs ''cache-control'')) then False
      else (let vary = joined hs ''vary'' in
        if vary \<noteq> [] \<and> \<not> all_keyed vary then False
        else (let validated = header hs ''etag'' \<noteq> None \<or> header hs ''last-modified'' \<noteq> None in
          case kind hs of
            Static \<Rightarrow> freshness hs \<noteq> None \<or> validated
          | Style \<Rightarrow> freshness hs \<noteq> None \<or> validated
          | Script \<Rightarrow> freshness hs \<noteq> None \<or> validated \<and> looks_fingerprinted (rq_url req)
          | Other \<Rightarrow> False)))"

section \<open>Names, entries, ages\<close>

definition material :: "proxy_request \<Rightarrow> str" where
  "material req =
     fold (\<lambda>name m. m @ [char_of (10 :: nat)] @ (case header (rq_headers req) name of Some v \<Rightarrow> v | None \<Rightarrow> []))
       KEYED_ON (rq_url req)"

definition key :: "(bytes \<Rightarrow> bytes) \<Rightarrow> proxy_request \<Rightarrow> str" where
  "key sha256 req = hex (sha256 (as_bytes (material req)))"

definition age :: "headers \<Rightarrow> nat" where
  "age hs =
     (case header hs ''age'' of
        None \<Rightarrow> 0
      | Some v \<Rightarrow> (case parse_u64 (trim v) of None \<Rightarrow> 0 | Some n \<Rightarrow> n))"

definition entry_for :: "nat \<Rightarrow> headers \<Rightarrow> nat \<Rightarrow> entry" where
  "entry_for status hs now =
     (let arrived_at = age hs;
          hs = without ''age'' hs;
          lifetime = (case freshness hs of Some d \<Rightarrow> d - arrived_at | None \<Rightarrow> 0)
      in \<lparr>en_status = status, en_headers = hs, fresh_until = min (now + lifetime) u64_max, stored_at = now,
          en_etag = header hs ''etag'', en_last_modified = header hs ''last-modified''\<rparr>)"

definition describes_the_body :: "str \<Rightarrow> bool" where
  "describes_the_body name \<longleftrightarrow>
     to_lower name \<in> set [''content-length'', ''content-encoding'', ''content-range'', ''content-type'']"

definition refreshed_headers :: "headers \<Rightarrow> headers \<Rightarrow> headers" where
  "refreshed_headers kept new_ones =
     (let updating = filter (\<lambda>(n, v). \<not> describes_the_body n) new_ones
      in filter (\<lambda>(n, v). \<not> list_ex (\<lambda>(f, w). eq_ci f n) updating) kept @ updating)"

definition as_response :: "nat \<Rightarrow> entry \<Rightarrow> bytes \<Rightarrow> proxy_response" where
  "as_response now e body =
     \<lparr>rs_status = en_status e,
      rs_headers = without ''age'' (en_headers e) @ [(''age'', show_nat (now - stored_at e))],
      rs_body = body\<rparr>"

section \<open>The store\<close>

definition SWEEP_FRACTION :: nat where "SWEEP_FRACTION = 8"

record origin_cache =
  oc_dir :: str
  oc_budget :: nat
  unswept :: nat
  oc_files :: files

definition new :: "config \<Rightarrow> bool \<Rightarrow> io \<Rightarrow> files \<Rightarrow> origin_cache option" where
  \<comment> \<open>\<open>made\<close> is whether the directory could be created\<close>
  "new c made w disk =
     (let budget = origin_cache_mb (images_section c) * 1024 * 1024 in
      if budget = 0 then None
      else if \<not> made then None
      else Some \<lparr>oc_dir = path_join (cache_dir (paths_section c)) ''origins'', oc_budget = budget, unswept = 0,
             oc_files = remove_files (swept_away w budget) disk\<rparr>)"

definition meta_path :: "origin_cache \<Rightarrow> str \<Rightarrow> str" where
  "meta_path c k = path_join (oc_dir c) (k @ ''.meta'')"

definition body_path :: "origin_cache \<Rightarrow> str \<Rightarrow> str" where
  "body_path c k = path_join (oc_dir c) (k @ ''.body'')"

definition read_meta :: "(bytes \<Rightarrow> entry option) \<Rightarrow> str \<Rightarrow> origin_cache \<Rightarrow> entry option" where
  "read_meta from_slice k c = Option.bind (oc_files c (meta_path c k)) from_slice"

definition read_body :: "str \<Rightarrow> origin_cache \<Rightarrow> bytes option" where
  "read_body k c = oc_files c (body_path c k)"

definition get :: "(bytes \<Rightarrow> entry option) \<Rightarrow> str \<Rightarrow> origin_cache \<Rightarrow> (entry \<times> bytes) option" where
  "get from_slice k c =
     Option.bind (read_meta from_slice k c) (\<lambda>e. Option.bind (read_body k c) (\<lambda>b. Some (e, b)))"

definition put_body :: "io \<Rightarrow> str \<Rightarrow> bytes \<Rightarrow> origin_cache \<Rightarrow> origin_cache" where
  "put_body w k body c = c\<lparr>oc_files := replace_file (may_replace w (body_path c k)) (body_path c k) body (oc_files c)\<rparr>"

definition put_meta :: "io \<Rightarrow> str \<Rightarrow> bytes \<Rightarrow> bytes \<Rightarrow> origin_cache \<Rightarrow> origin_cache" where
  \<comment> \<open>the rest of a put, once the body is in place; \<open>unswept\<close> stays below the limit, so its 64-bit
    sum does not wrap\<close>
  "put_meta w k meta body c =
     (if \<not> may_replace w (meta_path c k)
      then c\<lparr>oc_files := remove_files (\<lambda>p. p = body_path c k \<and> may_remove w p) (oc_files c)\<rparr>
      else
        (let files = replace_file True (meta_path c k) meta (oc_files c);
             written = length body + length meta;
             limit = max (oc_budget c div SWEEP_FRACTION) 1
         in if unswept c + written \<ge> limit
            then c\<lparr>unswept := 0, oc_files := remove_files (swept_away w (oc_budget c)) files\<rparr>
            else c\<lparr>unswept := unswept c + written, oc_files := files\<rparr>))"

definition put :: "(entry \<Rightarrow> bytes option) \<Rightarrow> io \<Rightarrow> str \<Rightarrow> entry \<Rightarrow> bytes \<Rightarrow> origin_cache \<Rightarrow> origin_cache" where
  "put to_vec w k e body c =
     (case to_vec e of
        None \<Rightarrow> c
      | Some meta \<Rightarrow>
          if \<not> may_replace w (body_path c k) then c
          else put_meta w k meta body (put_body w k body c))"

definition forget :: "io \<Rightarrow> str \<Rightarrow> origin_cache \<Rightarrow> origin_cache" where
  "forget w k c =
     c\<lparr>oc_files := remove_files (\<lambda>p. p = body_path c k \<and> may_remove w p)
        (remove_files (\<lambda>p. p = meta_path c k \<and> may_remove w p) (oc_files c))\<rparr>"

section \<open>What may be stored\<close>

lemma line_in_joined:
  assumes "(n, v) \<in> set hs" and "eq_ci n name" and "contains (to_lower v) pat"
    and "pat \<noteq> []" and "\<forall>c\<in>set pat. graphic c"
  shows "contains (to_lower (joined hs name)) pat"
proof -
  have "contains (to_lower (trim v)) pat" using assms(3-5) by (rule contains_lower_trim)
  moreover have "to_lower (trim v) \<in> set (map to_lower (map (\<lambda>(n, v). trim v) (filter (\<lambda>(n, v). eq_ci n name) hs)))"
    using assms(1,2) by force
  ultimately show ?thesis unfolding joined_def to_lower_join by (intro contains_join)
qed

lemma all_keyed_append: "all_keyed (a @ '', '' @ b) \<longleftrightarrow> all_keyed a \<and> all_keyed b"
proof -
  let ?split = "split_on (\<lambda>c. c = CHR '','')"
  obtain f r where b: "?split b = f # r" by (cases "?split b") auto
  have "?split (a @ CHR '','' # (CHR '' '' # b)) = ?split a @ ?split (CHR '' '' # b)"
    by (rule split_on_append) simp
  moreover have "?split (CHR '' '' # b) = (CHR '' '' # f) # r" by (simp add: b)
  ultimately show ?thesis by (simp add: all_keyed_def b trim_space)
qed

lemma all_keyed_join: "all_keyed (join '', '' vs) \<Longrightarrow> v \<in> set vs \<Longrightarrow> all_keyed v"
  by (induction vs) (auto simp: join_Cons all_keyed_append [simplified] split: if_splits)

lemma graphic_words:
  "\<forall>c\<in>set ''private''. graphic c" "\<forall>c\<in>set ''no-store''. graphic c" "\<forall>c\<in>set ''no-cache''. graphic c"
  by (simp_all add: graphic_def)

lemma eligible_iff:
  "eligible req status hs \<longleftrightarrow> status = 200 \<and> eq_ci (rq_method req) ''GET'' \<and> client_wants req \<noteq> NotEvenStored
     \<and> \<not> carries_credentials req \<and> kind hs \<noteq> Other \<and> header hs ''set-cookie'' = None
     \<and> \<not> forbids (to_lower (joined hs ''cache-control''))
     \<and> (joined hs ''vary'' = [] \<or> all_keyed (joined hs ''vary''))
     \<and> (freshness hs \<noteq> None \<or> (header hs ''etag'' \<noteq> None \<or> header hs ''last-modified'' \<noteq> None)
         \<and> (kind hs = Script \<longrightarrow> looks_fingerprinted (rq_url req)))"
  by (auto simp: eligible_def Let_def split: asset_kind.splits)

lemma joined_Nil: "joined hs name = [] \<Longrightarrow> (n, v) \<in> set hs \<Longrightarrow> eq_ci n name \<Longrightarrow> trim v = []"
proof -
  assume j: "joined hs name = []" and "(n, v) \<in> set hs" "eq_ci n name"
  then have "trim v \<in> set (map (\<lambda>(n, v). trim v) (filter (\<lambda>(n, v). eq_ci n name) hs))" by force
  from join_infix [OF this, of "'', ''"] j show ?thesis by (auto simp: joined_def)
qed

text \<open>
  C37: what may be stored is public on every line the origin sent, not only on the first: a 200 to a
  GET that was not made as anybody in particular and did not refuse storage, of a static kind,
  with no cookie set, no line of \<open>cache-control\<close> saying private, no-store or no-cache in any case,
  and no line of \<open>vary\<close> naming anything but the two headers entries are filed under; and a script
  comes with a lifetime or with a fingerprint in its name.
\<close>

theorem stored_is_public:
  assumes "eligible req status hs"
  shows "status = 200 \<and> eq_ci (rq_method req) ''GET''
    \<and> (\<forall>(n, v)\<in>set (rq_headers req). \<not> eq_ci n ''authorization''
        \<and> (eq_ci n ''cache-control'' \<longrightarrow> \<not> contains (to_lower v) ''no-store''))
    \<and> (\<forall>(n, v)\<in>set hs. \<not> eq_ci n ''set-cookie''
        \<and> (eq_ci n ''cache-control'' \<longrightarrow> \<not> contains (to_lower v) ''private''
            \<and> \<not> contains (to_lower v) ''no-store'' \<and> \<not> contains (to_lower v) ''no-cache'')
        \<and> (eq_ci n ''vary'' \<longrightarrow> trim v = [] \<or> (\<forall>name\<in>set (split_on (\<lambda>c. c = CHR '','') (trim v)).
              to_lower (trim name) \<in> set KEYED_ON)))
    \<and> kind hs \<noteq> Other
    \<and> (kind hs = Script \<longrightarrow> freshness hs \<noteq> None \<or> looks_fingerprinted (rq_url req))"
proof -
  note e = assms [unfolded eligible_iff]
  have req: "\<not> eq_ci n ''authorization'' \<and> (eq_ci n ''cache-control'' \<longrightarrow> \<not> contains (to_lower v) ''no-store'')"
    if "(n, v) \<in> set (rq_headers req)" for n v
    using that e line_in_joined [OF that, of "''cache-control''" "''no-store''"] graphic_words
    by (auto simp: carries_credentials_def header_None_iff client_wants_def Let_def)
  have control: "\<not> contains (to_lower v) pat"
    if "(n, v) \<in> set hs" "eq_ci n ''cache-control''" "pat \<in> set [''private'', ''no-store'', ''no-cache'']" for n v pat
    using that e line_in_joined [OF that(1,2), of pat] graphic_words by (auto simp: forbids_def)
  have vary: "trim v = [] \<or> all_keyed (trim v)" if "(n, v) \<in> set hs" "eq_ci n ''vary''" for n v
  proof (cases "joined hs ''vary'' = []")
    case True
    with joined_Nil that show ?thesis by blast
  next
    case False
    with e have "all_keyed (joined hs ''vary'')" by blast
    moreover have "trim v \<in> set (map (\<lambda>(n, v). trim v) (filter (\<lambda>(n, v). eq_ci n ''vary'') hs))"
      using that by force
    ultimately show ?thesis unfolding joined_def by (blast intro: all_keyed_join)
  qed
  have cookie: "\<not> eq_ci n ''set-cookie''" if "(n, v) \<in> set hs" for n v
    using that e by (auto simp: header_None_iff)
  have control': "\<not> contains (to_lower v) ''private'' \<and> \<not> contains (to_lower v) ''no-store''
      \<and> \<not> contains (to_lower v) ''no-cache''" if "(n, v) \<in> set hs" "eq_ci n ''cache-control''" for n v
    using control [OF that] by simp
  have "\<forall>(n, v)\<in>set hs. \<not> eq_ci n ''set-cookie''
      \<and> (eq_ci n ''cache-control'' \<longrightarrow> \<not> contains (to_lower v) ''private''
          \<and> \<not> contains (to_lower v) ''no-store'' \<and> \<not> contains (to_lower v) ''no-cache'')
      \<and> (eq_ci n ''vary'' \<longrightarrow> trim v = [] \<or> (\<forall>name\<in>set (split_on (\<lambda>c. c = CHR '','') (trim v)).
            to_lower (trim name) \<in> set KEYED_ON))"
    using cookie control' vary [unfolded all_keyed_def list_all_iff] by fast
  moreover have "\<forall>(n, v)\<in>set (rq_headers req). \<not> eq_ci n ''authorization''
      \<and> (eq_ci n ''cache-control'' \<longrightarrow> \<not> contains (to_lower v) ''no-store'')"
    using req by blast
  ultimately show ?thesis using e by blast
qed

definition plain_get :: "headers \<Rightarrow> proxy_request" where
  "plain_get hs = \<lparr>rq_method = ''GET'', rq_url = ''https://a.example/logo.png'', rq_headers = hs, rq_body = [],
     rq_peer = None\<rparr>"

theorem stored_is_public_witness:
  "eligible (plain_get []) 200 [(''Content-Type'', ''image/png''), (''Vary'', ''Accept''), (''ETag'', ''1'')]
    \<and> list_all (\<lambda>name. to_lower (trim name) \<in> set KEYED_ON) (split_on (\<lambda>c. c = CHR '','') (trim ''Accept''))"
proof -
  have e: "eligible (plain_get []) 200 [(''Content-Type'', ''image/png''), (''Vary'', ''Accept''), (''ETag'', ''1'')]"
    by code_simp
  moreover have "trim ''Accept'' \<noteq> []" "eq_ci ''Vary'' ''vary''" by code_simp+
  ultimately show ?thesis using stored_is_public [OF e] by (auto simp: list_all_iff)
qed

section \<open>Ages\<close>

lemma joined_without: "\<not> eq_ci name other \<Longrightarrow> joined (without name hs) other = joined hs other"
proof -
  assume n: "\<not> eq_ci name other"
  have "filter (\<lambda>(n, v). eq_ci n other) (without name hs) = filter (\<lambda>(n, v). eq_ci n other) hs"
    using n by (auto simp: without_def eq_ci_def intro!: filter_cong)
  then show ?thesis by (simp add: joined_def)
qed

lemma age_not_control: "\<not> eq_ci ''age'' ''cache-control''"
  by code_simp

lemma freshness_without_age [simp]: "freshness (without ''age'' hs) = freshness hs"
  by (simp add: freshness_def joined_without age_not_control)

lemma directive_seconds_le: "directive_seconds control d = Some n \<Longrightarrow> n \<le> u64_max"
  by (auto simp: directive_seconds_def parse_uint_le split: option.splits)

text \<open>
  C38: nothing is served from the cache staler than its origin allowed: while a stored entry counts
  as fresh, the age the response had when it arrived and the time it has spent here together stay
  below the lifetime its own headers state.
\<close>

theorem fresh_means_fresh:
  assumes "is_fresh now (entry_for status hs stored)" and "stored \<le> now"
  shows "\<exists>life. freshness hs = Some life \<and> age hs + (now - stored) < life"
  using assms by (auto simp: is_fresh_def entry_for_def Let_def split: option.splits)

theorem fresh_means_fresh_witness:
  "\<exists>life. freshness [(''Cache-Control'', ''public, max-age=300''), (''Age'', ''295'')] = Some life \<and> 295 + (4::nat) < life"
proof -
  have f: "is_fresh 1004 (entry_for 200 [(''Cache-Control'', ''public, max-age=300''), (''Age'', ''295'')] 1000)"
    by code_simp
  have "age [(''Cache-Control'', ''public, max-age=300''), (''Age'', ''295'')] = 295" by code_simp
  with fresh_means_fresh [OF f] show ?thesis by simp
qed

lemma served_age:
  \<comment> \<open>the age handed on is the time spent here alone: the age on arrival is not in it\<close>
  "header (rs_headers (as_response now (entry_for status hs stored) body)) ''age'' = Some (show_nat (now - stored))"
  by (simp add: as_response_def entry_for_def Let_def header_append)

section \<open>Revalidation\<close>

definition field_lines :: "headers \<Rightarrow> str \<Rightarrow> str list" where
  "field_lines hs name = map snd (filter (\<lambda>(n, v). eq_ci n name) hs)"

lemma describes_eq_ci: "eq_ci a b \<Longrightarrow> describes_the_body a = describes_the_body b"
  by (simp add: describes_the_body_def eq_ci_def)

text \<open>
  A 304 replaces what it says and leaves the rest: for every field name, the refreshed entry has
  the 304's lines when it sent any, unless the field describes the body, and the stored lines
  otherwise.
\<close>

theorem refreshed_field:
  "field_lines (refreshed_headers kept new_ones) name =
     (if describes_the_body name \<or> field_lines new_ones name = [] then field_lines kept name
      else field_lines new_ones name)"
proof -
  let ?up = "filter (\<lambda>(n, v). \<not> describes_the_body n) new_ones"
  have up: "field_lines ?up name = (if describes_the_body name then [] else field_lines new_ones name)"
    by (induction new_ones) (auto simp: field_lines_def describes_eq_ci)
  have any: "list_ex (\<lambda>(f, w). eq_ci f n) ?up \<longleftrightarrow> field_lines ?up name \<noteq> []" if "eq_ci n name" for n
    using that by (induction new_ones) (auto simp: field_lines_def eq_ci_def)
  have kept: "field_lines (filter (\<lambda>(n, v). \<not> list_ex (\<lambda>(f, w). eq_ci f n) ?up) kept) name
      = (if field_lines ?up name \<noteq> [] then [] else field_lines kept name)"
    using any by (induction kept) (auto simp: field_lines_def)
  have "field_lines (refreshed_headers kept new_ones) name
      = field_lines (filter (\<lambda>(n, v). \<not> list_ex (\<lambda>(f, w). eq_ci f n) ?up) kept) name @ field_lines ?up name"
    by (simp add: refreshed_headers_def Let_def field_lines_def)
  then show ?thesis by (simp only: kept up) simp
qed

section \<open>Filing\<close>

lemma material_eq:
  "material req = rq_url req @ [char_of (10 :: nat)]
     @ (case header (rq_headers req) ''accept'' of Some v \<Rightarrow> v | None \<Rightarrow> []) @ [char_of (10 :: nat)]
     @ (case header (rq_headers req) ''accept-encoding'' of Some v \<Rightarrow> v | None \<Rightarrow> [])"
  by (simp add: material_def KEYED_ON_def)

definition one_line :: "str \<Rightarrow> bool" where
  "one_line s \<longleftrightarrow> char_of (10 :: nat) \<notin> set s"

definition stated :: "proxy_request \<Rightarrow> str \<Rightarrow> str" where
  \<comment> \<open>\<open>header(&req.headers, name).unwrap_or_default()\<close>\<close>
  "stated req name = (case header (rq_headers req) name of Some v \<Rightarrow> v | None \<Rightarrow> [])"

definition one_lined :: "proxy_request \<Rightarrow> bool" where
  "one_lined req \<longleftrightarrow> one_line (rq_url req) \<and> one_line (stated req ''accept'') \<and> one_line (stated req ''accept-encoding'')"

text \<open>
  Two requests filed under the same name ask for the same URL with the same first \<open>accept\<close>
  and the same first \<open>accept-encoding\<close>, as long as SHA-256 tells their two descriptions apart and
  neither holds a line feed (a URL or a header value cannot).
\<close>

theorem key_tells_apart:
  assumes "inj_on sha256 {as_bytes (material a), as_bytes (material b)}"
    and "one_lined a" and "one_lined b" and "key sha256 a = key sha256 b"
  shows "rq_url a = rq_url b \<and> stated a ''accept'' = stated b ''accept''
    \<and> stated a ''accept-encoding'' = stated b ''accept-encoding''"
proof -
  let ?nl = "char_of (10 :: nat) :: char"
  have "sha256 (as_bytes (material a)) = sha256 (as_bytes (material b))"
    using assms(4) by (auto simp: key_def dest: hex_inj)
  then have "material a = material b"
    using inj_onD [OF assms(1), of "as_bytes (material a)" "as_bytes (material b)"] by (simp add: as_bytes_inj)
  then have m: "rq_url a @ ?nl # (stated a ''accept'' @ ?nl # stated a ''accept-encoding'')
      = rq_url b @ ?nl # (stated b ''accept'' @ ?nl # stated b ''accept-encoding'')"
    by (simp add: material_eq stated_def)
  from cut_at [OF m] assms(2,3) have u: "rq_url a = rq_url b"
    and r: "stated a ''accept'' @ ?nl # stated a ''accept-encoding''
      = stated b ''accept'' @ ?nl # stated b ''accept-encoding''"
    by (simp_all add: one_lined_def one_line_def)
  from cut_at [OF r] assms(2,3) u show ?thesis by (simp add: one_lined_def one_line_def)
qed

theorem key_tells_apart_witness:
  "rq_url (plain_get [(''Accept'', ''image/webp'')]) = rq_url (plain_get [(''accept'', ''image/webp''), (''DNT'', ''1'')])
    \<and> stated (plain_get [(''Accept'', ''image/webp'')]) ''accept'' = ''image/webp''"
proof -
  have "key id (plain_get [(''Accept'', ''image/webp'')]) = key id (plain_get [(''accept'', ''image/webp''), (''DNT'', ''1'')])"
    "one_lined (plain_get [(''Accept'', ''image/webp'')])"
    "one_lined (plain_get [(''accept'', ''image/webp''), (''DNT'', ''1'')])"
    "stated (plain_get [(''Accept'', ''image/webp'')]) ''accept'' = ''image/webp''"
    by code_simp+
  with key_tells_apart [of id "plain_get [(''Accept'', ''image/webp'')]"
      "plain_get [(''accept'', ''image/webp''), (''DNT'', ''1'')]"]
  show ?thesis by simp
qed

lemma second_accept_line_not_in_key:
  \<comment> \<open>only the first line of a keyed header is in the name\<close>
  "key sha256 (plain_get [(''Accept'', ''text/css''), (''Accept'', ''image/webp'')]) = key sha256 (plain_get [(''Accept'', ''text/css'')])"
proof -
  have "material (plain_get [(''Accept'', ''text/css''), (''Accept'', ''image/webp'')]) = material (plain_get [(''Accept'', ''text/css'')])"
    by code_simp
  then show ?thesis by (simp add: key_def)
qed

section \<open>The two files of an entry\<close>

definition key_ok :: "str \<Rightarrow> bool" where
  "key_ok k \<longleftrightarrow> \<not> starts_with k ''/'' \<and> k \<noteq> []"

lemma key_ok_key: "sha256 (as_bytes (material req)) \<noteq> [] \<Longrightarrow> key_ok (key sha256 req)"
proof -
  assume "sha256 (as_bytes (material req)) \<noteq> []"
  then obtain c r where k: "key sha256 req = c # r"
    by (cases "sha256 (as_bytes (material req))") (auto simp: key_def hex_def hex_byte_def)
  then have "is_alnum c" using hex_alnum [of c "sha256 (as_bytes (material req))"] by (simp add: key_def)
  with k show ?thesis
    by (auto simp: key_ok_def is_alnum_def is_alpha_def is_digit_def is_upper_def is_lower_def)
qed

lemma key_ok_relative: "key_ok k \<Longrightarrow> \<not> starts_with (k @ ext) ''/''"
  by (cases k) (auto simp: key_ok_def)

lemma paths_differ:
  assumes "key_ok k" and "key_ok l"
  shows "meta_path c k = meta_path c l \<longleftrightarrow> k = l" "body_path c k = body_path c l \<longleftrightarrow> k = l"
    "meta_path c k \<noteq> body_path c l" "body_path c l \<noteq> meta_path c k"
proof -
  have "k @ ''.meta'' \<noteq> l @ ''.body''" by (auto dest: arg_cong [where f = last])
  then show "meta_path c k = meta_path c l \<longleftrightarrow> k = l" "body_path c k = body_path c l \<longleftrightarrow> k = l"
    "meta_path c k \<noteq> body_path c l" "body_path c l \<noteq> meta_path c k"
    using assms by (auto simp: meta_path_def body_path_def path_join_inj key_ok_relative)
qed

datatype cache_event = Put io str entry bytes | Forget io str

fun event_key :: "cache_event \<Rightarrow> str" where
  "event_key (Put w k e b) = k"
| "event_key (Forget w k) = k"

fun happen :: "(entry \<Rightarrow> bytes option) \<Rightarrow> cache_event \<Rightarrow> origin_cache \<Rightarrow> origin_cache" where
  "happen to_vec (Put w k e b) c = put to_vec w k e b c"
| "happen to_vec (Forget w k) c = forget w k c"

fun event_ops :: "(entry \<Rightarrow> bytes option) \<Rightarrow> cache_event \<Rightarrow> origin_cache \<Rightarrow> fop list" where
  \<comment> \<open>an event as writes and removals\<close>
  "event_ops to_vec (Put w k e b) c =
     (case to_vec e of
        None \<Rightarrow> []
      | Some meta \<Rightarrow>
          if \<not> may_replace w (body_path c k) then []
          else Write True (body_path c k) b #
            (if \<not> may_replace w (meta_path c k) then [Remove (\<lambda>p. p = body_path c k \<and> may_remove w p)]
             else Write True (meta_path c k) meta #
               (if unswept c + (length b + length meta) \<ge> max (oc_budget c div SWEEP_FRACTION) 1
                then [Remove (swept_away w (oc_budget c))] else [])))"
| "event_ops to_vec (Forget w k) c =
     [Remove (\<lambda>p. p = meta_path c k \<and> may_remove w p), Remove (\<lambda>p. p = body_path c k \<and> may_remove w p)]"

lemma put_oc_dir [simp]: "oc_dir (put to_vec w k e b c) = oc_dir c"
  by (simp add: put_def put_body_def put_meta_def Let_def split: option.splits)

lemma happen_dir [simp]: "oc_dir (happen to_vec ev c) = oc_dir c"
  by (cases ev) (simp_all add: forget_def)

lemma happen_paths [simp]:
  "meta_path (happen to_vec ev c) k = meta_path c k" "body_path (happen to_vec ev c) k = body_path c k"
  by (simp_all add: meta_path_def body_path_def)

lemma put_body_simps [simp]:
  "oc_dir (put_body w k b c) = oc_dir c" "oc_budget (put_body w k b c) = oc_budget c"
  "unswept (put_body w k b c) = unswept c"
  "oc_files (put_body w k b c) = replace_file (may_replace w (body_path c k)) (body_path c k) b (oc_files c)"
  "meta_path (put_body w k b c) l = meta_path c l" "body_path (put_body w k b c) l = body_path c l"
  by (simp_all add: put_body_def meta_path_def body_path_def)

lemma happen_files: "oc_files (happen to_vec ev c) = fold fs.perform (event_ops to_vec ev c) (oc_files c)"
  by (cases ev) (auto simp: put_def put_meta_def forget_def Let_def split: option.splits)

lemma event_writes:
  assumes "Write True p b \<in> set (event_ops to_vec ev c)"
  shows "\<exists>w k e body. ev = Put w k e body \<and> (p = body_path c k \<and> b = body \<or> p = meta_path c k \<and> to_vec e = Some b)"
  using assms by (cases ev) (auto split: option.splits if_splits)

lemma history_provenance:
  assumes "oc_files (fold (happen to_vec) evs c) p = Some b"
  shows "oc_files c p = Some b \<or> (\<exists>w k e body. Put w k e body \<in> set evs
    \<and> (p = body_path c k \<and> b = body \<or> p = meta_path c k \<and> to_vec e = Some b))"
  using assms
proof (induction evs arbitrary: c)
  case (Cons ev evs)
  from Cons.prems have "oc_files (fold (happen to_vec) evs (happen to_vec ev c)) p = Some b" by simp
  from Cons.IH [OF this] show ?case
  proof
    assume "oc_files (happen to_vec ev c) p = Some b"
    then have "Write True p b \<in> set (event_ops to_vec ev c) \<or> oc_files c p = Some b"
      unfolding happen_files by (rule fs.provenance)
    then show ?thesis using event_writes [of p b to_vec ev c] by fastforce
  next
    assume "\<exists>w k e body. Put w k e body \<in> set evs \<and> (p = body_path (happen to_vec ev c) k \<and> b = body
        \<or> p = meta_path (happen to_vec ev c) k \<and> to_vec e = Some b)"
    then show ?thesis by fastforce
  qed
qed simp

lemma get_Some:
  "get from_slice k c = Some (e, b) \<longleftrightarrow>
     (\<exists>m. oc_files c (meta_path c k) = Some m \<and> from_slice m = Some e \<and> oc_files c (body_path c k) = Some b)"
  by (auto simp: get_def read_meta_def read_body_def Option.bind_eq_Some_conv)

lemma fold_happen_paths [simp]:
  "meta_path (fold (happen to_vec) evs c) k = meta_path c k" "body_path (fold (happen to_vec) evs c) k = body_path c k"
  by (induction evs arbitrary: c) simp_all

text \<open>
  C39: the cache never answers with another entry's bytes: after any history of puts and forgets of
  a cache that started empty, with any writes and removals refused and any sweeps in between, a
  hit pairs an entry put under this key with a body put under this key.
\<close>

theorem cached_was_put:
  assumes "oc_files c = Map.empty" and "key_ok k" and "\<forall>ev\<in>set evs. key_ok (event_key ev)"
    and "\<forall>w l e b m. Put w l e b \<in> set evs \<longrightarrow> to_vec e = Some m \<longrightarrow> from_slice m = Some e"
    and "get from_slice k (fold (happen to_vec) evs c) = Some (e, b)"
  shows "(\<exists>w b'. Put w k e b' \<in> set evs) \<and> (\<exists>w e'. Put w k e' b \<in> set evs)"
proof -
  let ?c = "fold (happen to_vec) evs c"
  from assms(5) obtain m where m: "oc_files ?c (meta_path c k) = Some m" "from_slice m = Some e"
    and b: "oc_files ?c (body_path c k) = Some b" by (auto simp: get_Some)
  have keyed: "key_ok l" if "Put w l e b \<in> set evs" for w l e b using assms(3) that by fastforce
  from history_provenance [OF m(1)] assms(1) obtain w l e' body where
    1: "Put w l e' body \<in> set evs" "meta_path c k = body_path c l \<or> meta_path c k = meta_path c l \<and> to_vec e' = Some m"
    by auto
  from 1(2) paths_differ [OF assms(2) keyed [OF 1(1)]] have "l = k" "to_vec e' = Some m" by auto
  with 1(1) assms(4) m(2) have "Put w k e body \<in> set evs" by (metis option.inject)
  moreover from history_provenance [OF b] assms(1) obtain w2 l2 e2 body2 where
    2: "Put w2 l2 e2 body2 \<in> set evs" "body_path c k = body_path c l2 \<and> b = body2 \<or> body_path c k = meta_path c l2"
    by auto
  from 2(2) paths_differ(2) [OF assms(2) keyed [OF 2(1)], of c] paths_differ(3) [OF keyed [OF 2(1)] assms(2), of c]
  have "l2 = k \<and> b = body2" by auto
  with 2(1) have "Put w2 k e2 b \<in> set evs" by simp
  ultimately show ?thesis by blast
qed

definition sample_entry :: entry where
  "sample_entry = \<lparr>en_status = 200, en_headers = [], fresh_until = 9, stored_at = 1, en_etag = None, en_last_modified = None\<rparr>"

definition sample_cache :: origin_cache where
  "sample_cache = \<lparr>oc_dir = ''/var/cache/origins'', oc_budget = 1024, unswept = 0, oc_files = Map.empty\<rparr>"

theorem cached_was_put_witness:
  "(\<exists>w b'. Put w ''ab'' sample_entry b' \<in> set [Put quiet ''ab'' sample_entry [5], Put quiet ''cd'' sample_entry [6]])
    \<and> (\<exists>w e'. Put w ''ab'' e' [5] \<in> set [Put quiet ''ab'' sample_entry [5], Put quiet ''cd'' sample_entry [6]])"
proof (rule cached_was_put [where c = sample_cache and to_vec = "\<lambda>_. Some [1]" and from_slice = "\<lambda>_. Some sample_entry"])
  have p: "meta_path sample_cache ''ab'' = ''/var/cache/origins/ab.meta''" "body_path sample_cache ''ab'' = ''/var/cache/origins/ab.body''"
    "meta_path sample_cache ''cd'' = ''/var/cache/origins/cd.meta''" "body_path sample_cache ''cd'' = ''/var/cache/origins/cd.body''"
    by code_simp+
  have "oc_files (fold (happen (\<lambda>_. Some [1])) [Put quiet ''ab'' sample_entry [5], Put quiet ''cd'' sample_entry [6]] sample_cache)
      = [''/var/cache/origins/ab.body'' \<mapsto> [5], ''/var/cache/origins/ab.meta'' \<mapsto> [1],
         ''/var/cache/origins/cd.body'' \<mapsto> [6], ''/var/cache/origins/cd.meta'' \<mapsto> [1]]"
    by (simp add: happen_files p del: happen.simps) (simp add: sample_cache_def)
  then show "get (\<lambda>_. Some sample_entry) ''ab'' (fold (happen (\<lambda>_. Some [1]))
      [Put quiet ''ab'' sample_entry [5], Put quiet ''cd'' sample_entry [6]] sample_cache) = Some (sample_entry, [5])"
    by (simp add: get_Some p del: happen.simps fold_simps)
qed (auto simp: sample_cache_def key_ok_def)

lemma meta_body_path: "meta_path c k \<noteq> body_path c k"
  by (auto simp: meta_path_def body_path_def path_join_def split: if_splits dest: arg_cong [where f = last])

lemma get_put:
  assumes "to_vec e = Some m" and "from_slice m = Some e"
    and "may_replace w (body_path c k)" and "may_replace w (meta_path c k)"
    and "\<not> swept_away w (oc_budget c) (body_path c k)" and "\<not> swept_away w (oc_budget c) (meta_path c k)"
  shows "get from_slice k (put to_vec w k e b c) = Some (e, b)"
proof -
  have "meta_path (put to_vec w k e b c) k = meta_path c k" "body_path (put to_vec w k e b c) k = body_path c k"
    by (simp_all add: meta_path_def body_path_def)
  then show ?thesis
    unfolding get_Some using assms meta_body_path [of c k]
    by (auto simp: put_def put_meta_def Let_def remove_files_def)
qed

lemma get_forget: "may_remove w (meta_path c k) \<Longrightarrow> get from_slice k (forget w k c) = None"
  by (simp add: get_def read_meta_def forget_def meta_path_def remove_files_def)

text \<open>
  What was put is what is got, when the file system grants the writes and no sweep takes the
  files: the entry and its body come back, and after a forget whose first removal is granted the
  key is a miss.
\<close>

theorem put_get_forget:
  assumes "to_vec e = Some m" and "from_slice m = Some e"
    and "may_replace w (body_path c k)" and "may_replace w (meta_path c k)"
    and "\<not> swept_away w (oc_budget c) (body_path c k)" and "\<not> swept_away w (oc_budget c) (meta_path c k)"
    and "may_remove w (meta_path c k)"
  shows "get from_slice k (put to_vec w k e b c) = Some (e, b)
    \<and> get from_slice k (forget w k (put to_vec w k e b c)) = None"
  using get_put [of to_vec e m from_slice w c k b] assms get_forget [of w "put to_vec w k e b c" k] by (simp add: meta_path_def)

theorem put_get_forget_witness:
  "get (\<lambda>_. Some sample_entry) ''ab'' (put (\<lambda>_. Some [1]) quiet ''ab'' sample_entry [5] sample_cache) = Some (sample_entry, [5])
    \<and> get (\<lambda>_. Some sample_entry) ''ab'' (forget quiet ''ab''
        (put (\<lambda>_. Some [1]) quiet ''ab'' sample_entry [5] sample_cache)) = None"
  by (rule put_get_forget) simp_all

lemma get_may_mix:
  \<comment> \<open>a reader whose two reads fall on either side of a put's first rename pairs the old entry with
    the new body\<close>
  assumes "read_meta from_slice k c = Some old" and "may_replace w (body_path c k)"
  shows "Option.bind (read_meta from_slice k c)
      (\<lambda>e. Option.bind (read_body k (put_body w k new_body c)) (\<lambda>b. Some (e, b))) = Some (old, new_body)"
  using assms by (simp add: read_body_def)

lemma failed_put_may_mix:
  \<comment> \<open>so does a put whose second rename and whose clean-up are both refused\<close>
  assumes "read_meta from_slice k c = Some old" and "to_vec e = Some m" and "may_replace w (body_path c k)"
    and "\<not> may_replace w (meta_path c k)" and "\<not> may_remove w (body_path c k)"
  shows "get from_slice k (put to_vec w k e new_body c) = Some (old, new_body)"
  using assms meta_body_path [of c k]
  by (auto simp: get_Some put_def put_meta_def read_meta_def remove_files_def Option.bind_eq_Some_conv
      meta_path_def body_path_def)

end
