(* ===== verification/Interceptor.thy ===== *)
theory Interceptor
  imports Message Config
begin

text \<open>
  \<open>src/proxy/src/interceptor.rs\<close>: the hooks of an interceptor, the chain that composes them, the
  chain a configuration describes, and the stamp. A hook takes the state \<open>'w\<close> its interceptor
  keeps (metrics, stores, plugin state) and returns it changed; the two interest questions that
  the code documents as pure queries only read it, \<open>wants_chunks\<close> may write.
\<close>

section \<open>Hooks\<close>

record 'w hooks =
  on_request_hook :: "proxy_request \<Rightarrow> 'w \<Rightarrow> proxy_response option \<times> proxy_request \<times> 'w"
  wants_request_body_hook :: "proxy_request \<Rightarrow> 'w \<Rightarrow> bool"
  on_response_hook :: "proxy_request \<Rightarrow> proxy_response \<Rightarrow> 'w \<Rightarrow> proxy_response \<times> 'w"
  on_response_head_hook :: "proxy_request \<Rightarrow> response_head \<Rightarrow> 'w \<Rightarrow> response_head \<times> 'w"
  wants_body_hook :: "proxy_request \<Rightarrow> response_head \<Rightarrow> 'w \<Rightarrow> bool"
  wants_chunks_hook :: "proxy_request \<Rightarrow> response_head \<Rightarrow> 'w \<Rightarrow> bool \<times> 'w"
  on_response_chunk_hook :: "proxy_request \<Rightarrow> bytes \<Rightarrow> 'w \<Rightarrow> bytes \<times> 'w"
  on_response_end_hook :: "proxy_request \<Rightarrow> 'w \<Rightarrow> bytes option \<times> 'w"

definition default_hooks :: "'w hooks" where
  \<comment> \<open>the trait's default methods\<close>
  "default_hooks = \<lparr>on_request_hook = \<lambda>req w. (None, req, w),
     wants_request_body_hook = \<lambda>req w. False,
     on_response_hook = \<lambda>req resp w. (resp, w),
     on_response_head_hook = \<lambda>req head w. (head, w),
     wants_body_hook = \<lambda>req head w. True,
     wants_chunks_hook = \<lambda>req head w. (False, w),
     on_response_chunk_hook = \<lambda>req chunk w. (chunk, w),
     on_response_end_hook = \<lambda>req w. (None, w)\<rparr>"

section \<open>The chain\<close>

datatype before_body = Answered proxy_response | Resume nat

fun before_body_from :: "nat \<Rightarrow> 'w hooks list \<Rightarrow> proxy_request \<Rightarrow> 'w \<Rightarrow> before_body \<times> proxy_request \<times> 'w" where
  "before_body_from i [] req w = (Resume i, req, w)"
| "before_body_from i (l # ls) req w =
     (if wants_request_body_hook l req w then (Resume i, req, w)
      else (case on_request_hook l req w of
              (Some response, req, w) \<Rightarrow> (Answered response, req, w)
            | (None, req, w) \<Rightarrow> before_body_from (Suc i) ls req w))"

definition before_body :: "'w hooks list \<Rightarrow> proxy_request \<Rightarrow> 'w \<Rightarrow> before_body \<times> proxy_request \<times> 'w" where
  "before_body ls req w = before_body_from 0 ls req w"

fun find_answer :: "'w hooks list \<Rightarrow> proxy_request \<Rightarrow> 'w \<Rightarrow> proxy_response option \<times> proxy_request \<times> 'w" where
  "find_answer [] req w = (None, req, w)"
| "find_answer (l # ls) req w =
     (case on_request_hook l req w of
        (Some response, req, w) \<Rightarrow> (Some response, req, w)
      | (None, req, w) \<Rightarrow> find_answer ls req w)"

definition on_request_from :: "'w hooks list \<Rightarrow> nat \<Rightarrow> proxy_request \<Rightarrow> 'w \<Rightarrow> proxy_response option \<times> proxy_request \<times> 'w" where
  \<comment> \<open>\<open>self.links[from..]\<close>; a \<open>from\<close> past the end would panic, and \<open>before_body\<close> never gives one\<close>
  "on_request_from ls i req w = find_answer (drop i ls) req w"

definition on_request :: "'w hooks list \<Rightarrow> proxy_request \<Rightarrow> 'w \<Rightarrow> proxy_response option \<times> proxy_request \<times> 'w" where
  "on_request ls req w = on_request_from ls 0 req w"

definition wants_request_body :: "'w hooks list \<Rightarrow> proxy_request \<Rightarrow> 'w \<Rightarrow> bool" where
  "wants_request_body ls req w \<longleftrightarrow> list_ex (\<lambda>l. wants_request_body_hook l req w) ls"

fun on_response :: "'w hooks list \<Rightarrow> proxy_request \<Rightarrow> proxy_response \<Rightarrow> 'w \<Rightarrow> proxy_response \<times> 'w" where
  "on_response [] req resp w = (resp, w)"
| "on_response (l # ls) req resp w =
     (case on_response_hook l req resp w of (resp, w) \<Rightarrow> on_response ls req resp w)"

fun on_response_head :: "'w hooks list \<Rightarrow> proxy_request \<Rightarrow> response_head \<Rightarrow> 'w \<Rightarrow> response_head \<times> 'w" where
  "on_response_head [] req head w = (head, w)"
| "on_response_head (l # ls) req head w =
     (case on_response_head_hook l req head w of (head, w) \<Rightarrow> on_response_head ls req head w)"

definition wants_body :: "'w hooks list \<Rightarrow> proxy_request \<Rightarrow> response_head \<Rightarrow> 'w \<Rightarrow> bool" where
  "wants_body ls req head w \<longleftrightarrow> list_ex (\<lambda>l. wants_body_hook l req head w) ls"

fun wants_chunks_from :: "bool \<Rightarrow> 'w hooks list \<Rightarrow> proxy_request \<Rightarrow> response_head \<Rightarrow> 'w \<Rightarrow> bool \<times> 'w" where
  "wants_chunks_from wanted [] req head w = (wanted, w)"
| "wants_chunks_from wanted (l # ls) req head w =
     (case wants_chunks_hook l req head w of (b, w) \<Rightarrow> wants_chunks_from (wanted \<or> b) ls req head w)"

definition wants_chunks :: "'w hooks list \<Rightarrow> proxy_request \<Rightarrow> response_head \<Rightarrow> 'w \<Rightarrow> bool \<times> 'w" where
  "wants_chunks ls req head w = wants_chunks_from False ls req head w"

fun on_response_chunk :: "'w hooks list \<Rightarrow> proxy_request \<Rightarrow> bytes \<Rightarrow> 'w \<Rightarrow> bytes \<times> 'w" where
  "on_response_chunk [] req chunk w = (chunk, w)"
| "on_response_chunk (l # ls) req chunk w =
     (case on_response_chunk_hook l req chunk w of (chunk, w) \<Rightarrow> on_response_chunk ls req chunk w)"

fun tails :: "bytes \<Rightarrow> 'w hooks list \<Rightarrow> proxy_request \<Rightarrow> 'w \<Rightarrow> bytes \<times> 'w" where
  "tails flushed [] req w = (flushed, w)"
| "tails flushed (l # ls) req w =
     (case on_response_end_hook l req w of
        (Some bs, w) \<Rightarrow> tails (flushed @ bs) ls req w
      | (None, w) \<Rightarrow> tails flushed ls req w)"

definition on_response_end :: "'w hooks list \<Rightarrow> proxy_request \<Rightarrow> 'w \<Rightarrow> bytes option \<times> 'w" where
  "on_response_end ls req w =
     (case tails [] ls req w of (flushed, w) \<Rightarrow> (if flushed \<noteq> [] then Some flushed else None, w))"

definition chain_hooks :: "'w hooks list \<Rightarrow> 'w hooks" where
  \<comment> \<open>the chain is an interceptor itself\<close>
  "chain_hooks ls = \<lparr>on_request_hook = on_request ls,
     wants_request_body_hook = wants_request_body ls,
     on_response_hook = on_response ls,
     on_response_head_hook = on_response_head ls,
     wants_body_hook = wants_body ls,
     wants_chunks_hook = wants_chunks ls,
     on_response_chunk_hook = on_response_chunk ls,
     on_response_end_hook = on_response_end ls\<rparr>"

section \<open>The configured chain\<close>

datatype link = LoopGuard | Blocklists | Internal | Inject | Images | Plugin nat | Watcher | Stamp

definition from_config :: "config \<Rightarrow> nat \<Rightarrow> link list" where
  \<comment> \<open>over how many plugins \<open>load_all\<close> found\<close>
  "from_config c loaded =
     [LoopGuard]
     @ (if blocklist_enabled (blocklist_section c) then [Blocklists] else [])
     @ (if internal_enabled (internal_section c) then [Internal] else [])
     @ (if inject_enabled (inject_section c) then [Inject] else [])
     @ (if images_enabled (images_section c) then [Images] else [])
     @ (if plugins_enabled (plugins_section c) then map Plugin [0..<loaded] else [])
     @ (if passthrough_hosts (passthrough_section c) \<noteq> [] \<or> learn_from_challenges (passthrough_section c)
        then [Watcher] else [])
     @ (if stamp_responses (plugins_section c) then [Stamp] else [])"

section \<open>The stamp\<close>

definition stamp :: "headers \<Rightarrow> headers" where
  "stamp hs = without ''x-mach5'' hs @ [(''x-mach5'', ''intercepted'')]"

definition stamp_hooks :: "'w hooks" where
  "stamp_hooks = default_hooks\<lparr>
     on_response_hook := \<lambda>req resp w. (resp\<lparr>rs_headers := stamp (rs_headers resp)\<rparr>, w),
     on_response_head_hook := \<lambda>req head w. (head\<lparr>hd_headers := stamp (hd_headers head)\<rparr>, w),
     wants_body_hook := \<lambda>req head w. False\<rparr>"

section \<open>Requests\<close>

lemma find_answer_append:
  "find_answer (xs @ ys) req w =
     (case find_answer xs req w of (Some r, req, w) \<Rightarrow> (Some r, req, w) | (None, req, w) \<Rightarrow> find_answer ys req w)"
  by (induction xs arbitrary: req w) (auto split: prod.split option.split)

lemma before_body_from_spec:
  "case before_body_from i ls req w of
     (Answered r, req', w') \<Rightarrow> find_answer ls req w = (Some r, req', w')
   | (Resume j, req', w') \<Rightarrow> i \<le> j \<and> j \<le> i + length ls \<and> find_answer (drop (j - i) ls) req' w' = find_answer ls req w
       \<and> (j = i + length ls \<or> wants_request_body_hook (ls ! (j - i)) req' w')
       \<and> find_answer (take (j - i) ls) req w = (None, req', w')"
proof (induction ls arbitrary: i req w)
  case (Cons l ls)
  show ?case
  proof (cases "wants_request_body_hook l req w")
    case False
    obtain a req1 w1 where h: "on_request_hook l req w = (a, req1, w1)" by (metis prod_cases3)
    show ?thesis
    proof (cases a)
      case None
      with Cons.IH [where i = "Suc i" and req = req1 and w = w1] False h show ?thesis
        by (auto split: prod.splits before_body.splits simp: Suc_diff_le Suc_le_eq dest!: less_imp_Suc_add)
    qed (use False h in simp)
  qed simp
qed simp

text \<open>
  C24: asking in two phases is asking once. What the links ahead of the first that wants the body
  answer before it is read, and what the chain answers when resumed there, is what one pass over
  the whole chain answers, with the same request and state left behind; it stops only at a link
  that wants the body or at the end, and everything before that point had let the request pass.
\<close>

theorem two_phases_are_one:
  "case before_body ls req w of
     (Answered r, req', w') \<Rightarrow> on_request ls req w = (Some r, req', w')
   | (Resume i, req', w') \<Rightarrow> on_request_from ls i req' w' = on_request ls req w \<and> i \<le> length ls
       \<and> (i = length ls \<or> wants_request_body_hook (ls ! i) req' w')
       \<and> on_request (take i ls) req w = (None, req', w')"
  using before_body_from_spec [where i = 0 and ls = ls and req = req and w = w]
  by (auto simp: before_body_def on_request_def on_request_from_def split: prod.splits before_body.splits)

lemma answered_by:
  assumes "find_answer ls req w = (Some r, req', w')"
  shows "\<exists>xs l ys req1 w1. ls = xs @ l # ys \<and> find_answer xs req w = (None, req1, w1)
    \<and> on_request_hook l req1 w1 = (Some r, req', w')"
  using assms
proof (induction ls arbitrary: req w)
  case (Cons l ls)
  obtain a req1 w1 where h: "on_request_hook l req w = (a, req1, w1)" by (metis prod_cases3)
  show ?case
  proof (cases a)
    case None
    with Cons.prems h have "find_answer ls req1 w1 = (Some r, req', w')" by simp
    from Cons.IH [OF this] obtain xs l2 ys req2 w2 where "ls = xs @ l2 # ys"
      "find_answer xs req1 w1 = (None, req2, w2)" "on_request_hook l2 req2 w2 = (Some r, req', w')" by metis
    with h None have "l # ls = (l # xs) @ l2 # ys" "find_answer (l # xs) req w = (None, req2, w2)" by simp_all
    with \<open>on_request_hook l2 req2 w2 = _\<close> show ?thesis by blast
  next
    case (Some r2)
    with Cons.prems h have "on_request_hook l req w = (Some r, req', w')" by simp
    then show ?thesis by (intro exI [of _ "[]"]) auto
  qed
qed simp

text \<open>
  A short-circuited response is served exactly as its link returned it, and the links after
  that one neither see the request nor touch the state: whatever stands behind the answering
  link, the result is the same.
\<close>

theorem answer_short_circuits:
  assumes "on_request ls req w = (Some r, req', w')"
  shows "\<exists>xs l ys req1 w1. ls = xs @ l # ys \<and> on_request xs req w = (None, req1, w1)
    \<and> on_request_hook l req1 w1 = (Some r, req', w')
    \<and> (\<forall>zs. on_request (xs @ l # zs) req w = (Some r, req', w'))"
proof -
  from assms have "find_answer ls req w = (Some r, req', w')" by (simp add: on_request_def on_request_from_def)
  from answered_by [OF this] obtain xs l ys req1 w1 where "ls = xs @ l # ys"
    "find_answer xs req w = (None, req1, w1)" "on_request_hook l req1 w1 = (Some r, req', w')"
    by metis
  then show ?thesis
    by (intro exI [of _ xs] exI [of _ l] exI [of _ ys] exI [of _ req1] exI [of _ w1])
       (simp add: on_request_def on_request_from_def find_answer_append)
qed

definition teapot :: "nat hooks" where
  \<comment> \<open>answers everything, and counts\<close>
  "teapot = default_hooks\<lparr>on_request_hook := \<lambda>req w. (Some \<lparr>rs_status = 418, rs_headers = [], rs_body = []\<rparr>, req, Suc w)\<rparr>"

theorem answer_short_circuits_witness:
  "\<exists>xs l ys req1 w1. [default_hooks, teapot, teapot] = xs @ l # ys \<and> on_request xs simple_request 0 = (None, req1, w1)
    \<and> on_request_hook l req1 w1 = (Some \<lparr>rs_status = 418, rs_headers = [], rs_body = []\<rparr>, simple_request, 1)
    \<and> (\<forall>zs. on_request (xs @ l # zs) simple_request 0 = (Some \<lparr>rs_status = 418, rs_headers = [], rs_body = []\<rparr>, simple_request, 1))"
  by (rule answer_short_circuits) (simp add: on_request_def on_request_from_def default_hooks_def teapot_def)

section \<open>Responses\<close>

lemma on_response_append:
  "on_response (xs @ ys) req resp w = (case on_response xs req resp w of (resp, w) \<Rightarrow> on_response ys req resp w)"
  by (induction xs arbitrary: resp w) (auto split: prod.split)

lemma on_response_head_append:
  "on_response_head (xs @ ys) req head w = (case on_response_head xs req head w of (head, w) \<Rightarrow> on_response_head ys req head w)"
  by (induction xs arbitrary: head w) (auto split: prod.split)

lemma wants_chunks_from_spec:
  "wants_chunks_from b ls req head w =
     (b \<or> (\<exists>i<length ls. fst (wants_chunks_hook (ls ! i) req head
              (fold (\<lambda>l w. snd (wants_chunks_hook l req head w)) (take i ls) w))),
      fold (\<lambda>l w. snd (wants_chunks_hook l req head w)) ls w)"
proof (induction ls arbitrary: b w)
  case (Cons l ls)
  obtain c w1 where h: "wants_chunks_hook l req head w = (c, w1)" by force
  show ?case by (auto simp: h Cons.IH less_Suc_eq_0_disj)
qed simp

text \<open>
  Every link is asked about chunks, each in the state the ones before it left, and none is
  skipped because an earlier one said yes; the chain wants chunks exactly if some link did.
\<close>

theorem every_link_is_asked:
  "wants_chunks ls req head w =
     (\<exists>i<length ls. fst (wants_chunks_hook (ls ! i) req head
        (fold (\<lambda>l w. snd (wants_chunks_hook l req head w)) (take i ls) w)),
      fold (\<lambda>l w. snd (wants_chunks_hook l req head w)) ls w)"
  by (simp add: wants_chunks_def wants_chunks_from_spec)

lemma later_link_sees_rewritten:
  \<comment> \<open>responses run in the order of the chain: a link sees what the ones before it made of it\<close>
  "on_response [a, b] req resp w = (case on_response_hook a req resp w of (resp, w) \<Rightarrow> on_response_hook b req resp w)"
  by (auto split: prod.split)

section \<open>The order of the configured chain\<close>

fun place :: "link \<Rightarrow> nat" where
  "place LoopGuard = 0"
| "place Blocklists = 1"
| "place Internal = 2"
| "place Inject = 3"
| "place Images = 4"
| "place (Plugin n) = 5 + n"
| "place Watcher = 5"
| "place Stamp = 6"

lemma stamp_is_last: "stamp_responses (plugins_section c) \<Longrightarrow> \<exists>ls. from_config c n = ls @ [Stamp]"
  by (simp add: from_config_def)

lemma plugins_are_after:
  "\<exists>fixed rest. from_config c n = fixed @ rest \<and> set fixed \<subseteq> {LoopGuard, Blocklists, Internal, Inject, Images}
     \<and> set rest \<subseteq> range Plugin \<union> {Watcher, Stamp} \<and> hd fixed = LoopGuard \<and> fixed \<noteq> []"
proof -
  let ?fixed = "[LoopGuard]
     @ (if blocklist_enabled (blocklist_section c) then [Blocklists] else [])
     @ (if internal_enabled (internal_section c) then [Internal] else [])
     @ (if inject_enabled (inject_section c) then [Inject] else [])
     @ (if images_enabled (images_section c) then [Images] else [])"
  let ?rest = "(if plugins_enabled (plugins_section c) then map Plugin [0..<n] else [])
     @ (if passthrough_hosts (passthrough_section c) \<noteq> [] \<or> learn_from_challenges (passthrough_section c)
        then [Watcher] else [])
     @ (if stamp_responses (plugins_section c) then [Stamp] else [])"
  have "from_config c n = ?fixed @ ?rest" by (simp add: from_config_def)
  moreover have "set ?fixed \<subseteq> {LoopGuard, Blocklists, Internal, Inject, Images}" "set ?rest \<subseteq> range Plugin \<union> {Watcher, Stamp}"
    by auto
  moreover have "hd ?fixed = LoopGuard" "?fixed \<noteq> []" by simp_all
  ultimately show ?thesis by blast
qed

text \<open>
  A plugin never sees, and cannot change, a request one of the proxy's own links answers. If
  the configured chain with no plugin in it answers from the links that stand before the
  plugins, then with any plugins loaded, behaving in any way, it gives the same answer and
  leaves the same state.
\<close>

theorem plugins_never_see_answered:
  assumes "\<forall>l. l \<notin> range Plugin \<union> {Watcher, Stamp} \<longrightarrow> sem l = sem' l"
    and "on_request (map sem (filter (\<lambda>l. l \<in> {LoopGuard, Blocklists, Internal, Inject, Images}) (from_config c m))) req w
      = (Some r, req', w')"
  shows "on_request (map sem' (from_config c n)) req w = (Some r, req', w')"
proof -
  have f: "filter (\<lambda>l. l \<in> {LoopGuard, Blocklists, Internal, Inject, Images}) (from_config c m)
      = filter (\<lambda>l. l \<in> {LoopGuard, Blocklists, Internal, Inject, Images}) (from_config c n)"
    by (simp add: from_config_def filter_map comp_def)
  obtain fixed rest where fr: "from_config c n = fixed @ rest"
    "set fixed \<subseteq> {LoopGuard, Blocklists, Internal, Inject, Images}" "set rest \<subseteq> range Plugin \<union> {Watcher, Stamp}"
    using plugins_are_after by meson
  have "filter (\<lambda>l. l \<in> {LoopGuard, Blocklists, Internal, Inject, Images}) fixed = fixed"
    using fr(2) by (intro filter_True) blast
  moreover have "filter (\<lambda>l. l \<in> {LoopGuard, Blocklists, Internal, Inject, Images}) rest = []"
    using fr(3) by (intro filter_False) blast
  ultimately have "filter (\<lambda>l. l \<in> {LoopGuard, Blocklists, Internal, Inject, Images}) (from_config c n) = fixed"
    by (simp only: fr(1) filter_append append_Nil2)
  moreover have "map sem fixed = map sem' fixed" using assms(1) fr(2) by (intro map_cong) auto
  moreover have "find_answer (map sem fixed) req w = (Some r, req', w')"
    using assms(2) calculation(1) f by (simp only: on_request_def on_request_from_def drop_0)
  ultimately have "find_answer (map sem' fixed) req w = (Some r, req', w')" by (simp only:)
  then show ?thesis by (simp add: fr(1) on_request_def on_request_from_def find_answer_append)
qed

theorem plugins_never_see_answered_witness:
  "on_request (map (\<lambda>l. case l of Blocklists \<Rightarrow> teapot | Plugin n \<Rightarrow> teapot | _ \<Rightarrow> default_hooks) (from_config (default_config bare) 3)) simple_request 0
     = (Some \<lparr>rs_status = 418, rs_headers = [], rs_body = []\<rparr>, simple_request, 1)"
  by (rule plugins_never_see_answered [where m = 0 and sem = "\<lambda>l. case l of Blocklists \<Rightarrow> teapot | _ \<Rightarrow> default_hooks"])
     (auto simp: on_request_def on_request_from_def from_config_def default_config_def default_blocklist_def
        default_internal_def default_inject_def default_images_def default_hooks_def teapot_def split: link.split)

section \<open>The stamp\<close>

lemma stamp_once:
  "filter (\<lambda>(n, v). eq_ci n ''x-mach5'') (stamp hs) = [(''x-mach5'', ''intercepted'')]"
  by (auto simp: stamp_def without_def filter_empty_conv)

lemma stamp_keeps: "\<not> eq_ci ''x-mach5'' name \<Longrightarrow> header (stamp hs) name = header hs name"
  by (simp add: stamp_def header_append header_without_other split: option.split)

text \<open>
  With stamping on, a response leaves the configured chain with exactly one \<open>x-mach5\<close> line,
  saying it was intercepted, whatever the origin or any link before put there, and its other
  fields are those the links before the stamp left.
\<close>

theorem stamped_exactly_once:
  assumes "stamp_responses (plugins_section c)" and "sem Stamp = stamp_hooks"
    and "on_response (map sem (from_config c n)) req resp w = (resp', w')"
  shows "filter (\<lambda>(n, v). eq_ci n ''x-mach5'') (rs_headers resp') = [(''x-mach5'', ''intercepted'')]
    \<and> (\<exists>before. on_response (map sem (butlast (from_config c n))) req resp w = (before, w')
        \<and> rs_status resp' = rs_status before \<and> rs_body resp' = rs_body before
        \<and> without ''x-mach5'' (rs_headers resp') = without ''x-mach5'' (rs_headers before))"
proof -
  obtain ls where ls: "from_config c n = ls @ [Stamp]" using stamp_is_last [OF assms(1)] by blast
  obtain before w1 where b: "on_response (map sem ls) req resp w = (before, w1)" by force
  with assms(2,3) ls have "resp' = before\<lparr>rs_headers := stamp (rs_headers before)\<rparr>" "w' = w1"
    by (simp_all add: on_response_append stamp_hooks_def)
  moreover have "without ''x-mach5'' (stamp hs) = without ''x-mach5'' hs" for hs
    by (simp add: stamp_def)
  ultimately show ?thesis using stamp_once b ls by simp
qed

definition stamping :: config where
  "stamping = (default_config bare)\<lparr>plugins_section := (default_plugins bare)\<lparr>stamp_responses := True\<rparr>\<rparr>"

theorem stamped_exactly_once_witness:
  "\<exists>resp'. on_response (map (\<lambda>l. if l = Stamp then stamp_hooks else default_hooks) (from_config stamping 0)) simple_request
      \<lparr>rs_status = 200, rs_headers = [(''X-Mach5'', ''no-images'')], rs_body = []\<rparr> (0 :: nat) = (resp', 0)
    \<and> filter (\<lambda>(n, v). eq_ci n ''x-mach5'') (rs_headers resp') = [(''x-mach5'', ''intercepted'')]"
proof -
  let ?sem = "\<lambda>l. if l = Stamp then stamp_hooks else default_hooks :: nat hooks"
  have quiet: "snd (on_response (map ?sem ls) simple_request resp 0) = 0" for ls resp
    by (induction ls arbitrary: resp) (auto simp: stamp_hooks_def default_hooks_def split: prod.split)
  obtain resp' w' where r: "on_response (map ?sem (from_config stamping 0)) simple_request
      \<lparr>rs_status = 200, rs_headers = [(''X-Mach5'', ''no-images'')], rs_body = []\<rparr> 0 = (resp', w')" by force
  with quiet have "w' = 0" by (metis snd_conv)
  moreover have "stamp_responses (plugins_section stamping)" by (simp add: stamping_def default_plugins_def)
  ultimately show ?thesis using stamped_exactly_once [OF _ _ r] r by simp
qed

end
