(* ===== verification/Encoding.thy ===== *)
theory Encoding
  imports Message Floats
begin

text \<open>
  \<open>src/proxy/src/encoding.rs\<close>: which content coding is asked for upstream, decoding a buffered body
  under a limit and encoding it again, compressing what an origin left plain, the headers that
  say so, and the chunk-at-a-time coders. The codecs (\<open>flate2\<close>, \<open>brotli\<close>) are parameters:
  \<open>inflate c body\<close> is what reading the decoder to its end gives and whether it ended in an error,
  \<open>deflate c body\<close> the encoder's output if it gave any, and a streaming coder is its state with
  the output of one write and flush.
\<close>

section \<open>Codings\<close>

datatype coding = Gzip | Brotli

definition MIN_COMPRESSIBLE :: nat where "MIN_COMPRESSIBLE = 1024"
definition SLICE_SIZE :: nat where "SLICE_SIZE = 8 * 1024"

definition COMPRESSIBLE_TYPES :: "str list" where
  "COMPRESSIBLE_TYPES = [''application/json'', ''application/javascript'', ''application/xml'',
     ''application/xhtml+xml'', ''application/rss+xml'', ''application/atom+xml'',
     ''application/manifest+json'', ''image/svg+xml'']"

definition SUPPORTED :: "coding list" where "SUPPORTED = [Brotli, Gzip]"

definition parse_coding :: "str \<Rightarrow> coding option" where
  "parse_coding tok =
     (let t = to_lower (trim tok)
      in if t = ''gzip'' \<or> t = ''x-gzip'' then Some Gzip else if t = ''br'' then Some Brotli else None)"

fun token :: "coding \<Rightarrow> str" where
  "token Gzip = ''gzip''"
| "token Brotli = ''br''"

section \<open>Negotiation\<close>

definition commas :: "str \<Rightarrow> str list" where "commas s = split_on (\<lambda>c. c = CHR '','') s"

definition refuses :: "str \<Rightarrow> bool" where
  \<comment> \<open>one parameter: \<open>q=\<close> with a value that is zero or less\<close>
  "refuses param =
     (let (k, v) = (case split_once CHR ''='' param of Some (k, v) \<Rightarrow> (trim k, trim v) | None \<Rightarrow> (trim param, []))
      in eq_ci k ''q'' \<and> (case parse_decimal v of Some q \<Rightarrow> f32_not_positive q | None \<Rightarrow> False))"

definition parse_offer :: "str \<Rightarrow> (str \<times> bool) option" where
  "parse_offer offer =
     (let parts = split_on (\<lambda>c. c = CHR '';'') offer;
          name = to_lower (trim (hd parts))
      in if name = [] then None else Some (name, \<not> list_ex refuses (tl parts)))"

definition accepts :: "(str \<times> bool) list \<Rightarrow> str \<Rightarrow> bool" where
  "accepts offered coding =
     (case map_of offered coding of
        Some wanted \<Rightarrow> wanted
      | None \<Rightarrow> (case map_of offered ''*'' of Some wanted \<Rightarrow> wanted | None \<Rightarrow> False))"

definition accepted_codings :: "headers \<Rightarrow> coding list" where
  "accepted_codings hs =
     (case header hs ''accept-encoding'' of
        None \<Rightarrow> []
      | Some v \<Rightarrow> filter (\<lambda>c. accepts (List.map_filter parse_offer (commas v)) (token c)) SUPPORTED)"

definition negotiate :: "headers \<Rightarrow> str" where
  "negotiate hs =
     (let accepted = map token (accepted_codings hs)
      in if accepted = [] then ''identity'' else join '', '' accepted)"

section \<open>Headers about codings\<close>

definition has_content_encoding :: "headers \<Rightarrow> bool" where
  "has_content_encoding hs \<longleftrightarrow> has_header hs ''content-encoding''"

definition compressible :: "headers \<Rightarrow> bool" where
  "compressible hs =
     (case header hs ''content-type'' of
        None \<Rightarrow> False
      | Some v \<Rightarrow>
          (let media = to_lower (trim (hd (split_on (\<lambda>c. c = CHR '';'') v)))
           in starts_with media ''text/'' \<or> media \<in> set COMPRESSIBLE_TYPES))"

fun vary_on :: "str \<Rightarrow> headers \<Rightarrow> headers" where
  \<comment> \<open>the first \<open>vary\<close> line is added to in place, or one is pushed\<close>
  "vary_on name [] = [(''vary'', name)]"
| "vary_on name ((n, v) # hs) =
     (if eq_ci n ''vary''
      then (if list_ex (\<lambda>tok. eq_ci (trim tok) name) (commas v) then (n, v) # hs
            else (n, v @ '', '' @ name) # hs)
      else (n, v) # vary_on name hs)"

definition vary_on_accept_encoding :: "headers \<Rightarrow> headers" where
  "vary_on_accept_encoding hs = vary_on ''accept-encoding'' hs"

definition vary_on_accept :: "headers \<Rightarrow> headers" where
  "vary_on_accept hs = vary_on ''accept'' hs"

definition coding_of :: "headers \<Rightarrow> coding option" where
  "coding_of hs = Option.bind (header hs ''content-encoding'') parse_coding"

definition declare_coding :: "headers \<Rightarrow> coding \<Rightarrow> headers" where
  "declare_coding hs c =
     vary_on_accept_encoding (without ''content-encoding'' hs @ [(''content-encoding'', token c)])"

section \<open>Whole bodies\<close>

type_synonym inflater = "coding \<Rightarrow> bytes \<Rightarrow> bytes \<times> bool"
type_synonym deflater = "coding \<Rightarrow> bytes \<Rightarrow> bytes option"

definition decompress :: "inflater \<Rightarrow> coding \<Rightarrow> bytes \<Rightarrow> nat \<Rightarrow> bytes option" where
  "decompress inflate c body limit =
     (case read_limited (min (limit + 1) u64_max) (inflate c body) of
        None \<Rightarrow> None
      | Some out \<Rightarrow> if length out > limit then None else Some out)"

definition decode :: "inflater \<Rightarrow> headers \<Rightarrow> bytes \<Rightarrow> nat \<Rightarrow> headers \<times> bytes \<times> coding option" where
  "decode inflate hs body limit =
     (case header hs ''content-encoding'' of
        None \<Rightarrow> (hs, body, None)
      | Some v \<Rightarrow>
          (case parse_coding v of
             None \<Rightarrow> (hs, body, None)
           | Some c \<Rightarrow>
               (case decompress inflate c body limit of
                  Some decoded \<Rightarrow> (without ''content-encoding'' hs, decoded, Some c)
                | None \<Rightarrow> (hs, body, None))))"

definition encode :: "deflater \<Rightarrow> headers \<Rightarrow> bytes \<Rightarrow> coding option \<Rightarrow> headers \<times> bytes" where
  "encode deflate hs body c =
     (case c of
        None \<Rightarrow> (hs, body)
      | Some c \<Rightarrow>
          (case deflate c body of
             Some encoded \<Rightarrow> (hs @ [(''content-encoding'', token c)], encoded)
           | None \<Rightarrow> (hs, body)))"

definition first_accepted :: "headers \<Rightarrow> coding option" where
  \<comment> \<open>\<open>accepted.split(',').next().and_then(Coding::parse)\<close>\<close>
  "first_accepted request = parse_coding (hd (commas (negotiate request)))"

definition ensure_compressed ::
  "deflater \<Rightarrow> headers \<Rightarrow> nat \<Rightarrow> headers \<Rightarrow> bytes \<Rightarrow> coding option \<Rightarrow> headers \<times> bytes" where
  "ensure_compressed deflate request status hs body c =
     (if c \<noteq> None \<or> has_content_encoding hs \<or> length body < MIN_COMPRESSIBLE \<or> status \<in> {204, 304}
         \<or> \<not> compressible hs
      then (hs, body)
      else (case first_accepted request of
              None \<Rightarrow> (hs, body)
            | Some c \<Rightarrow>
                (case deflate c body of
                   Some encoded \<Rightarrow>
                     if length encoded < length body
                     then (vary_on_accept_encoding (hs @ [(''content-encoding'', token c)]), encoded)
                     else (hs, body)
                 | None \<Rightarrow> (hs, body))))"

section \<open>Bodies in pieces\<close>

definition streaming_coding :: "headers \<Rightarrow> headers \<Rightarrow> coding option" where
  "streaming_coding request response =
     (if has_content_encoding response \<or> \<not> compressible response then None
      else parse_coding (trim (hd (commas (negotiate request)))))"

function (sequential) chunks :: "nat \<Rightarrow> bytes \<Rightarrow> bytes list" where
  \<comment> \<open>\<open>chunk.chunks(n)\<close>; the code's \<open>n\<close> is not 0\<close>
  "chunks n bs = (if bs = [] then [] else if n = 0 then [bs] else take n bs # chunks n (drop n bs))"
  by pat_completeness auto
termination by (relation "measure (\<lambda>(n, bs). length bs)") auto

declare chunks.simps [simp del]

fun push_slices :: "('d \<Rightarrow> bytes \<Rightarrow> (bytes \<times> 'd) option) \<Rightarrow> nat \<Rightarrow> bytes \<Rightarrow> bytes list \<Rightarrow> 'd \<Rightarrow> bytes option \<times> 'd" where
  \<comment> \<open>\<open>step\<close> is one write and flush of the decoder: its output, or an error\<close>
  "push_slices step limit out [] d = (Some out, d)"
| "push_slices step limit out (s # ss) d =
     (case step d s of
        None \<Rightarrow> (None, d)
      | Some (produced, d) \<Rightarrow>
          if length (out @ produced) > limit then (None, d)
          else push_slices step limit (out @ produced) ss d)"

definition push :: "('d \<Rightarrow> bytes \<Rightarrow> (bytes \<times> 'd) option) \<Rightarrow> 'd \<Rightarrow> bytes \<Rightarrow> nat \<Rightarrow> bytes option \<times> 'd" where
  "push step d chunk limit = push_slices step limit [] (chunks SLICE_SIZE chunk) d"

section \<open>What is asked for\<close>

lemma accepted_codings_cases:
  "accepted_codings hs \<in> {[], [Brotli], [Gzip], [Brotli, Gzip]}"
  by (auto simp: accepted_codings_def SUPPORTED_def split: option.split)

text \<open>
  The proxy never asks an origin for a coding its client cannot read. Read back, the negotiated
  value names exactly the codings the code implements that the client's \<open>accept-encoding\<close> offers
  without refusing them, Brotli first, and the coding a response is compressed with is the
  first of these.
\<close>

theorem negotiated_is_readable:
  "List.map_filter parse_coding (commas (negotiate hs)) = accepted_codings hs
   \<and> first_accepted hs = (case accepted_codings hs of [] \<Rightarrow> None | c # cs \<Rightarrow> Some c)
   \<and> (c \<in> set (accepted_codings hs) \<longleftrightarrow>
        (case header hs ''accept-encoding'' of None \<Rightarrow> False
         | Some v \<Rightarrow> accepts (List.map_filter parse_offer (commas v)) (token c)))"
proof -
  have "List.map_filter parse_coding (commas (if map token cs = [] then ''identity'' else join '', '' (map token cs))) = cs
      \<and> parse_coding (hd (commas (if map token cs = [] then ''identity'' else join '', '' (map token cs))))
        = (case cs of [] \<Rightarrow> None | c # cs \<Rightarrow> Some c)"
    if "cs \<in> {[], [Brotli], [Gzip], [Brotli, Gzip]}" for cs
    using that by safe code_simp+
  from this [OF accepted_codings_cases [of hs]]
  have "List.map_filter parse_coding (commas (negotiate hs)) = accepted_codings hs"
    "first_accepted hs = (case accepted_codings hs of [] \<Rightarrow> None | c # cs \<Rightarrow> Some c)"
    by (simp_all only: negotiate_def first_accepted_def Let_def)
  moreover have "c \<in> set SUPPORTED" by (cases c) (simp_all add: SUPPORTED_def)
  ultimately show ?thesis by (auto simp: accepted_codings_def split: option.split)
qed

section \<open>Decoding and encoding\<close>

definition plain :: "inflater \<Rightarrow> headers \<Rightarrow> bytes \<Rightarrow> bytes option" where
  \<comment> \<open>the content a body carries, as a client that knows the codings reads it\<close>
  "plain inflate hs body =
     (case coding_of hs of
        None \<Rightarrow> Some body
      | Some c \<Rightarrow> (case inflate c body of (out, failed) \<Rightarrow> if failed then None else Some out))"

definition lossless :: "inflater \<Rightarrow> deflater \<Rightarrow> bool" where
  "lossless inflate deflate \<longleftrightarrow> (\<forall>c x y. deflate c x = Some y \<longrightarrow> inflate c y = (x, False))"

lemma parse_token [simp]: "parse_coding (token c) = Some c"
proof -
  have "parse_coding (token Gzip) = Some Gzip" "parse_coding (token Brotli) = Some Brotli" by code_simp+
  then show ?thesis by (cases c) simp_all
qed

lemma decompress_Some:
  assumes "decompress inflate c body limit = Some out" and "limit < u64_max"
  shows "inflate c body = (out, False) \<and> length out \<le> limit"
  using assms
  by (auto simp: decompress_def read_limited_def u64_max_def split: option.splits prod.splits if_splits)

lemma coding_of_without [simp]: "coding_of (without ''content-encoding'' hs) = None"
  by (simp add: coding_of_def)

lemma coding_of_pushed:
  "header hs ''content-encoding'' = None \<Longrightarrow> coding_of (hs @ [(''content-encoding'', token c)]) = Some c"
  by (simp add: coding_of_def header_append)

lemma header_vary_on: "\<not> eq_ci ''vary'' other \<Longrightarrow> header (vary_on name hs) other = header hs other"
  by (induction name hs rule: vary_on.induct) (auto simp: eq_ci_def)

lemma coding_of_vary_on [simp]: "coding_of (vary_on name hs) = coding_of hs"
proof -
  have "\<not> eq_ci ''vary'' ''content-encoding''" by code_simp
  then show ?thesis by (simp add: coding_of_def header_vary_on)
qed

text \<open>
  Decoding for the interceptors is bounded and honest: when a body is decoded, the result is the
  whole of what it inflates to, no longer than the limit, and no line claims a coding any more;
  when it is not, headers and body are exactly what arrived.
\<close>

theorem decoded_is_bounded:
  assumes "limit < u64_max" and "decode inflate hs body limit = (hs', body', c)"
  shows "case c of
      Some c \<Rightarrow> inflate c body = (body', False) \<and> length body' \<le> limit \<and> \<not> has_content_encoding hs'
        \<and> hs' = without ''content-encoding'' hs \<and> coding_of hs = Some c
    | None \<Rightarrow> hs' = hs \<and> body' = body"
  using assms decompress_Some
  by (fastforce simp: decode_def has_content_encoding_def has_header_iff coding_of_def split: option.splits)

definition toy_inflate :: inflater where
  \<comment> \<open>an example codec: a marker byte in front\<close>
  "toy_inflate c bs = (case bs of [] \<Rightarrow> ([], True) | b # r \<Rightarrow> (r, b \<noteq> 7))"

definition toy_deflate :: deflater where
  "toy_deflate c bs = Some (7 # bs)"

lemma toy_lossless: "lossless toy_inflate toy_deflate"
  by (simp add: lossless_def toy_inflate_def toy_deflate_def)

theorem decoded_is_bounded_witness:
  "toy_inflate Gzip [7, 1, 2] = ([1, 2], False) \<and> length [1 :: u8, 2] \<le> 2 \<and> \<not> has_content_encoding []
    \<and> [] = without ''content-encoding'' [(''Content-Encoding'', ''x-gzip'')]
    \<and> coding_of [(''Content-Encoding'', ''x-gzip'')] = Some Gzip"
proof -
  have "decode toy_inflate [(''Content-Encoding'', ''x-gzip'')] [7, 1, 2] 2 = ([], [1, 2], Some Gzip)"
    by code_simp
  from decoded_is_bounded [OF _ this] show ?thesis by (simp add: u64_max_def)
qed

text \<open>
  Decoding a body for the interceptors and encoding it again, when none of them changed it,
  leaves what the client reads as it was, even if the encoder fails and the body goes out plain.
\<close>

theorem decode_encode_same_content:
  assumes "lossless inflate deflate" and "limit < u64_max"
    and "decode inflate hs body limit = (hs1, body1, c)" and "encode deflate hs1 body1 c = (hs2, body2)"
  shows "plain inflate hs2 body2 = plain inflate hs body"
proof (cases c)
  case None
  with decoded_is_bounded [OF assms(2,3)] assms(4) show ?thesis by (simp add: encode_def)
next
  case (Some d)
  from decoded_is_bounded [OF assms(2,3)] Some
  have d: "inflate d body = (body1, False)" "hs1 = without ''content-encoding'' hs" "coding_of hs = Some d" by simp_all
  then have before: "plain inflate hs body = Some body1" by (simp add: plain_def)
  show ?thesis
  proof (cases "deflate d body1")
    case None
    with Some assms(4) have "hs2 = hs1" "body2 = body1" by (simp_all add: encode_def)
    moreover have "coding_of hs1 = None" by (simp add: d)
    ultimately show ?thesis using before by (simp add: plain_def)
  next
    case (Some y)
    with \<open>c = Some d\<close> assms(4) have "hs2 = hs1 @ [(''content-encoding'', token d)]" "body2 = y"
      by (simp_all add: encode_def)
    moreover have "inflate d y = (body1, False)" using Some assms(1) by (simp add: lossless_def)
    ultimately show ?thesis using before d by (simp add: plain_def coding_of_pushed)
  qed
qed

theorem decode_encode_same_content_witness:
  "plain toy_inflate [(''content-encoding'', ''gzip'')] [7, 1, 2] = plain toy_inflate [(''Content-Encoding'', ''x-gzip'')] [7, 1, 2]"
proof (rule decode_encode_same_content [OF toy_lossless])
  show "decode toy_inflate [(''Content-Encoding'', ''x-gzip'')] [7, 1, 2] 2 = ([], [1, 2], Some Gzip)" by code_simp
  show "encode toy_deflate [] [1, 2] (Some Gzip) = ([(''content-encoding'', ''gzip'')], [7, 1, 2])" by code_simp
qed (simp add: u64_max_def)

lemma ensure_compressed_changed:
  assumes "ensure_compressed deflate request status hs body c = (hs', body')" and "(hs', body') \<noteq> (hs, body)"
  obtains d y where "\<not> has_content_encoding hs" and "status \<notin> {204, 304}"
    and "first_accepted request = Some d" and "deflate d body = Some y" and "length y < length body"
    and "hs' = vary_on_accept_encoding (hs @ [(''content-encoding'', token d)])" and "body' = y"
proof (cases "c \<noteq> None \<or> has_content_encoding hs \<or> length body < MIN_COMPRESSIBLE \<or> status \<in> {204, 304}
         \<or> \<not> compressible hs")
  case True
  with assms show thesis unfolding ensure_compressed_def by (simp only: if_True) blast
next
  case guard: False
  show thesis
  proof (cases "first_accepted request")
    case None
    with guard assms show thesis unfolding ensure_compressed_def by (simp only: if_False option.case) blast
  next
    case d: (Some d)
    show thesis
    proof (cases "deflate d body")
      case None
      with d guard assms show thesis unfolding ensure_compressed_def by (simp only: if_False option.case) blast
    next
      case y: (Some y)
      show thesis
      proof (cases "length y < length body")
        case True
        with y d guard assms(1) show thesis
          by (intro that [OF _ _ d y True]) (simp_all add: ensure_compressed_def)
      next
        case False
        with y d guard assms show thesis unfolding ensure_compressed_def by (simp only: if_False option.case) blast
      qed
    qed
  qed
qed

text \<open>
  C23: compressing what an origin left plain changes nothing the client reads, never makes a body
  longer, and uses only a coding the client accepts; a body that already carries a coding, known
  or not, goes out untouched.
\<close>

theorem compression_is_invisible:
  assumes "lossless inflate deflate" and "ensure_compressed deflate request status hs body c = (hs', body')"
  shows "plain inflate hs' body' = plain inflate hs body \<and> length body' \<le> length body
    \<and> ((hs', body') = (hs, body) \<or> \<not> has_content_encoding hs \<and> status \<notin> {204, 304}
        \<and> (\<exists>d\<in>set (accepted_codings request). coding_of hs' = Some d) \<and> length body' < length body)"
proof (cases "(hs', body') = (hs, body)")
  case False
  with assms(2) obtain d y where g: "\<not> has_content_encoding hs" "status \<notin> {204, 304}"
    and d: "first_accepted request = Some d" "deflate d body = Some y" "length y < length body"
    and r: "hs' = vary_on_accept_encoding (hs @ [(''content-encoding'', token d)])" "body' = y"
    by (rule ensure_compressed_changed)
  from g(1) have h: "header hs ''content-encoding'' = None" by (simp add: has_content_encoding_def has_header_iff)
  then have c: "coding_of hs' = Some d" "coding_of hs = None"
    by (simp_all add: r vary_on_accept_encoding_def coding_of_pushed) (simp add: coding_of_def)
  moreover have "d \<in> set (accepted_codings request)"
    using negotiated_is_readable [of request d] d(1) by (auto split: list.splits)
  moreover have "inflate d y = (body, False)" using d(2) assms(1) by (simp add: lossless_def)
  ultimately have "plain inflate hs' body' = plain inflate hs body" by (simp add: plain_def r(2))
  moreover have "length body' < length body" using d(3) r(2) by simp
  ultimately show ?thesis using g c(1) \<open>d \<in> set (accepted_codings request)\<close> less_imp_le by blast
qed simp

definition big_text :: bytes where "big_text = replicate 1024 1"

theorem compression_is_invisible_witness:
  "\<exists>hs' body'. ensure_compressed (\<lambda>c bs. if bs = big_text then Some [7] else None) [(''Accept-Encoding'', ''gzip'')] 200
      [(''Content-Type'', ''text/html'')] big_text None = (hs', body')
    \<and> plain (\<lambda>c bs. (big_text, False)) hs' body' = Some big_text \<and> length body' = 1"
proof -
  let ?deflate = "\<lambda>c bs. if bs = big_text then Some [7] else None :: bytes option"
  let ?hs = "[(''Content-Type'', ''text/html'')]"
  have "first_accepted [(''Accept-Encoding'', ''gzip'')] = Some Gzip" "has_content_encoding ?hs = False"
    "compressible ?hs = True" by code_simp+
  then obtain hs' where e: "ensure_compressed ?deflate [(''Accept-Encoding'', ''gzip'')] 200 ?hs big_text None = (hs', [7])"
    by (simp add: ensure_compressed_def big_text_def MIN_COMPRESSIBLE_def)
  have "lossless (\<lambda>c bs. (big_text, False)) ?deflate" by (simp add: lossless_def)
  from compression_is_invisible [OF this e] have "plain (\<lambda>c bs. (big_text, False)) hs' [7] = plain (\<lambda>c bs. (big_text, False)) ?hs big_text"
    by simp
  moreover have "coding_of ?hs = None" by code_simp
  ultimately show ?thesis using e by (simp add: plain_def)
qed

section \<open>Chunks\<close>

lemma concat_chunks: "concat (chunks n bs) = bs"
  by (induction n bs rule: chunks.induct) (simp add: chunks.simps)

lemma chunks_short: "0 < n \<Longrightarrow> c \<in> set (chunks n bs) \<Longrightarrow> length c \<le> n"
proof (induction n bs rule: chunks.induct)
  case (1 n bs)
  then show ?case by (auto simp: chunks.simps [of n bs] split: if_splits)
qed

fun run_slices :: "('d \<Rightarrow> bytes \<Rightarrow> (bytes \<times> 'd) option) \<Rightarrow> bytes list \<Rightarrow> 'd \<Rightarrow> (bytes \<times> 'd) option" where
  \<comment> \<open>all slices, with no limit\<close>
  "run_slices step [] d = Some ([], d)"
| "run_slices step (s # ss) d =
     (case step d s of
        None \<Rightarrow> None
      | Some (produced, d) \<Rightarrow> map_option (\<lambda>(out, d). (produced @ out, d)) (run_slices step ss d))"

lemma push_slices_eq:
  "length out \<le> limit \<Longrightarrow> fst (push_slices step limit out ss d) =
     (case run_slices step ss d of
        None \<Rightarrow> None
      | Some (rest, d) \<Rightarrow> if length (out @ rest) \<le> limit then Some (out @ rest) else None)"
proof (induction ss arbitrary: out d)
  case (Cons s ss)
  show ?case
  proof (cases "step d s")
    case (Some r)
    obtain produced d1 where r: "r = (produced, d1)" by force
    show ?thesis
    proof (cases "length (out @ produced) \<le> limit")
      case True
      with Cons.IH [OF this, of d1] Some r show ?thesis by (auto split: option.split)
    next
      case False
      with Some r show ?thesis by (auto split: option.split)
    qed
  qed simp
qed simp

text \<open>
  Inflating a streaming chunk is inflating all of it, or refusing: the output of a push is the
  output of the whole chunk, fed in slices that together are the chunk and are at most 8 KB
  each, when the decoder accepts it and the whole output fits the limit, and an error otherwise.
\<close>

theorem push_is_bounded:
  "fst (push step d chunk limit) =
     (case run_slices step (chunks SLICE_SIZE chunk) d of
        None \<Rightarrow> None
      | Some (out, d) \<Rightarrow> if length out \<le> limit then Some out else None)
   \<and> concat (chunks SLICE_SIZE chunk) = chunk \<and> list_all (\<lambda>s. length s \<le> SLICE_SIZE) (chunks SLICE_SIZE chunk)"
  using chunks_short [of SLICE_SIZE _ chunk]
  by (auto simp: push_def push_slices_eq concat_chunks list_all_iff SLICE_SIZE_def split: option.split)

section \<open>Vary\<close>

definition varies_on :: "headers \<Rightarrow> str list" where
  \<comment> \<open>the tokens of the first \<open>vary\<close> line, without case\<close>
  "varies_on hs =
     (case header hs ''vary'' of None \<Rightarrow> [] | Some v \<Rightarrow> map (\<lambda>tok. to_lower (trim tok)) (commas v))"

lemma varies_on_vary_on:
  assumes "CHR '','' \<notin> set name" and "trim name = name"
  shows "set (varies_on (vary_on name hs)) = insert (to_lower name) (set (varies_on hs))"
proof (induction hs)
  case Nil
  have "commas name = [name]" unfolding commas_def using assms(1) by (intro split_on_id) auto
  with assms(2) show ?case by (simp add: varies_on_def)
next
  case (Cons h hs)
  obtain n v where h: "h = (n, v)" by force
  have "split_on (\<lambda>c. c = CHR '','') name = [name]" using assms(1) by (intro split_on_id) auto
  then have "commas (v @ CHR '','' # CHR '' '' # name) = commas v @ [CHR '' '' # name]"
    by (simp add: commas_def split_on_append)
  then have add: "commas (v @ '', '' @ name) = commas v @ [CHR '' '' # name]" by simp
  show ?case
  proof (cases "eq_ci n ''vary''")
    case True
    then show ?thesis
    proof (cases "list_ex (\<lambda>tok. eq_ci (trim tok) name) (commas v)")
      case True
      then obtain tok where "tok \<in> set (commas v)" "to_lower name = to_lower (trim tok)"
        by (auto simp: list_ex_iff eq_ci_def)
      then have "to_lower name \<in> set (map (\<lambda>tok. to_lower (trim tok)) (commas v))"
        unfolding set_map by (rule image_eqI [rotated])
      with True \<open>eq_ci n ''vary''\<close> show ?thesis by (auto simp: h varies_on_def)
    next
      case False
      with \<open>eq_ci n ''vary''\<close> assms(2) show ?thesis
        by (simp only: h vary_on.simps if_True if_False varies_on_def header_Cons option.case add)
           (simp add: trim_space)
    qed
  next
    case False
    with Cons.IH show ?thesis by (simp add: h varies_on_def)
  qed
qed

text \<open>
  What varies is said and nothing said before is lost: after adding a header to \<open>vary\<close>, the
  tokens listed are those listed before and this one, and every other field is as it was.
\<close>

theorem vary_is_added:
  "set (varies_on (vary_on_accept hs)) = insert ''accept'' (set (varies_on hs))
   \<and> set (varies_on (vary_on_accept_encoding hs)) = insert ''accept-encoding'' (set (varies_on hs))
   \<and> without ''vary'' (vary_on_accept hs) = without ''vary'' hs
   \<and> without ''vary'' (vary_on_accept_encoding hs) = without ''vary'' hs"
proof -
  have "trim ''accept'' = ''accept''" "trim ''accept-encoding'' = ''accept-encoding''"
    "to_lower ''accept'' = ''accept''" "to_lower ''accept-encoding'' = ''accept-encoding''" by code_simp+
  moreover have "without ''vary'' (vary_on name hs) = without ''vary'' hs" for name
    by (induction name hs rule: vary_on.induct) auto
  ultimately show ?thesis
    using varies_on_vary_on [of "''accept''" hs] varies_on_vary_on [of "''accept-encoding''" hs]
    by (simp add: vary_on_accept_def vary_on_accept_encoding_def)
qed

end
