(* ===== verification/Images.thy ===== *)
theory Images
  imports Imagecache Link Settings Encoding Interceptor
begin

text \<open>
  \<open>src/proxy/src/images.rs\<close>: what an image is served as once the panel's setting and the client's
  link have both had their say, which responses are claimed, and the re-encoding with its guards.
  The decoder, the scaler and the WebP encoder (crates \<open>image\<close> and \<open>webp\<close>) and SHA-256 are
  parameters, together with the clock and the file system in one \<open>outside\<close> record. The settings,
  the link estimates, the conversion cache and the counters are the models of their own theories.
\<close>

section \<open>Model\<close>

definition CONVERTIBLE :: "str list" where
  "CONVERTIBLE = [''image/jpeg'', ''image/jpg'', ''image/png'']"

definition MIN_IMAGE_BYTES :: nat where
  \<comment> \<open>\<open>images::MIN_BYTES\<close>\<close>
  "MIN_IMAGE_BYTES = 3 * 1024"

definition TRANSPARENT_GIF :: bytes where
  "TRANSPARENT_GIF =
     [0x47, 0x49, 0x46, 0x38, 0x39, 0x61, 0x01, 0x00, 0x01, 0x00, 0x80, 0x00, 0x00, 0x00, 0x00, 0x00,
      0xff, 0xff, 0xff, 0x21, 0xf9, 0x04, 0x01, 0x00, 0x00, 0x00, 0x00, 0x2c, 0x00, 0x00, 0x00, 0x00,
      0x01, 0x00, 0x01, 0x00, 0x00, 0x02, 0x02, 0x44, 0x01, 0x00, 0x3b]"

datatype served = Untouched | Encoded nat form | NothingServed

definition PLACEHOLDER_QUALITY :: nat where "PLACEHOLDER_QUALITY = 40"
definition PLACEHOLDER_EDGE :: nat where "PLACEHOLDER_EDGE = 16"
definition MAX_DIMENSION :: nat where "MAX_DIMENSION = 16383"

datatype filter_type = Triangle | Gaussian

record 'img outside =
  dimensions :: "bytes \<Rightarrow> (nat \<times> nat) option"
  decoder :: "bytes \<Rightarrow> 'img option"
  grayscale :: "'img \<Rightarrow> 'img"
  resize_exact :: "'img \<Rightarrow> nat \<Rightarrow> nat \<Rightarrow> filter_type \<Rightarrow> 'img"
  has_alpha :: "'img \<Rightarrow> bool"
  encode_rgba :: "'img \<Rightarrow> nat \<Rightarrow> nat \<Rightarrow> nat \<Rightarrow> bytes option"
  encode_rgb :: "'img \<Rightarrow> nat \<Rightarrow> nat \<Rightarrow> nat \<Rightarrow> bytes option"
  sha256 :: "bytes \<Rightarrow> bytes"
  disk_io :: io
  clock :: nat

record images =
  configured_quality :: nat
  im_reduced_quality :: nat
  im_grey_quality :: nat
  im_settings :: store
  im_links :: links
  im_cache :: "image_cache option"
  max_pixels :: nat
  im_metrics :: metrics

definition new_images :: "config \<Rightarrow> store \<Rightarrow> links \<Rightarrow> image_cache option \<Rightarrow> metrics \<Rightarrow> images" where
  "new_images c st ls cache m =
     \<lparr>configured_quality = quality (images_section c), im_reduced_quality = reduced_quality (images_section c),
      im_grey_quality = grey_quality (images_section c), im_settings = st, im_links = ls, im_cache = cache,
      max_pixels = max_megapixels (images_section c) * 1000000, im_metrics = m\<rparr>"

definition serving :: "images \<Rightarrow> quality \<Rightarrow> tier \<Rightarrow> served" where
  "serving i q t =
     (let asked = (case q of NoImages \<Rightarrow> Nothing | _ \<Rightarrow> FullTier);
          worse = (if degradation t \<ge> degradation asked then t else asked);
          wanted = (case applied_to q (configured_quality i) of Some n \<Rightarrow> n | None \<Rightarrow> configured_quality i)
      in case worse of
           FullTier \<Rightarrow> (case applied_to q (configured_quality i) of Some n \<Rightarrow> Encoded n Colour | None \<Rightarrow> Untouched)
         | Reduced \<Rightarrow> Encoded (min wanted (im_reduced_quality i)) Colour
         | Grey \<Rightarrow> Encoded (min wanted (im_grey_quality i)) GreyForm
         | Placeholder \<Rightarrow> Encoded PLACEHOLDER_QUALITY PlaceholderForm
         | Nothing \<Rightarrow> NothingServed)"

definition serving_for :: "nat \<Rightarrow> images \<Rightarrow> proxy_request \<Rightarrow> served" where
  "serving_for now i req =
     (let t = (case rq_peer req of None \<Rightarrow> FullTier | Some (ip, port) \<Rightarrow> tier_at ip now (im_links i))
      in serving i (image_quality (get (im_settings i))) t)"

definition is_image_request :: "proxy_request \<Rightarrow> bool" where
  "is_image_request req =
     (case header (rq_headers req) ''sec-fetch-dest'' of
        Some dest \<Rightarrow> trim (to_lower dest) = ''image''
      | None \<Rightarrow>
          (case header (rq_headers req) ''accept'' of
             Some accept \<Rightarrow> starts_with (trim (hd (commas (to_lower accept)))) ''image/''
           | None \<Rightarrow> False))"

definition is_image_response :: "headers \<Rightarrow> bool" where
  "is_image_response hs =
     list_ex (\<lambda>(n, v). eq_ci n ''content-type'' \<and> starts_with (to_lower (trim_start v)) ''image/'') hs"

definition stop_caching :: "headers \<Rightarrow> headers" where
  "stop_caching hs =
     without ''last-modified'' (without ''etag'' (without ''expires'' (without ''cache-control'' hs)))
     @ [(''cache-control'', ''no-store'')]"

definition strip :: "proxy_response \<Rightarrow> proxy_response" where
  "strip resp =
     (let hs = without ''content-encoding'' (without ''content-length'' (without ''content-type'' (rs_headers resp)));
          hs = stop_caching (hs @ [(''content-type'', ''image/gif'')])
      in resp\<lparr>rs_headers := hs @ [(''x-mach5'', ''no-images'')], rs_body := TRANSPARENT_GIF\<rparr>)"

definition accepts_webp :: "headers \<Rightarrow> bool" where
  "accepts_webp hs = list_ex (\<lambda>(n, v). eq_ci n ''accept'' \<and> contains (to_lower v) ''image/webp'') hs"

definition is_convertible :: "headers \<Rightarrow> bool" where
  "is_convertible hs =
     list_ex (\<lambda>(n, v). eq_ci n ''content-type''
       \<and> trim (hd (split_on (\<lambda>c. c = CHR '';'') (to_lower v))) \<in> set CONVERTIBLE) hs"

definition claims :: "proxy_request \<Rightarrow> nat \<Rightarrow> headers \<Rightarrow> bool" where
  "claims req status hs \<longleftrightarrow> status = 200 \<and> accepts_webp (rq_headers req) \<and> is_convertible hs"

definition set_content_type :: "headers \<Rightarrow> headers" where
  "set_content_type hs = without ''content-type'' hs @ [(''content-type'', ''image/webp'')]"

definition placeholder_size :: "nat \<Rightarrow> nat \<Rightarrow> nat \<times> nat" where
  "placeholder_size width height =
     (let scale = max ((max width height + (PLACEHOLDER_EDGE - 1)) div PLACEHOLDER_EDGE) 1
      in (max (width div scale) 1, max (height div scale) 1))"

definition placeholder :: "'img outside \<Rightarrow> 'img \<Rightarrow> nat \<Rightarrow> nat \<Rightarrow> 'img" where
  "placeholder w img width height =
     (case placeholder_size width height of (small_w, small_h) \<Rightarrow>
        resize_exact w (resize_exact w img small_w small_h Triangle) width height Gaussian)"

definition to_webp :: "'img outside \<Rightarrow> bytes \<Rightarrow> nat \<Rightarrow> form \<Rightarrow> nat \<Rightarrow> bytes option" where
  "to_webp w body q f max_px =
     (case dimensions w body of
        None \<Rightarrow> None
      | Some (width, height) \<Rightarrow>
          if width > MAX_DIMENSION \<or> height > MAX_DIMENSION then None
          else if width * height > max_px then None
          else (case decoder w body of
                  None \<Rightarrow> None
                | Some img \<Rightarrow>
                    (let img = (case f of
                                  Colour \<Rightarrow> img
                                | GreyForm \<Rightarrow> grayscale w img
                                | PlaceholderForm \<Rightarrow> placeholder w img width height)
                     in if has_alpha w img then encode_rgba w img width height q
                        else encode_rgb w img width height q)))"

definition on_request_image :: "'img outside \<Rightarrow> proxy_request \<Rightarrow> images \<Rightarrow> proxy_response option \<times> images" where
  "on_request_image w req i =
     (if \<not> is_image_request req \<or> serving_for (clock w) i req \<noteq> NothingServed then (None, i)
      else (Some \<lparr>rs_status = 200,
                  rs_headers = [(''content-type'', ''image/gif''), (''cache-control'', ''no-store''), (''x-mach5'', ''no-images'')],
                  rs_body = TRANSPARENT_GIF\<rparr>,
            i\<lparr>im_metrics := (im_metrics i)\<lparr>images_stripped := increment (images_stripped (im_metrics i))\<rparr>\<rparr>))"

definition count_saved :: "nat \<Rightarrow> metrics \<Rightarrow> metrics" where
  "count_saved n m = m\<lparr>bytes_saved_by_images := add_count n (bytes_saved_by_images m)\<rparr>"

definition converted :: "'img outside \<Rightarrow> bytes \<Rightarrow> nat \<Rightarrow> form \<Rightarrow> images \<Rightarrow> bytes option \<times> images" where
  \<comment> \<open>from the cache, or by the encoder and then into the cache\<close>
  "converted w body q f i =
     (case im_cache i of
        None \<Rightarrow> (to_webp w body q f (max_pixels i), i)
      | Some cache \<Rightarrow>
          (case Imagecache.get (sha256 w) body q f cache (im_metrics i) of
             (Some webp, m) \<Rightarrow> (Some webp, i\<lparr>im_metrics := m\<rparr>)
           | (None, m) \<Rightarrow>
               (case to_webp w body q f (max_pixels i) of
                  None \<Rightarrow> (None, i\<lparr>im_metrics := m\<rparr>)
                | Some webp \<Rightarrow>
                    (Some webp, i\<lparr>im_metrics := m, im_cache := Some (put (sha256 w) (disk_io w) body q f webp cache)\<rparr>))))"

definition on_response_image :: "'img outside \<Rightarrow> proxy_request \<Rightarrow> proxy_response \<Rightarrow> images \<Rightarrow> proxy_response \<times> images" where
  "on_response_image w req resp i =
     (let s = serving_for (clock w) i req in
      if s = NothingServed \<and> is_image_response (rs_headers resp) then
        (strip resp, i\<lparr>im_metrics := count_saved (length (rs_body resp) - length TRANSPARENT_GIF)
           ((im_metrics i)\<lparr>images_stripped := increment (images_stripped (im_metrics i))\<rparr>)\<rparr>)
      else if \<not> claims req (rs_status resp) (rs_headers resp) \<or> length (rs_body resp) < MIN_IMAGE_BYTES then (resp, i)
      else (case s of
              Encoded q f \<Rightarrow>
                (case converted w (rs_body resp) q f i of
                   (None, i) \<Rightarrow> (resp, i)
                 | (Some webp, i) \<Rightarrow>
                     if length webp \<ge> length (rs_body resp) then (resp, i)
                     else (let hs = vary_on_accept (set_content_type (rs_headers resp));
                               hs = (if f = GreyForm \<or> f = PlaceholderForm then stop_caching hs else hs)
                           in (resp\<lparr>rs_headers := hs, rs_body := webp\<rparr>,
                               i\<lparr>im_metrics := count_saved (length (rs_body resp) - length webp) (im_metrics i)\<rparr>)))
            | _ \<Rightarrow> (resp, i)))"

definition wants_body_image :: "nat \<Rightarrow> images \<Rightarrow> proxy_request \<Rightarrow> response_head \<Rightarrow> bool" where
  "wants_body_image now i req head =
     (case serving_for now i req of
        NothingServed \<Rightarrow> is_image_response (hd_headers head)
      | Untouched \<Rightarrow> False
      | Encoded q f \<Rightarrow> claims req (hd_status head) (hd_headers head))"

definition images_hooks :: "('w \<Rightarrow> 'img outside) \<Rightarrow> ('w \<Rightarrow> images) \<Rightarrow> (images \<Rightarrow> 'w \<Rightarrow> 'w) \<Rightarrow> 'w hooks" where
  \<comment> \<open>as a link of a chain over a state that holds an \<^typ>\<open>images\<close>\<close>
  "images_hooks env read_i write_i = default_hooks\<lparr>
     on_request_hook := \<lambda>req w. (case on_request_image (env w) req (read_i w) of (a, i) \<Rightarrow> (a, req, write_i i w)),
     on_response_hook := \<lambda>req resp w. (case on_response_image (env w) req resp (read_i w) of (r, i) \<Rightarrow> (r, write_i i w)),
     wants_body_hook := \<lambda>req head w. wants_body_image (clock (env w)) (read_i w) req head\<rparr>"

section \<open>Two axes, one answer\<close>

fun rung :: "served \<Rightarrow> nat" where
  \<comment> \<open>how much is taken away\<close>
  "rung Untouched = 0"
| "rung (Encoded q Colour) = 0"
| "rung (Encoded q GreyForm) = 2"
| "rung (Encoded q PlaceholderForm) = 3"
| "rung NothingServed = 4"

lemma serving_nothing: "serving i q t = NothingServed \<longleftrightarrow> q = NoImages \<or> t = Nothing"
  by (cases q; cases t) (auto simp: serving_def)

lemma serving_untouched: "serving i q t = Untouched \<longleftrightarrow> q = Off \<and> t = FullTier"
  by (cases q; cases t) (auto simp: serving_def)

text \<open>
  The panel and the link meet by whichever asks for less, and neither talks the other up: images
  are withheld exactly if one of them asks for none; the form served is the one the link's tier
  asks for; outside placeholders the quality is at most what the panel's setting comes to, and at
  most the ceiling of the link's tier; and the origin's bytes go out as they are only if the panel
  says so and the link has nothing to say.
\<close>

theorem whichever_asks_for_less:
  "(serving i q t = NothingServed \<longleftrightarrow> q = NoImages \<or> t = Nothing)
   \<and> (serving i q t = Untouched \<longleftrightarrow> q = Off \<and> t = FullTier)
   \<and> (case serving i q t of
        Encoded n f \<Rightarrow>
          f = (case t of Grey \<Rightarrow> GreyForm | Placeholder \<Rightarrow> PlaceholderForm | _ \<Rightarrow> Colour)
          \<and> (f = PlaceholderForm \<or> n \<le> (case applied_to q (configured_quality i) of Some k \<Rightarrow> k | None \<Rightarrow> configured_quality i))
          \<and> (t \<in> {FullTier, Grey, Placeholder} \<or> n \<le> im_reduced_quality i)
          \<and> (t \<in> {FullTier, Reduced, Placeholder} \<or> n \<le> im_grey_quality i)
      | _ \<Rightarrow> True)"
  by (cases q; cases t) (auto simp: serving_def)

lemma serving_monotone:
  "degradation s \<le> degradation t \<Longrightarrow> rung (serving i q s) \<le> rung (serving i q t)"
  "rung (serving i q t) \<le> rung (serving i NoImages t)"
  by (cases q; cases s; cases t; simp add: serving_def)+

section \<open>Exactness\<close>

text \<open>
  Buffering is exact: a response whose head the link did not claim goes through it untouched, body,
  headers, counters, cache and all.
\<close>

theorem unclaimed_is_untouched:
  assumes "\<not> wants_body_image (clock w) i req \<lparr>hd_status = rs_status resp, hd_headers = rs_headers resp\<rparr>"
  shows "on_response_image w req resp i = (resp, i)"
  using assms by (auto simp: wants_body_image_def on_response_image_def Let_def split: served.splits)

lemma converted_keeps:
  "im_settings (snd (converted w b q f i)) = im_settings i" "im_links (snd (converted w b q f i)) = im_links i"
  "configured_quality (snd (converted w b q f i)) = configured_quality i"
  "max_pixels (snd (converted w b q f i)) = max_pixels i"
  by (auto simp: converted_def split: option.splits prod.splits)

lemma on_response_cases:
  assumes "on_response_image w req resp i = (resp', i')"
  obtains (stripped) "serving_for (clock w) i req = NothingServed" "is_image_response (rs_headers resp)" "resp' = strip resp"
  | (same) "resp' = resp"
  | (encoded) q f webp i1 where "serving_for (clock w) i req = Encoded q f" "claims req (rs_status resp) (rs_headers resp)"
      "converted w (rs_body resp) q f i = (Some webp, i1)" "length webp < length (rs_body resp)"
      "resp' = resp\<lparr>rs_headers := (let hs = vary_on_accept (set_content_type (rs_headers resp))
          in if f = GreyForm \<or> f = PlaceholderForm then stop_caching hs else hs), rs_body := webp\<rparr>"
      "i' = i1\<lparr>im_metrics := count_saved (length (rs_body resp) - length webp) (im_metrics i1)\<rparr>"
proof (cases "serving_for (clock w) i req = NothingServed \<and> is_image_response (rs_headers resp)")
  case True
  with assms stripped show thesis by (simp add: on_response_image_def Let_def)
next
  case n: False
  show thesis
  proof (cases "\<not> claims req (rs_status resp) (rs_headers resp) \<or> length (rs_body resp) < MIN_IMAGE_BYTES")
    case True
    with assms have "(resp, i) = (resp', i')"
      by (simp only: on_response_image_def Let_def n if_True if_False)
    with same show thesis by simp
  next
    case c: False
    have rest: "(case serving_for (clock w) i req of
        Encoded q f \<Rightarrow>
          (case converted w (rs_body resp) q f i of
             (None, i) \<Rightarrow> (resp, i)
           | (Some webp, i) \<Rightarrow>
               if length webp \<ge> length (rs_body resp) then (resp, i)
               else (resp\<lparr>rs_headers := (let hs = vary_on_accept (set_content_type (rs_headers resp))
                         in if f = GreyForm \<or> f = PlaceholderForm then stop_caching hs else hs), rs_body := webp\<rparr>,
                     i\<lparr>im_metrics := count_saved (length (rs_body resp) - length webp) (im_metrics i)\<rparr>))
      | _ \<Rightarrow> (resp, i)) = (resp', i')"
      using assms by (simp only: on_response_image_def Let_def n c if_False)
    show thesis
    proof (cases "serving_for (clock w) i req")
      case (Encoded q f)
      obtain r i1 where k: "converted w (rs_body resp) q f i = (r, i1)" by force
      show thesis
      proof (cases r)
        case None
        with rest Encoded k same show thesis by simp
      next
        case (Some webp)
        show thesis
        proof (cases "length webp \<ge> length (rs_body resp)")
          case True
          with rest Encoded k Some same show thesis by simp
        next
          case False
          with rest Encoded k Some c show thesis
            by (intro encoded [of q f webp i1]) (simp_all only: option.case prod.case served.case if_False prod.inject de_Morgan_disj not_not not_le)
        qed
      qed
    qed (use rest same in simp_all)
  qed
qed

lemma distinct_fields:
  "\<not> eq_ci ''last-modified'' ''cache-control''" "\<not> eq_ci ''etag'' ''cache-control''"
  "\<not> eq_ci ''expires'' ''cache-control''" "\<not> eq_ci ''last-modified'' ''etag''"
  "\<not> eq_ci ''last-modified'' ''expires''" "\<not> eq_ci ''etag'' ''expires''"
  "\<not> eq_ci ''cache-control'' ''expires''" "\<not> eq_ci ''cache-control'' ''etag''"
  "\<not> eq_ci ''cache-control'' ''last-modified''" "\<not> eq_ci ''x-mach5'' ''cache-control''"
  "\<not> eq_ci ''x-mach5'' ''expires''" "\<not> eq_ci ''x-mach5'' ''etag''" "\<not> eq_ci ''x-mach5'' ''last-modified''"
  "\<not> eq_ci ''cache-control'' ''content-type''" "\<not> eq_ci ''expires'' ''content-type''"
  "\<not> eq_ci ''etag'' ''content-type''" "\<not> eq_ci ''last-modified'' ''content-type''"
  "\<not> eq_ci ''cache-control'' ''vary''" "\<not> eq_ci ''expires'' ''vary''" "\<not> eq_ci ''etag'' ''vary''"
  "\<not> eq_ci ''last-modified'' ''vary''" "\<not> eq_ci ''vary'' ''content-type''" "\<not> eq_ci ''content-type'' ''vary''"
  by code_simp+

definition uncached :: "headers \<Rightarrow> bool" where
  \<comment> \<open>no cache may keep it, and nothing is left to revalidate with\<close>
  "uncached hs \<longleftrightarrow> filter (\<lambda>(n, v). eq_ci n ''cache-control'') hs = [(''cache-control'', ''no-store'')]
     \<and> header hs ''expires'' = None \<and> header hs ''etag'' = None \<and> header hs ''last-modified'' = None"

lemma no_lines_left: "filter (\<lambda>(n, v). eq_ci n name) (without name hs) = []"
  by (auto simp: without_def filter_empty_conv)

lemma other_lines_left:
  "\<not> eq_ci other name \<Longrightarrow> filter (\<lambda>(n, v). eq_ci n name) (without other hs) = filter (\<lambda>(n, v). eq_ci n name) hs"
  by (auto simp: without_def eq_ci_def intro!: filter_cong)

lemma stop_caching_uncached: "uncached (stop_caching hs)"
  by (simp add: uncached_def stop_caching_def header_append header_without_other distinct_fields
      other_lines_left no_lines_left)

lemma strip_uncached: "uncached (rs_headers (strip resp))"
  using stop_caching_uncached [unfolded uncached_def]
  by (simp add: uncached_def strip_def Let_def header_append distinct_fields)

lemma varies_on_without: "\<not> eq_ci name ''vary'' \<Longrightarrow> varies_on (without name hs) = varies_on hs"
  by (simp add: varies_on_def header_without_other)

lemma varies_on_stop_caching: "varies_on (stop_caching hs) = varies_on hs"
proof -
  have "header (stop_caching hs) ''vary'' = header hs ''vary''"
    by (simp add: stop_caching_def header_append header_without_other distinct_fields split: option.split)
  then show ?thesis by (simp add: varies_on_def)
qed

lemma content_type_stop_caching: "header (stop_caching hs) ''content-type'' = header hs ''content-type''"
  by (simp add: stop_caching_def header_append header_without_other distinct_fields split: option.split)

lemma content_type_webp: "header (vary_on_accept (set_content_type hs)) ''content-type'' = Some ''image/webp''"
  by (simp add: vary_on_accept_def header_vary_on set_content_type_def header_append distinct_fields)

section \<open>What comes out\<close>

text \<open>
  An image never makes a page worse. A response the link changed is either an image the panel or
  the link asked to withhold, replaced by the pixel, or a 200 to a client that takes WebP whose body
  came out strictly smaller, keeping its status, typed as WebP and declared to vary on \<open>accept\<close>.
\<close>

theorem images_only_shrink:
  assumes "on_response_image w req resp i = (resp', i')" and "resp' \<noteq> resp"
  shows "(serving_for (clock w) i req = NothingServed \<and> is_image_response (rs_headers resp) \<and> resp' = strip resp)
    \<or> (length (rs_body resp') < length (rs_body resp) \<and> rs_status resp' = 200 \<and> rs_status resp = 200
        \<and> accepts_webp (rq_headers req) \<and> header (rs_headers resp') ''content-type'' = Some ''image/webp''
        \<and> ''accept'' \<in> set (varies_on (rs_headers resp')))"
  using assms(1)
proof (cases rule: on_response_cases)
  case (encoded q f webp i1)
  have "header (rs_headers resp') ''content-type'' = Some ''image/webp''"
    by (simp add: encoded Let_def content_type_stop_caching content_type_webp)
  moreover have "''accept'' \<in> set (varies_on (rs_headers resp'))"
    by (simp add: encoded Let_def varies_on_stop_caching vary_is_added)
  ultimately show ?thesis using encoded by (simp add: claims_def)
qed (use assms(2) in auto)

text \<open>
  What a slow link could carry does not outlive it: whenever the link replaced a body by the
  pixel, a grey copy or a placeholder, the response says \<open>no-store\<close> and nothing else about caching
  and carries no validator to revalidate the stand-in with.
\<close>

theorem stand_ins_are_not_cached:
  assumes "on_response_image w req resp i = (resp', i')" and "resp' \<noteq> resp"
    and "\<forall>q. serving_for (clock w) i req \<noteq> Encoded q Colour"
  shows "uncached (rs_headers resp')"
  using assms(1)
proof (cases rule: on_response_cases)
  case (encoded q f webp i1)
  with assms(3) have "f = GreyForm \<or> f = PlaceholderForm" by (cases f) auto
  with encoded show ?thesis by (simp add: stop_caching_uncached)
qed (use assms(2) in \<open>auto simp: strip_uncached\<close>)

section \<open>The guards of the conversion\<close>

text \<open>
  Nothing is decoded before its header said it is small enough: with either dimension past what
  WebP holds, more pixels than configured or an unreadable header there is no output whatever the
  decoder and encoder would do, so neither is reached; and the copy a placeholder is made from is
  between 1 and 16 pixels each way.
\<close>

theorem guarded_conversion:
  "(case dimensions w body of
      None \<Rightarrow> to_webp (w\<lparr>decoder := d, encode_rgba := e, encode_rgb := e'\<rparr>) body q f limit = None
    | Some (width, height) \<Rightarrow>
        width \<le> 16383 \<and> height \<le> 16383 \<and> width * height \<le> limit
        \<or> to_webp (w\<lparr>decoder := d, encode_rgba := e, encode_rgb := e'\<rparr>) body q f limit = None)
   \<and> fst (placeholder_size m n) \<in> {1..16} \<and> snd (placeholder_size m n) \<in> {1..16}"
proof -
  have small: "k div max ((max m n + 15) div 16) 1 \<le> 16" if "k \<le> max m n" for k
  proof -
    let ?s = "max ((max m n + 15) div 16) 1"
    have "max m n \<le> 16 * ?s" by linarith
    with that have "k \<le> 16 * ?s" by linarith
    then show ?thesis by (intro div_le_mono [THEN order_trans, of k "16 * ?s"]) simp_all
  qed
  have "fst (placeholder_size m n) \<in> {1..16}" "snd (placeholder_size m n) \<in> {1..16}"
    using small [of m] small [of n] by (simp_all add: placeholder_size_def Let_def PLACEHOLDER_EDGE_def)
  then show ?thesis by (auto simp: to_webp_def MAX_DIMENSION_def split: option.split)
qed

section \<open>The cache is transparent\<close>

definition honest :: "'img outside \<Rightarrow> nat \<Rightarrow> bytes set \<Rightarrow> image_cache \<Rightarrow> bool" where
  \<comment> \<open>every entry for one of these originals is its conversion\<close>
  "honest w limit S c \<longleftrightarrow> (\<forall>orig\<in>S. \<forall>q f b. ic_files c (path_for (sha256 w) c orig q f) = Some b \<longrightarrow> to_webp w orig q f limit = Some b)"

lemma honest_empty: "ic_files c = Map.empty \<Longrightarrow> honest w limit S c"
  by (simp add: honest_def)

lemma honest_put:
  assumes "honest w limit S c" and "inj_on (sha256 w) S" and "body \<in> S" and "to_webp w body q f limit = Some b"
  shows "honest w limit S (put (sha256 w) d body q f b c)"
  unfolding honest_def
proof (intro ballI allI impI)
  fix orig q' f' b'
  assume o: "orig \<in> S" and g: "ic_files (put (sha256 w) d body q f b c) (path_for (sha256 w) (put (sha256 w) d body q f b c) orig q' f') = Some b'"
  then have "Write True (path_for (sha256 w) c orig q' f') b' \<in> set (put_ops (sha256 w) d body q f b c)
      \<or> ic_files c (path_for (sha256 w) c orig q' f') = Some b'"
    unfolding put_files path_for_put by (intro fs.provenance)
  then show "to_webp w orig q' f' limit = Some b'"
  proof
    assume "Write True (path_for (sha256 w) c orig q' f') b' \<in> set (put_ops (sha256 w) d body q f b c)"
    then have p: "path_for (sha256 w) c orig q' f' = path_for (sha256 w) c body q f" and b: "b' = b"
      by (auto simp: put_ops_def Let_def split: if_splits)
    from path_for_inj [OF p] have "sha256 w orig = sha256 w body" "q' = q" "f' = f" by auto
    moreover from this have "orig = body" using inj_onD [OF assms(2) _ o assms(3)] by blast
    ultimately show ?thesis using assms(4) b by simp
  next
    assume "ic_files c (path_for (sha256 w) c orig q' f') = Some b'"
    with assms(1) o show ?thesis by (auto simp: honest_def)
  qed
qed

lemma serving_without_cache: "serving (i\<lparr>im_cache := None\<rparr>) q t = serving i q t"
  by (cases q; cases t) (simp_all add: serving_def)

text \<open>
  The conversion cache changes no answer: with an honest cache, which an empty one is, the response
  is the one the encoder alone would have given, and the cache is honest afterwards, for any set
  of originals SHA-256 tells apart, whatever the disk refuses or sweeps.
\<close>

theorem cache_is_transparent:
  assumes "im_cache i = Some c" and "honest w (max_pixels i) S c" and "inj_on (sha256 w) S" and "rs_body resp \<in> S"
  shows "fst (on_response_image w req resp i) = fst (on_response_image w req resp (i\<lparr>im_cache := None\<rparr>))
    \<and> (\<exists>c'. im_cache (snd (on_response_image w req resp i)) = Some c' \<and> honest w (max_pixels i) S c')"
proof -
  let ?b = "rs_body resp"
  have same: "fst (converted w ?b q f i) = to_webp w ?b q f (max_pixels i)
      \<and> (\<exists>c'. im_cache (snd (converted w ?b q f i)) = Some c' \<and> honest w (max_pixels i) S c')" for q f
  proof (cases "ic_files c (path_for (sha256 w) c ?b q f)")
    case (Some b)
    moreover from this have "to_webp w ?b q f (max_pixels i) = Some b" using assms(2,4) unfolding honest_def by blast
    ultimately show ?thesis using assms(1,2) by (simp add: converted_def Imagecache.get_def)
  next
    case miss: None
    show ?thesis
    proof (cases "to_webp w ?b q f (max_pixels i)")
      case None
      with miss assms(1,2) show ?thesis by (simp add: converted_def Imagecache.get_def)
    next
      case (Some b)
      from honest_put [OF assms(2-4) Some] miss Some assms(1) show ?thesis
        by (simp add: converted_def Imagecache.get_def)
    qed
  qed
  have plain: "converted w ?b q f (i\<lparr>im_cache := None\<rparr>) = (to_webp w ?b q f (max_pixels i), i\<lparr>im_cache := None\<rparr>)" for q f
    by (simp add: converted_def)
  have sv: "serving_for n (i\<lparr>im_cache := None\<rparr>) req = serving_for n i req" for n
    by (cases "rq_peer req") (auto simp: serving_for_def serving_without_cache)
  show ?thesis
  proof (cases "serving_for (clock w) i req")
    case (Encoded q f)
    obtain r j where k: "converted w ?b q f i = (r, j)" by force
    with same [of q f] obtain c' where j: "to_webp w ?b q f (max_pixels i) = r" "im_cache j = Some c'"
      "honest w (max_pixels i) S c'" by auto
    show ?thesis
    proof (cases r)
      case None
      with Encoded k j plain sv assms(1,2) show ?thesis by (simp add: on_response_image_def)
    next
      case (Some webp)
      with Encoded k j plain sv assms(1,2) show ?thesis by (simp add: on_response_image_def Let_def)
    qed
  qed (use sv assms(1,2) in \<open>simp_all add: on_response_image_def Let_def\<close>)
qed

section \<open>Examples\<close>

definition tiny_codec :: "unit outside" where
  \<comment> \<open>every body is a 10 by 10 image that encodes to one byte\<close>
  "tiny_codec = \<lparr>dimensions = \<lambda>b. Some (10, 10), decoder = \<lambda>b. Some (), grayscale = id, resize_exact = \<lambda>i a b f. i,
     has_alpha = \<lambda>i. False, encode_rgba = \<lambda>i a b q. None, encode_rgb = \<lambda>i a b q. Some [1], sha256 = id,
     disk_io = quiet, clock = 0\<rparr>"

definition images_asking :: "quality \<Rightarrow> image_cache option \<Rightarrow> images" where
  "images_asking q cache = new_images (default_config bare) \<lparr>held = default_settings\<lparr>image_quality := q\<rparr>, backing = Missing\<rparr>
     (Link.new default_link) cache default_metrics"

definition webp_request :: proxy_request where
  "webp_request = simple_request\<lparr>rq_headers := [(''Accept'', ''image/webp,*/*'')]\<rparr>"

definition photo :: proxy_response where
  "photo = \<lparr>rs_status = 200, rs_headers = [(''Content-Type'', ''image/png''), (''ETag'', ''1'')], rs_body = replicate 4000 7\<rparr>"

lemma example_serving:
  "serving_for 0 (images_asking Auto c) webp_request = Encoded 80 Colour"
  "serving_for 0 (images_asking NoImages c) webp_request = NothingServed"
  by (simp_all add: serving_for_def webp_request_def simple_request_def images_asking_def new_images_def
      serving_def Settings.get_def default_config_def default_images_def)

lemma shorter_differs: "[1 :: u8] \<noteq> replicate 4000 7"
proof
  assume "[1 :: u8] = replicate 4000 7"
  from arg_cong [OF this, of length] show False by simp
qed

lemma example_claims: "claims webp_request 200 [(''Content-Type'', ''image/png''), (''ETag'', ''1'')]"
  by code_simp

theorem unclaimed_is_untouched_witness:
  "on_response_image tiny_codec simple_request photo (images_asking Auto None) = (photo, images_asking Auto None)"
proof (rule unclaimed_is_untouched)
  have "serving_for 0 (images_asking Auto None) simple_request = Encoded 80 Colour"
    by (simp add: serving_for_def simple_request_def images_asking_def new_images_def
        serving_def Settings.get_def default_config_def default_images_def)
  moreover have "\<not> claims simple_request 200 [(''Content-Type'', ''image/png''), (''ETag'', ''1'')]" by code_simp
  ultimately show "\<not> wants_body_image (clock tiny_codec) (images_asking Auto None) simple_request
      \<lparr>hd_status = rs_status photo, hd_headers = rs_headers photo\<rparr>"
    by (simp add: wants_body_image_def photo_def tiny_codec_def)
qed

lemma example_converted:
  "on_response_image tiny_codec webp_request photo (images_asking Auto None) =
     (photo\<lparr>rs_headers := vary_on_accept (set_content_type (rs_headers photo)), rs_body := [1]\<rparr>,
      (images_asking Auto None)\<lparr>im_metrics := count_saved 3999 default_metrics\<rparr>)"
proof -
  have c: "clock tiny_codec = 0" "im_cache (images_asking Auto None) = None" "im_metrics (images_asking Auto None) = default_metrics"
    "max_pixels (images_asking Auto None) = 16000000"
    by (simp_all add: tiny_codec_def images_asking_def new_images_def default_config_def default_images_def)
  have "converted tiny_codec (replicate 4000 7) 80 Colour (images_asking Auto None) = (Some [1], images_asking Auto None)"
    by (simp add: converted_def c to_webp_def) (simp add: tiny_codec_def MAX_DIMENSION_def)
  then show ?thesis
    using example_claims by (simp add: on_response_image_def Let_def c example_serving photo_def MIN_IMAGE_BYTES_def)
qed

theorem images_only_shrink_witness:
  "\<exists>resp' i'. on_response_image tiny_codec webp_request photo (images_asking Auto None) = (resp', i')
    \<and> length (rs_body resp') < length (rs_body photo) \<and> ''accept'' \<in> set (varies_on (rs_headers resp'))"
proof -
  have "clock tiny_codec = 0" by (simp add: tiny_codec_def)
  moreover have "photo\<lparr>rs_headers := vary_on_accept (set_content_type (rs_headers photo)), rs_body := [1]\<rparr> \<noteq> photo"
    by (simp add: photo_def shorter_differs)
  ultimately show ?thesis
    using images_only_shrink [OF example_converted] example_converted example_serving by auto
qed

theorem stand_ins_are_not_cached_witness:
  "\<exists>resp' i'. on_response_image tiny_codec webp_request photo (images_asking NoImages None) = (resp', i')
    \<and> resp' = strip photo \<and> uncached (rs_headers resp')"
proof -
  have c: "clock tiny_codec = 0" by (simp add: tiny_codec_def)
  have "is_image_response (rs_headers photo)" by (simp only: photo_def proxy_response.simps) code_simp
  then obtain i' where e: "on_response_image tiny_codec webp_request photo (images_asking NoImages None) = (strip photo, i')"
    by (simp add: on_response_image_def c example_serving)
  moreover have "strip photo \<noteq> photo"
    by (auto simp: strip_def photo_def TRANSPARENT_GIF_def Let_def dest!: arg_cong [where f = "\<lambda>r. length (rs_body r)"])
  ultimately show ?thesis using stand_ins_are_not_cached [OF e] by (simp add: c example_serving)
qed

theorem cache_is_transparent_witness:
  "fst (on_response_image tiny_codec webp_request photo (images_asking Auto (Some empty_cache)))
     = photo\<lparr>rs_headers := vary_on_accept (set_content_type (rs_headers photo)), rs_body := [1]\<rparr>"
proof -
  have c: "im_cache (images_asking Auto (Some empty_cache)) = Some empty_cache"
    "(images_asking Auto (Some empty_cache))\<lparr>im_cache := None\<rparr> = images_asking Auto None"
    by (simp_all add: images_asking_def new_images_def)
  have h: "honest tiny_codec (max_pixels (images_asking Auto (Some empty_cache))) UNIV empty_cache"
    by (rule honest_empty) (simp add: empty_cache_def)
  have "inj_on (sha256 tiny_codec) UNIV" by (simp add: tiny_codec_def)
  from cache_is_transparent [OF c(1) h this] show ?thesis by (simp add: c(2) example_converted)
qed

end
