(* ===== verification/Budget.thy ===== *)
theory Budget
  imports Metrics
begin

text \<open>
  \<open>src/proxy/src/budget.rs\<close>: how much of one h3 response may wait between the worker that fetches
  it and the client that reads it. A \<open>claim\<close> that finds no room waits on a condition variable; what
  happens while it waits is data here: each wait carries what the event loop did to the budget
  meanwhile and whether \<open>wait_timeout\<close> reported its time as run out (a wait that carries nothing is
  a spurious wake-up). A claim that outlives its list of waits is still parked. One worker waits per
  budget, as the code says. Byte counts are natural numbers: \<open>usize\<close> does not overflow on sizes of
  buffers held in memory; the progress counter wraps at 64 bits.
\<close>

definition STALLED :: nat where "STALLED = 10"

record budget =
  outstanding :: nat
  progress :: "64 word"
  closed :: bool
  allowance :: nat
    \<comment> \<open>\<open>limit\<close>\<close>
  stalled :: nat

definition with_stall :: "nat \<Rightarrow> nat \<Rightarrow> budget" where
  "with_stall limit window =
     \<lparr>outstanding = 0, progress = 0, closed = False, allowance = limit, stalled = window\<rparr>"

definition new_budget :: "nat \<Rightarrow> budget" where
  "new_budget limit = with_stall limit STALLED"

definition full :: "nat \<Rightarrow> budget \<Rightarrow> bool" where
  "full bytes b \<longleftrightarrow> outstanding b > 0 \<and> outstanding b + bytes > allowance b"

definition release :: "nat \<Rightarrow> budget \<Rightarrow> budget" where
  "release bytes b = b\<lparr>outstanding := outstanding b - bytes, progress := progress b + 1\<rparr>"

definition close :: "budget \<Rightarrow> budget" where
  "close b = b\<lparr>closed := True\<rparr>"

datatype move = Released nat | Abandoned

fun play :: "move list \<Rightarrow> budget \<Rightarrow> budget" where
  "play [] b = b"
| "play (Released n # ms) b = play ms (release n b)"
| "play (Abandoned # ms) b = play ms (close b)"

record wait =
  moved :: "move list"
  timed_out :: bool

fun claim_loop :: "nat \<Rightarrow> 64 word \<Rightarrow> wait list \<Rightarrow> budget \<Rightarrow> bool option \<times> budget" where
  "claim_loop bytes seen ws b =
     (if \<not> closed b \<and> full bytes b then
        (case ws of
           [] \<Rightarrow> (None, b)
         | w # ws \<Rightarrow>
             let b = play (moved w) b in
             if progress b \<noteq> seen then claim_loop bytes (progress b) ws b
             else if timed_out w then claim_loop bytes seen ws (b\<lparr>closed := True\<rparr>)
             else claim_loop bytes seen ws b)
      else if closed b then (Some False, b)
      else (Some True, b\<lparr>outstanding := outstanding b + bytes\<rparr>))"

declare claim_loop.simps [simp del]

definition claim :: "nat \<Rightarrow> wait list \<Rightarrow> budget \<Rightarrow> metrics \<Rightarrow> bool option \<times> budget \<times> metrics" where
  "claim bytes ws b m =
     (let m = (if full bytes b \<and> \<not> closed b then m\<lparr>streams_parked := increment (streams_parked m)\<rparr> else m);
          (r, b) = claim_loop bytes (progress b) ws b
      in (r, b, m))"

section \<open>What happens while a worker waits\<close>

lemma release_fields [simp]:
  "outstanding (release n b) = outstanding b - n" "progress (release n b) = progress b + 1"
  "closed (release n b) = closed b" "allowance (release n b) = allowance b" "stalled (release n b) = stalled b"
  by (simp_all add: release_def)

lemma close_fields [simp]:
  "outstanding (close b) = outstanding b" "progress (close b) = progress b"
  "closed (close b)" "allowance (close b) = allowance b" "stalled (close b) = stalled b"
  by (simp_all add: close_def)

lemma play_fields [simp]: "allowance (play ms b) = allowance b" "stalled (play ms b) = stalled b"
  by (induction ms b rule: play.induct) simp_all

definition released :: "move list \<Rightarrow> nat list" where
  "released ms = List.map_filter (\<lambda>m. case m of Released n \<Rightarrow> Some n | Abandoned \<Rightarrow> None) ms"

lemma released_simps [simp]:
  "released [] = []" "released (Released n # ms) = n # released ms" "released (Abandoned # ms) = released ms"
  by (simp_all add: released_def List.map_filter_simps)

lemma play_outstanding: "outstanding (play ms b) = outstanding b - sum_list (released ms)"
  by (induction ms b rule: play.induct) simp_all

lemma play_progress: "progress (play ms b) = progress b + of_nat (length (released ms))"
  by (induction ms b rule: play.induct) simp_all

lemma play_closed: "closed (play ms b) \<longleftrightarrow> closed b \<or> Abandoned \<in> set ms"
  by (induction ms b rule: play.induct) auto

lemma length_released: "length (released ms) \<le> length ms"
  unfolding released_def List.map_filter_def by (simp add: le_trans [OF length_filter_le])

lemma progress_same_iff:
  assumes "length ms < 2 ^ 64"
  shows "progress (play ms b) = progress b \<longleftrightarrow> released ms = []"
proof -
  have "(of_nat (length (released ms)) :: 64 word) = 0 \<longleftrightarrow> length (released ms) = 0"
  proof -
    have "length (released ms) < 2 ^ 64" using length_released [of ms] assms by linarith
    then have "unat (of_nat (length (released ms)) :: 64 word) = length (released ms)"
      by (simp add: unat_of_nat)
    then show ?thesis by (cases "released ms = []") auto
  qed
  then show ?thesis by (simp add: play_progress)
qed

section \<open>Claims\<close>

lemma claim_result: "fst (claim bytes ws b m) = fst (claim_loop bytes (progress b) ws b)"
  by (simp add: claim_def split_beta)

lemma claim_after: "fst (snd (claim bytes ws b m)) = snd (claim_loop bytes (progress b) ws b)"
  by (simp add: claim_def split_beta)

text \<open>One lemma per way a claim goes on.\<close>

lemma claim_loop_done:
  "\<not> (\<not> closed b \<and> full bytes b) \<Longrightarrow> claim_loop bytes seen ws b =
     (if closed b then (Some False, b) else (Some True, b\<lparr>outstanding := outstanding b + bytes\<rparr>))"
  by (subst claim_loop.simps) (simp only: if_False)

lemma claim_loop_parked: "\<not> closed b \<Longrightarrow> full bytes b \<Longrightarrow> claim_loop bytes seen [] b = (None, b)"
  by (subst claim_loop.simps) simp

lemma claim_loop_wait:
  "\<not> closed b \<Longrightarrow> full bytes b \<Longrightarrow> claim_loop bytes seen (w # ws) b =
     (let b = play (moved w) b in
      if progress b \<noteq> seen then claim_loop bytes (progress b) ws b
      else if timed_out w then claim_loop bytes seen ws (b\<lparr>closed := True\<rparr>)
      else claim_loop bytes seen ws b)"
  by (subst claim_loop.simps) simp

lemma claim_loop_bounded:
  "outstanding b \<le> cap \<Longrightarrow> allowance b \<le> cap \<Longrightarrow> bytes \<le> cap \<Longrightarrow>
   outstanding (snd (claim_loop bytes seen ws b)) \<le> cap \<and> allowance (snd (claim_loop bytes seen ws b)) = allowance b"
proof (induction bytes seen ws b rule: claim_loop.induct)
  case (1 bytes seen ws b)
  show ?case
  proof (cases "\<not> closed b \<and> full bytes b")
    case False
    with 1 show ?thesis by (auto simp: claim_loop_done full_def)
  next
    case t: True
    show ?thesis
    proof (cases ws)
      case Nil
      with t 1 show ?thesis by (simp add: claim_loop_parked)
    next
      case (Cons w ws')
      have "outstanding (play (moved w) b) \<le> cap" using 1 by (simp add: play_outstanding)
      with t 1 Cons show ?thesis by (simp add: claim_loop_wait Let_def)
    qed
  qed
qed

datatype budget_op = Claimed nat "wait list" | Moved move

fun after_op :: "budget_op \<Rightarrow> budget \<Rightarrow> budget" where
  \<comment> \<open>an operation of the worker or of the event loop\<close>
  "after_op (Claimed n ws) b = fst (snd (claim n ws b default_metrics))"
| "after_op (Moved m) b = play [m] b"

definition op_size :: "budget_op \<Rightarrow> nat" where
  "op_size oper = (case oper of Claimed n ws \<Rightarrow> n | Moved m \<Rightarrow> 0)"



section \<open>Nobody waits forever\<close>

definition live_wait :: "wait \<Rightarrow> bool" where
  \<comment> \<open>the wait ended because its time ran out, the stream was abandoned, or bytes reached the client\<close>
  "live_wait w \<longleftrightarrow> length (moved w) < 2 ^ 64 \<and> list_all (\<lambda>n. n > 0) (released (moved w))
     \<and> (timed_out w \<or> Abandoned \<in> set (moved w) \<or> released (moved w) \<noteq> [])"

lemma claim_loop_returns:
  "list_all live_wait ws \<Longrightarrow> outstanding b \<le> length ws \<Longrightarrow> seen = progress b \<Longrightarrow>
   fst (claim_loop bytes seen ws b) \<noteq> None"
proof (induction ws arbitrary: b seen)
  case Nil
  then have "\<not> full bytes b" by (simp add: full_def)
  then show ?case by (cases "closed b") (simp_all add: claim_loop_done)
next
  case (Cons w ws)
  show ?case
  proof (cases "\<not> closed b \<and> full bytes b")
    case t: True
    let ?b = "play (moved w) b"
    have w: "live_wait w" using Cons.prems by simp
    show ?thesis
    proof (cases "released (moved w) = []")
      case True
      then have p: "progress ?b = seen" using Cons.prems by (simp add: play_progress)
      have "closed (if timed_out w then ?b\<lparr>closed := True\<rparr> else ?b)"
        using w True by (auto simp: live_wait_def play_closed)
      with t p show ?thesis by (auto simp: claim_loop_wait Let_def claim_loop_done)
    next
      case False
      have "length (moved w) < 2 ^ 64" using w by (simp add: live_wait_def)
      then have p: "progress ?b \<noteq> seen" using False Cons.prems(3) by (simp add: progress_same_iff)
      have "sum_list (released (moved w)) > 0"
        using w False by (cases "released (moved w)") (auto simp: live_wait_def)
      then have "outstanding ?b \<le> length ws" using Cons.prems(2) by (simp add: play_outstanding)
      with t p Cons show ?thesis by (simp add: claim_loop_wait Let_def)
    qed
  qed (simp add: claim_loop_done del: not_None_eq)
qed

text \<open>
  C35: a worker never waits forever for a client: a claim returns after at most as many waits as bytes
  are outstanding, provided each wait ends with a byte delivered, the stream abandoned, or its time
  run out. A condition variable may also wake for no reason; such a wait is not counted here.
\<close>

theorem claim_returns:
  assumes "list_all live_wait ws" and "outstanding b \<le> length ws"
  shows "fst (claim bytes ws b m) \<noteq> None"
  using claim_loop_returns [OF assms refl, of bytes] by (simp add: claim_result)

theorem claim_returns_witness:
  "fst (claim 50 [\<lparr>moved = [Released 1], timed_out = False\<rparr>, \<lparr>moved = [], timed_out = True\<rparr>]
     \<lparr>outstanding = 2, progress = 0, closed = False, allowance = 10, stalled = STALLED\<rparr> default_metrics) \<noteq> None"
  by (rule claim_returns) (simp_all add: live_wait_def)

text \<open>
  A slow client is not a stalled one. Claims answer according to what happened: a refusal means the
  budget was closed, the stream was abandoned during a wait, or the window ran out in a wait in
  which nothing at all was released; room is granted only on an open budget, and only when nothing
  was outstanding or the bytes fit.
\<close>

theorem slow_is_not_stalled:
  assumes "list_all (\<lambda>w. length (moved w) < 2 ^ 64) ws" and "claim bytes ws b m = (Some ok, b', m')"
  shows "if ok then \<not> closed b' \<and> (outstanding b' = bytes \<or> outstanding b' \<le> allowance b')
         else closed b' \<and> (closed b \<or> (\<exists>w\<in>set ws. Abandoned \<in> set (moved w) \<or> timed_out w \<and> released (moved w) = []))"
proof -
  have "claim_loop bytes seen ws b = (Some ok, b') \<Longrightarrow> seen = progress b \<Longrightarrow> ?thesis" for seen
    using assms(1)
  proof (induction bytes seen ws b rule: claim_loop.induct)
    case (1 bytes seen ws b)
    show ?case
    proof (cases "\<not> closed b \<and> full bytes b")
      case False
      with 1 show ?thesis by (auto simp: claim_loop_done full_def split: if_splits)
    next
      case t: True
      with 1 obtain w ws' where ws: "ws = w # ws'" by (cases ws) (auto simp: claim_loop_parked)
      let ?b = "play (moved w) b"
      have len: "length (moved w) < 2 ^ 64" using 1 ws by simp
      consider (moved) "progress ?b \<noteq> seen" | (stalled) "progress ?b = seen" "timed_out w"
        | (woken) "progress ?b = seen" "\<not> timed_out w" by blast
      then show ?thesis
      proof cases
        case moved
        with t 1(4) ws have "claim_loop bytes (progress ?b) ws' ?b = (Some ok, b')"
          by (simp add: claim_loop_wait Let_def)
        from 1(1) [OF t ws refl moved this refl] 1(6) ws show ?thesis
          by (cases ok) (auto simp: play_closed)
      next
        case stalled
        with t 1(4) ws have c: "claim_loop bytes seen ws' (?b\<lparr>closed := True\<rparr>) = (Some ok, b')"
          by (simp add: claim_loop_wait Let_def)
        have "released (moved w) = []" using progress_same_iff [OF len] stalled(1) 1(5) by simp
        with c stalled ws show ?thesis by (auto simp: claim_loop_done)
      next
        case woken
        with t 1(4) ws have c: "claim_loop bytes seen ws' ?b = (Some ok, b')"
          by (simp add: claim_loop_wait Let_def)
        have p: "seen = progress ?b" and l: "list_all (\<lambda>w. length (moved w) < 2 ^ 64) ws'"
          using woken 1(6) ws by simp_all
        from 1(3) [OF t ws refl _ woken(2) c p l] woken(1) ws show ?thesis
          by (cases ok) (auto simp: play_closed)
      qed
    qed
  qed
  moreover have "claim_loop bytes (progress b) ws b = (Some ok, b')"
    using claim_result [of bytes ws b m] claim_after [of bytes ws b m] assms(2) by (simp add: prod_eq_iff)
  ultimately show ?thesis by blast
qed

theorem slow_is_not_stalled_witness:
  "let (r, b', m') = claim 50 [\<lparr>moved = [Released 25], timed_out = True\<rparr>, \<lparr>moved = [Released 25], timed_out = True\<rparr>]
     \<lparr>outstanding = 100, progress = 0, closed = False, allowance = 100, stalled = STALLED\<rparr> default_metrics
   in r = Some True \<and> \<not> closed b' \<and> (outstanding b' = 50 \<or> outstanding b' \<le> allowance b')"
proof -
  let ?ws = "[\<lparr>moved = [Released 25], timed_out = True\<rparr>, \<lparr>moved = [Released 25], timed_out = True\<rparr>]"
  let ?b = "\<lparr>outstanding = 100, progress = 0, closed = False, allowance = 100, stalled = STALLED\<rparr>"
  obtain r b' m' where c: "claim 50 ?ws ?b default_metrics = (r, b', m')" by (metis surj_pair)
  have "fst (claim 50 ?ws ?b default_metrics) = Some True" by code_simp
  then have r: "r = Some True" by (simp add: c)
  have "list_all (\<lambda>w. length (moved w) < 2 ^ 64) ?ws" by simp
  from slow_is_not_stalled [OF this c [unfolded r]] show ?thesis using c r by simp
qed

lemma closed_stays_closed: "closed b \<Longrightarrow> claim bytes ws b m = (Some False, b, m)"
  by (simp add: claim_def claim_loop_done)

lemma oversized_goes_alone: "\<not> closed b \<Longrightarrow> outstanding b = 0 \<Longrightarrow> fst (claim bytes ws b m) = Some True"
  by (simp add: claim_def claim_loop_done full_def)

lemma parked_once:
  "snd (snd (claim bytes ws b m)) =
     (if full bytes b \<and> \<not> closed b then m\<lparr>streams_parked := increment (streams_parked m)\<rparr> else m)"
  by (simp add: claim_def split_beta)

end
