(* ===== verification/Body.thy ===== *)
theory Body
  imports Config Message
begin

text \<open>
  \<open>src/proxy/src/body.rs\<close>: a request body on its way from a front end to a worker. The channel is
  the list of chunks it will still deliver before its sender is dropped; \<open>aborted\<close> is what the
  shared \<open>Ending\<close> says at that moment.
\<close>

definition CHANNEL_DEPTH :: nat where "CHANNEL_DEPTH = 16"

definition BUFFER :: nat where
  \<comment> \<open>the buffer of \<open>read_to_cap\<close>\<close>
  "BUFFER = 64 * 1024"

record reader =
  arriving :: "bytes list"
  aborted :: bool
  unread :: bytes
    \<comment> \<open>\<open>rest\<close>\<close>
  offset :: nat

definition new_reader :: "bytes list \<Rightarrow> bool \<Rightarrow> reader" where
  "new_reader chunks ab = \<lparr>arriving = chunks, aborted = ab, unread = [], offset = 0\<rparr>"

datatype io_error = UnexpectedEof

definition read_out :: "nat \<Rightarrow> reader \<Rightarrow> (io_error + bytes) \<times> reader" where
  \<comment> \<open>\<open>Read::read\<close> into a buffer of \<open>room\<close> bytes: the bytes copied\<close>
  "read_out room r =
     (if offset r = length (unread r) then
        (case arriving r of
           [] \<Rightarrow> ((if aborted r then Inl UnexpectedEof else Inr []), r)
         | c # cs \<Rightarrow>
             (let n = min (length c) room in (Inr (take n c), r\<lparr>arriving := cs, unread := c, offset := n\<rparr>)))
      else
        (let n = min (length (unread r) - offset r) room
         in (Inr (take n (drop (offset r) (unread r))), r\<lparr>offset := offset r + n\<rparr>)))"

definition pending_bytes :: "reader \<Rightarrow> bytes" where
  \<comment> \<open>all a reader has still to hand out\<close>
  "pending_bytes r = drop (offset r) (unread r) @ concat (arriving r)"

lemma read_out_pending:
  "read_out room r = (Inr bs, r') \<Longrightarrow> pending_bytes r = bs @ pending_bytes r'"
proof -
  assume a: "read_out room r = (Inr bs, r')"
  show ?thesis
  proof (cases "offset r = length (unread r)")
    case True
    with a show ?thesis by (cases "arriving r")
        (auto simp: read_out_def pending_bytes_def Let_def min_def split: if_splits)
  next
    case False
    let ?n = "min (length (unread r) - offset r) room"
    have "drop (offset r) (unread r) = take ?n (drop (offset r) (unread r)) @ drop (offset r + ?n) (unread r)"
      by (metis append_take_drop_id drop_drop add.commute)
    with a False show ?thesis by (auto simp: read_out_def pending_bytes_def Let_def)
  qed
qed

datatype too_large = Cap | Interrupted io_error

function read_from :: "nat \<Rightarrow> bytes \<Rightarrow> reader \<Rightarrow> (too_large + bytes) \<times> reader" where
  \<comment> \<open>the loop of \<open>read_to_cap\<close>, with the body so far\<close>
  "read_from cap body r =
     (case read_out BUFFER r of
        (Inl e, r) \<Rightarrow> (Inl (Interrupted e), r)
      | (Inr bs, r) \<Rightarrow>
          (if bs = [] then (Inr body, r)
           else if length body + length bs > cap then (Inl Cap, r)
           else read_from cap (body @ bs) r))"
  by pat_completeness auto
termination
  by (relation "measure (\<lambda>(cap, body, r). length (pending_bytes r))")
    (auto dest: read_out_pending [OF sym])

declare read_from.simps [simp del]

definition read_to_cap :: "nat \<Rightarrow> reader \<Rightarrow> (too_large + bytes) \<times> reader" where
  "read_to_cap cap r = read_from cap [] r"

datatype request_body = NoBody | Streaming reader "nat option"

record rejected =
  rj_status :: nat
  rj_message :: str

definition take_body :: "limits_config \<Rightarrow> bool \<Rightarrow> proxy_request \<Rightarrow> (bytes list \<times> bool \<times> nat option) option \<Rightarrow>
    (rejected + request_body) \<times> proxy_request" where
  \<comment> \<open>\<open>take\<close>\<close>
  "take_body limits wanted req upload =
     (case upload of
        None \<Rightarrow> (Inr NoBody, req)
      | Some (chunks, ending, len) \<Rightarrow>
          (let reader = new_reader chunks ending in
           if \<not> wanted then (Inr (Streaming reader len), req)
           else (case fst (read_to_cap (max_request_body limits) reader) of
                   Inr body \<Rightarrow> (Inr NoBody, req\<lparr>rq_body := body\<rparr>)
                 | Inl Cap \<Rightarrow> (Inl \<lparr>rj_status = 413, rj_message = ''request body too large''\<rparr>, req)
                 | Inl (Interrupted e) \<Rightarrow>
                     (Inl \<lparr>rj_status = 400, rj_message = ''request body interrupted''\<rparr>, req))))"

section \<open>Reading a body\<close>

definition well_fed :: "reader \<Rightarrow> bool" where
  \<comment> \<open>no empty chunk will arrive: both front ends leave them out\<close>
  "well_fed r \<longleftrightarrow> [] \<notin> set (arriving r) \<and> offset r \<le> length (unread r)"

lemma read_out_cases:
  assumes "well_fed r" and "room > 0"
  obtains (ended) "pending_bytes r = []" "read_out room r = ((if aborted r then Inl UnexpectedEof else Inr []), r)"
  | (more_bytes) bs r' where "read_out room r = (Inr bs, r')" "bs \<noteq> []" "well_fed r'" "aborted r' = aborted r"
      "pending_bytes r = bs @ pending_bytes r'"
proof (cases "offset r = length (unread r)")
  case True
  show thesis
  proof (cases "arriving r")
    case Nil
    with True show thesis by (intro ended) (simp_all add: pending_bytes_def read_out_def)
  next
    case (Cons c cs)
    with True assms have "read_out room r = (Inr (take (min (length c) room) c),
        r\<lparr>arriving := cs, unread := c, offset := min (length c) room\<rparr>)" "c \<noteq> []"
      by (auto simp: read_out_def Let_def well_fed_def)
    with assms Cons show thesis by (intro more_bytes read_out_pending) (auto simp: well_fed_def)
  qed
next
  case False
  let ?n = "min (length (unread r) - offset r) room"
  from False have r: "read_out room r = (Inr (take ?n (drop (offset r) (unread r))), r\<lparr>offset := offset r + ?n\<rparr>)"
    by (simp add: read_out_def Let_def)
  have "?n > 0" using False assms by (simp add: well_fed_def)
  with r assms False show thesis by (intro more_bytes [OF r] read_out_pending [OF r]) (auto simp: well_fed_def)
qed

lemma read_from_well_fed:
  "well_fed r \<Longrightarrow> length body \<le> cap \<Longrightarrow>
   fst (read_from cap body r) =
     (if length (body @ pending_bytes r) > cap then Inl Cap
      else if aborted r then Inl (Interrupted UnexpectedEof) else Inr (body @ pending_bytes r))"
proof (induction cap body r rule: read_from.induct)
  case (1 cap body r)
  have "BUFFER > 0" by (simp add: BUFFER_def)
  with 1(2) show ?case
  proof (cases rule: read_out_cases)
    case ended
    with 1(3) show ?thesis by (simp add: read_from.simps [of cap body r])
  next
    case (more_bytes bs r')
    show ?thesis
    proof (cases "length body + length bs > cap")
      case True
      with more_bytes show ?thesis by (simp add: read_from.simps [of cap body r])
    next
      case False
      have "fst (read_from cap (body @ bs) r') =
          (if length ((body @ bs) @ pending_bytes r') > cap then Inl Cap
           else if aborted r' then Inl (Interrupted UnexpectedEof) else Inr ((body @ bs) @ pending_bytes r'))"
        using 1(1) [of "Inr bs" r' bs] more_bytes False by simp
      with more_bytes False show ?thesis by (simp add: read_from.simps [of cap body r])
    qed
  qed
qed

text \<open>
  What an interceptor gets to see of what is put into the channel, over every way the bytes were cut
  into chunks: all of them if they are within the cap, a 413 past it, and a 400 when the front end said
  that the body was broken off. What it does not say is not known here.
\<close>

lemma take_body_wanted:
  assumes "[] \<notin> set chunks"
  shows "take_body limits True req (Some (chunks, gone, len)) =
    (if length (concat chunks) > max_request_body limits
     then (Inl \<lparr>rj_status = 413, rj_message = ''request body too large''\<rparr>, req)
     else if gone then (Inl \<lparr>rj_status = 400, rj_message = ''request body interrupted''\<rparr>, req)
     else (Inr NoBody, req\<lparr>rq_body := concat chunks\<rparr>))"
proof -
  have "well_fed (new_reader chunks gone)" "pending_bytes (new_reader chunks gone) = concat chunks"
    "aborted (new_reader chunks gone) = gone"
    using assms by (simp_all add: well_fed_def pending_bytes_def new_reader_def)
  then have "fst (read_to_cap (max_request_body limits) (new_reader chunks gone)) =
     (if length (concat chunks) > max_request_body limits then Inl Cap
      else if gone then Inl (Interrupted UnexpectedEof) else Inr (concat chunks))"
    using read_from_well_fed [of "new_reader chunks gone" "[]" "max_request_body limits"]
    by (simp only: read_to_cap_def append_Nil list.size le0 simp_thms)
  then show ?thesis by (simp add: take_body_def Let_def)
qed

text \<open>An empty chunk would read as the end of the body: the reader relies on the front ends here.\<close>

lemma empty_chunk_ends_the_body:
  "read_to_cap 100 (new_reader [[1], [], [2]] False) = (Inr [1], (new_reader [[2]] False))"
  by (simp add: read_to_cap_def new_reader_def read_from.simps read_out_def BUFFER_def Let_def)

end
