(* ===== verification/Uploads.thy ===== *)
theory Uploads
  imports Body "HOL-Library.Multiset"
begin

text \<open>
  The uploads of the QUIC front end (\<open>src/proxy/src/main.rs\<close>: \<open>Upload\<close>, \<open>pump_uploads\<close>, the stream
  events of \<open>poll_requests\<close>): body bytes go from a stream into the bounded channel a worker reads,
  with an overflow that parks what the channel has no room for.

  The worker is another thread: what it does to its end of the channel just before each \<open>try_send\<close>
  of a pass is data (a schedule), as is what \<open>recv_body\<close> answers. \<open>queue\<close> is the channel, \<open>taken\<close>
  what the worker has received from it, and \<open>seen\<close> every chunk that came off the stream, in order;
  the last two are history, the code keeps neither. An upload that was removed has dropped its
  sender and its overflow, whatever the record still shows.
\<close>

record upload =
  queue :: "bytes list"
  listening :: bool
    \<comment> \<open>the worker still holds the receiver\<close>
  sending :: bool
    \<comment> \<open>the front end still holds the sender: the stream has an entry in \<open>uploads\<close>\<close>
  ending :: bool
    \<comment> \<open>\<open>Ending\<close>: aborted\<close>
  overflow :: "bytes list"
  parked :: nat
  finished :: bool
  taken :: "bytes list"
  seen :: "bytes list"

definition new_upload :: upload where
  "new_upload = \<lparr>queue = [], listening = True, sending = True, ending = False, overflow = [], parked = 0,
     finished = False, taken = [], seen = []\<rparr>"

definition has_room :: "nat \<Rightarrow> upload \<Rightarrow> bool" where
  "has_room cap u \<longleftrightarrow> parked u < cap"

definition park :: "bytes \<Rightarrow> upload \<Rightarrow> upload" where
  "park c u = u\<lparr>parked := parked u + length c, overflow := overflow u @ [c]\<rparr>"

datatype worker_move = Receives nat | Hangs_up

fun worker :: "worker_move \<Rightarrow> upload \<Rightarrow> upload" where
  "worker (Receives n) u =
     (if listening u then u\<lparr>taken := taken u @ take n (queue u), queue := drop n (queue u)\<rparr> else u)"
| "worker Hangs_up u = u\<lparr>listening := False\<rparr>"

datatype sent = Sent | Full | Closed

definition try_send :: "bytes \<Rightarrow> upload \<Rightarrow> sent \<times> upload" where
  "try_send c u =
     (if \<not> listening u then (Closed, u)
      else if length (queue u) \<ge> CHANNEL_DEPTH then (Full, u)
      else (Sent, u\<lparr>queue := queue u @ [c]\<rparr>))"

definition interleave :: "worker_move list \<Rightarrow> upload \<Rightarrow> upload" where
  "interleave sched u = (case sched of [] \<Rightarrow> u | m # _ \<Rightarrow> worker m u)"

function drain_overflow :: "worker_move list \<Rightarrow> upload \<Rightarrow> bool \<times> worker_move list \<times> upload" where
  \<comment> \<open>the first loop of a pass: whether the channel turned out closed, and the rest of the schedule\<close>
  "drain_overflow sched u =
     (case overflow u of
        [] \<Rightarrow> (False, sched, u)
      | c # rest \<Rightarrow>
          (case try_send c (interleave sched u) of
             (Sent, v) \<Rightarrow> drain_overflow (tl sched) (v\<lparr>overflow := rest, parked := parked u - length c\<rparr>)
           | (Full, v) \<Rightarrow> (False, tl sched, v)
           | (Closed, v) \<Rightarrow> (True, tl sched, v\<lparr>overflow := rest\<rparr>)))"
  by pat_completeness auto
termination
  by (relation "measure (\<lambda>(sched, u). length (overflow u))") auto

declare drain_overflow.simps [simp del]

datatype received = Got bytes | Done | Failed

datatype why = Drained | No_room | Over

fun read_on :: "nat \<Rightarrow> worker_move list \<Rightarrow> received list \<Rightarrow> upload \<Rightarrow> why \<times> upload" where
  \<comment> \<open>the second loop, over what \<open>recv_body\<close> answers: how it ended\<close>
  "read_on cap sched rs u =
     (if \<not> has_room cap u then (No_room, u)
      else (case rs of
              [] \<Rightarrow> (Drained, u)
            | Done # _ \<Rightarrow> (Drained, u)
            | Failed # _ \<Rightarrow> (Over, u)
            | Got c # rs \<Rightarrow>
                (if c = [] then (Drained, u)
                 else (let v = interleave sched u in
                       case try_send c (v\<lparr>seen := seen u @ [c]\<rparr>) of
                         (Sent, v) \<Rightarrow> read_on cap (tl sched) rs v
                       | (Full, v) \<Rightarrow> read_on cap (tl sched) rs (park c v)
                       | (Closed, v) \<Rightarrow> (Over, v)))))"

declare read_on.simps [simp del]

definition pump_upload :: "nat \<Rightarrow> worker_move list \<Rightarrow> received list \<Rightarrow> upload \<Rightarrow> upload" where
  \<comment> \<open>one pass of \<open>pump_uploads\<close> over one upload, the removal at its end included\<close>
  "pump_upload cap sched rs u =
     (case drain_overflow sched u of
        (True, _, u) \<Rightarrow> u\<lparr>sending := False\<rparr>
      | (False, sched, u) \<Rightarrow>
          (case read_on cap sched rs u of
             (Over, u) \<Rightarrow> u\<lparr>sending := False\<rparr>
           | (No_room, u) \<Rightarrow> u
           | (Drained, u) \<Rightarrow>
               if finished u \<and> overflow u = [] then u\<lparr>sending := False\<rparr> else u))"

datatype upload_event =
    Pass "worker_move list" "received list"
  | Finished_event
  | Reset_event
  | Worker worker_move
  | Connection_gone

fun on_event :: "nat \<Rightarrow> upload_event \<Rightarrow> upload \<Rightarrow> upload" where
  \<comment> \<open>what befalls an upload; \<open>Connection_gone\<close> is the main loop forgetting a closed connection, and
    its uploads with it\<close>
  "on_event cap (Worker m) u = worker m u"
| "on_event cap (Pass sched rs) u = (if sending u then pump_upload cap sched rs u else u)"
| "on_event cap Finished_event u = (if sending u then u\<lparr>finished := True\<rparr> else u)"
| "on_event cap Reset_event u = (if sending u then u\<lparr>sending := False, ending := True\<rparr> else u)"
| "on_event cap Connection_gone u = (if sending u then u\<lparr>sending := False\<rparr> else u)"

definition life :: "nat \<Rightarrow> upload_event list \<Rightarrow> upload" where
  "life cap events = fold (on_event cap) events new_upload"

definition worker_gets :: "upload \<Rightarrow> reader" where
  \<comment> \<open>the body as the worker's reader sees it once the sender is gone\<close>
  "worker_gets u = new_reader (taken u @ queue u) (ending u)"

section \<open>One pass\<close>

lemma worker_fields [simp]:
  "overflow (worker m u) = overflow u" "parked (worker m u) = parked u" "seen (worker m u) = seen u"
  "sending (worker m u) = sending u" "ending (worker m u) = ending u" "finished (worker m u) = finished u"
  "taken (worker m u) @ queue (worker m u) = taken u @ queue u"
  by (cases m; simp)+

lemma interleave_fields [simp]:
  "overflow (interleave s u) = overflow u" "parked (interleave s u) = parked u" "seen (interleave s u) = seen u"
  "sending (interleave s u) = sending u" "ending (interleave s u) = ending u" "finished (interleave s u) = finished u"
  "taken (interleave s u) @ queue (interleave s u) = taken u @ queue u"
  by (cases s; simp add: interleave_def)+

lemma interleave_listening: "listening (interleave s u) \<Longrightarrow> listening u"
  by (cases s; cases "hd s") (auto simp: interleave_def split: if_splits)

lemma try_send_cases:
  obtains (Sent) "try_send c u = (Sent, u\<lparr>queue := queue u @ [c]\<rparr>)" "listening u" "length (queue u) < CHANNEL_DEPTH"
  | (Full) "try_send c u = (Full, u)" "listening u" "length (queue u) \<ge> CHANNEL_DEPTH"
  | (Closed) "try_send c u = (Closed, u)" "\<not> listening u"
  by (cases "listening u"; cases "length (queue u) \<ge> CHANNEL_DEPTH") (auto simp: try_send_def)

lemma drain_overflow_Nil: "overflow u = [] \<Longrightarrow> drain_overflow sched u = (False, sched, u)"
  by (simp add: drain_overflow.simps [of sched u])

lemma drain_overflow_Cons:
  "overflow u = c # rest \<Longrightarrow> drain_overflow sched u =
     (case try_send c (interleave sched u) of
        (Sent, v) \<Rightarrow> drain_overflow (tl sched) (v\<lparr>overflow := rest, parked := parked u - length c\<rparr>)
      | (Full, v) \<Rightarrow> (False, tl sched, v)
      | (Closed, v) \<Rightarrow> (True, tl sched, v\<lparr>overflow := rest\<rparr>))"
  by (simp add: drain_overflow.simps [of sched u])

lemma read_on_stop:
  "\<not> has_room cap u \<Longrightarrow> read_on cap sched rs u = (No_room, u)"
  "has_room cap u \<Longrightarrow> read_on cap sched [] u = (Drained, u)"
  "has_room cap u \<Longrightarrow> read_on cap sched (Done # rs) u = (Drained, u)"
  "has_room cap u \<Longrightarrow> read_on cap sched (Failed # rs) u = (Over, u)"
  "has_room cap u \<Longrightarrow> read_on cap sched (Got [] # rs) u = (Drained, u)"
  by (subst read_on.simps; simp)+

lemma read_on_Got:
  "has_room cap u \<Longrightarrow> c \<noteq> [] \<Longrightarrow> read_on cap sched (Got c # rs) u =
     (case try_send c ((interleave sched u)\<lparr>seen := seen u @ [c]\<rparr>) of
        (Sent, v) \<Rightarrow> read_on cap (tl sched) rs v
      | (Full, v) \<Rightarrow> read_on cap (tl sched) rs (park c v)
      | (Closed, v) \<Rightarrow> (Over, v))"
  by (subst read_on.simps) (simp add: Let_def)

section \<open>Invariants of an upload\<close>

text \<open>
  What every step of an upload keeps, whatever the worker does in between, holds of every upload at
  every moment.
\<close>

fun got_ok :: "(bytes \<Rightarrow> bool) \<Rightarrow> received \<Rightarrow> bool" where
  "got_ok ok (Got c) \<longleftrightarrow> ok c"
| "got_ok ok r \<longleftrightarrow> True"

fun event_ok :: "(bytes \<Rightarrow> bool) \<Rightarrow> upload_event \<Rightarrow> bool" where
  "event_ok ok (Pass sched rs) \<longleftrightarrow> list_all (got_ok ok) rs"
| "event_ok ok e \<longleftrightarrow> True"

locale upload_invariant =
  fixes I :: "upload \<Rightarrow> bool" and cap :: nat and ok :: "bytes \<Rightarrow> bool"
  assumes start: "I new_upload"
    and worker: "I u \<Longrightarrow> I (worker m u)"
    and unpark: "I u \<Longrightarrow> overflow u = c # rest \<Longrightarrow> listening u \<Longrightarrow>
      length (queue u) < CHANNEL_DEPTH \<Longrightarrow> I (u\<lparr>queue := queue u @ [c], overflow := rest, parked := parked u - length c\<rparr>)"
    and unpark_lost: "I u \<Longrightarrow> overflow u = c # rest \<Longrightarrow> \<not> listening u \<Longrightarrow> I (u\<lparr>overflow := rest, sending := False\<rparr>)"
    and straight: "I u \<Longrightarrow> c \<noteq> [] \<Longrightarrow> ok c \<Longrightarrow> listening u \<Longrightarrow> length (queue u) < CHANNEL_DEPTH \<Longrightarrow>
      I (u\<lparr>seen := seen u @ [c], queue := queue u @ [c]\<rparr>)"
    and parking: "I u \<Longrightarrow> c \<noteq> [] \<Longrightarrow> ok c \<Longrightarrow> listening u \<Longrightarrow> has_room cap u \<Longrightarrow>
      I (park c (u\<lparr>seen := seen u @ [c]\<rparr>))"
    and lost: "I u \<Longrightarrow> \<not> listening u \<Longrightarrow> I (u\<lparr>seen := seen u @ [c]\<rparr>)"
    and finish: "I u \<Longrightarrow> I (u\<lparr>finished := True\<rparr>)"
    and remove: "I u \<Longrightarrow> I (u\<lparr>sending := False\<rparr>)"
    and reset: "I u \<Longrightarrow> I (u\<lparr>sending := False, ending := True\<rparr>)"
begin

lemma interleaved: "I u \<Longrightarrow> I (interleave sched u)"
  by (cases sched) (auto simp: interleave_def intro: worker)

lemma drained:
  "I u \<Longrightarrow> drain_overflow sched u = (shut, sched', v) \<Longrightarrow> I (if shut then v\<lparr>sending := False\<rparr> else v)"
proof (induction sched u rule: drain_overflow.induct)
  case (1 sched u)
  show ?case
  proof (cases "overflow u")
    case Nil
    with 1 show ?thesis by (auto simp: drain_overflow_Nil)
  next
    case (Cons c rest)
    note I = interleaved [OF 1(2), of sched]
    show ?thesis
    proof (cases rule: try_send_cases [of c "interleave sched u"])
      case Sent
      have "I ((interleave sched u)\<lparr>queue := queue (interleave sched u) @ [c], overflow := rest,
          parked := parked u - length c\<rparr>)"
        using unpark [OF I, of c rest] Cons Sent(2,3) by simp
      with 1(1) [OF Cons Sent(1) [symmetric] refl] 1(3) Cons Sent(1) show ?thesis by (simp add: drain_overflow_Cons)
    next
      case Full
      with 1(3) Cons I show ?thesis by (auto simp: drain_overflow_Cons)
    next
      case Closed
      with 1(3) Cons unpark_lost [OF I, of c rest] show ?thesis by (auto simp: drain_overflow_Cons)
    qed
  qed
qed

lemma read:
  "I u \<Longrightarrow> list_all (got_ok ok) rs \<Longrightarrow> I (snd (read_on cap sched rs u))"
proof (induction rs arbitrary: sched u)
  case Nil
  then show ?case by (cases "has_room cap u") (simp_all add: read_on_stop)
next
  case (Cons r rs)
  show ?case
  proof (cases "has_room cap u \<and> (\<exists>c. r = Got c \<and> c \<noteq> [])")
    case False
    with Cons show ?thesis by (cases "has_room cap u"; cases r) (auto simp: read_on_stop)
  next
    case True
    then obtain c where r: "r = Got c" "c \<noteq> []" "has_room cap u" by blast
    then have ok: "ok c" "list_all (got_ok ok) rs" using Cons.prems(2) by simp_all
    let ?v = "interleave sched u"
    note I = interleaved [OF Cons.prems(1), of sched]
    have room: "has_room cap ?v" using r by (simp add: has_room_def)
    show ?thesis
    proof (cases rule: try_send_cases [of c "?v\<lparr>seen := seen u @ [c]\<rparr>"])
      case Sent
      with Cons.IH [OF straight [OF I, of c]] r ok show ?thesis by (simp add: read_on_Got)
    next
      case Full
      with Cons.IH [OF parking [OF I, of c]] r room ok show ?thesis by (simp add: read_on_Got)
    next
      case Closed
      with lost [OF I, of c] r show ?thesis by (simp add: read_on_Got)
    qed
  qed
qed

lemma pumped: "I u \<Longrightarrow> list_all (got_ok ok) rs \<Longrightarrow> I (pump_upload cap sched rs u)"
proof -
  assume I: "I u" and ok: "list_all (got_ok ok) rs"
  obtain shut sched' v where d: "drain_overflow sched u = (shut, sched', v)" by (metis surj_pair)
  obtain w x where r: "read_on cap sched' rs v = (w, x)" by (metis surj_pair)
  show ?thesis
  proof (cases shut)
    case True
    with drained [OF I d] d show ?thesis by (simp add: pump_upload_def)
  next
    case False
    with drained [OF I d] read [of v rs sched'] r ok have "I x" by simp
    with d r False remove [of x] show ?thesis by (cases w) (auto simp: pump_upload_def)
  qed
qed

theorem always: "list_all (event_ok ok) events \<Longrightarrow> I (life cap events)"
proof -
  assume "list_all (event_ok ok) events"
  then have "I u \<Longrightarrow> I (fold (on_event cap) events u)" for u
  proof (induction events arbitrary: u)
    case (Cons e events)
    then have "I (on_event cap e u)" by (cases e) (auto intro: worker pumped finish remove reset)
    with Cons show ?case by simp
  qed simp
  from this [OF start] show ?thesis by (simp add: life_def)
qed

end

section \<open>Nothing is lost, nothing piles up\<close>

definition all_there :: "upload \<Rightarrow> bool" where
  "all_there u \<longleftrightarrow> (listening u \<longrightarrow> mset (taken u @ queue u @ overflow u) = mset (seen u))"

definition BODY_BUFFER :: nat where
  \<comment> \<open>the buffer a pass reads a stream into\<close>
  "BODY_BUFFER = 16384"

definition bounded :: "nat \<Rightarrow> upload \<Rightarrow> bool" where
  "bounded cap u \<longleftrightarrow> length (queue u) \<le> CHANNEL_DEPTH \<and> parked u < cap + BODY_BUFFER
     \<and> (sending u \<longrightarrow> parked u = length (concat (overflow u)))"

definition no_empty_chunk :: "upload \<Rightarrow> bool" where
  "no_empty_chunk u \<longleftrightarrow> [] \<notin> set (taken u @ queue u @ overflow u)"

lemma worker_listening: "listening (worker m u) \<Longrightarrow> listening u"
  by (cases m) (auto split: if_splits)

lemma worker_queue: "length (queue (worker m u)) \<le> length (queue u)"
  by (cases m) auto

lemma worker_all: "taken (worker m u) @ queue (worker m u) @ overflow (worker m u) = taken u @ queue u @ overflow u"
  by (metis append.assoc worker_fields(1,7))

interpretation kept: upload_invariant all_there cap "\<lambda>_. True"
proof
  show "all_there (worker m u)" if "all_there u" for m u
    using that worker_listening unfolding all_there_def worker_all by simp
qed (auto simp: all_there_def new_upload_def park_def)

interpretation small: upload_invariant "bounded cap" cap "\<lambda>c. length c \<le> BODY_BUFFER"
proof
  show "bounded cap (worker m u)" if "bounded cap u" for m u
    using that worker_queue [of m u] by (auto simp: bounded_def)
qed (auto simp: bounded_def new_upload_def park_def has_room_def BODY_BUFFER_def)

interpretation nonempty: upload_invariant no_empty_chunk cap "\<lambda>_. True"
proof
  show "no_empty_chunk (worker m u)" if "no_empty_chunk u" for m u
    using that unfolding no_empty_chunk_def worker_all .
qed (auto simp: no_empty_chunk_def new_upload_def park_def)

lemma event_ok_True [simp]: "event_ok (\<lambda>_. True) e"
proof -
  have "got_ok (\<lambda>_. True) r" for r by (cases r) auto
  then show ?thesis by (cases e) (auto simp: list_all_iff)
qed

text \<open>
  Whatever the worker does between any two attempts to send, no byte of an upload is lost, doubled
  or invented while both ends are there: what the worker has, what is in the channel and what is
  parked are together the chunks that came off the stream.
\<close>

theorem nothing_is_lost:
  assumes "u = life cap events" and "sending u" and "listening u"
  shows "mset (taken u) + mset (queue u) + mset (overflow u) = mset (seen u)"
  using kept.always [of events cap] assms by (simp add: all_there_def list_all_iff add.assoc)

text \<open>
  However slowly a worker reads, an upload holds at most 16 chunks in its channel, and parks less
  than the configured buffer and one read of a stream besides.
\<close>

theorem parking_is_bounded:
  assumes "list_all (event_ok (\<lambda>c. length c \<le> BODY_BUFFER)) events"
  shows "length (queue (life cap events)) \<le> CHANNEL_DEPTH \<and> parked (life cap events) < cap + BODY_BUFFER"
  using small.always [OF assms, of cap] by (simp add: bounded_def)

section \<open>What the worker ends up with\<close>

definition ordered :: "upload \<Rightarrow> bool" where
  "ordered u \<longleftrightarrow> (listening u \<longrightarrow> taken u @ queue u @ overflow u = seen u)"

fun quiet :: "worker_move \<Rightarrow> bool" where
  "quiet (Receives n) \<longleftrightarrow> n = 0"
| "quiet Hangs_up \<longleftrightarrow> True"

definition packed :: "upload \<Rightarrow> bool" where
  \<comment> \<open>what follows must queue up behind what is parked\<close>
  "packed u \<longleftrightarrow> (listening u \<longrightarrow> overflow u = [] \<or> length (queue u) \<ge> CHANNEL_DEPTH)"

lemma worker_ordered: "ordered u \<Longrightarrow> ordered (worker m u)"
  using worker_listening [of m u] unfolding ordered_def worker_all by auto

lemma interleave_quiet:
  assumes "list_all quiet sched"
  shows "interleave sched u = u \<or> \<not> listening (interleave sched u)"
proof (cases sched)
  case (Cons m s)
  with assms show ?thesis by (cases m) (auto simp: interleave_def)
qed (simp add: interleave_def)

lemma drain_ordered:
  "ordered u \<Longrightarrow> list_all quiet sched \<Longrightarrow> drain_overflow sched u = (shut, sched', v) \<Longrightarrow>
   ordered v \<and> list_all quiet sched' \<and> (if shut then \<not> listening v else packed v)"
proof (induction sched u rule: drain_overflow.induct)
  case (1 sched u)
  have tl: "list_all quiet (tl sched)" using 1(3) by (cases sched) auto
  have v: "ordered (interleave sched u)"
    using 1(2) worker_ordered by (cases sched) (auto simp: interleave_def)
  show ?case
  proof (cases "overflow u")
    case Nil
    with 1 show ?thesis by (auto simp: drain_overflow_Nil packed_def)
  next
    case (Cons c rest)
    show ?thesis
    proof (cases rule: try_send_cases [of c "interleave sched u"])
      case Sent
      let ?w = "(interleave sched u)\<lparr>queue := queue (interleave sched u) @ [c], overflow := rest,
          parked := parked u - length c\<rparr>"
      have "ordered ?w" using v Cons Sent(2) by (simp add: ordered_def)
      with 1(1) [OF Cons Sent(1) [symmetric] refl] tl 1(4) Cons Sent(1) show ?thesis
        by (simp add: drain_overflow_Cons)
    next
      case Full
      with 1(4) Cons v tl show ?thesis by (auto simp: drain_overflow_Cons packed_def)
    next
      case Closed
      with 1(4) Cons v tl show ?thesis by (auto simp: drain_overflow_Cons ordered_def)
    qed
  qed
qed

lemma read_ordered:
  "ordered u \<Longrightarrow> packed u \<Longrightarrow> list_all quiet sched \<Longrightarrow> ordered (snd (read_on cap sched rs u))"
proof (induction rs arbitrary: sched u)
  case Nil
  then show ?case by (cases "has_room cap u") (simp_all add: read_on_stop)
next
  case (Cons r rs)
  have tl: "list_all quiet (tl sched)" using Cons.prems by (cases sched) auto
  show ?case
  proof (cases "has_room cap u \<and> (\<exists>c. r = Got c \<and> c \<noteq> [])")
    case False
    with Cons show ?thesis by (cases "has_room cap u"; cases r) (auto simp: read_on_stop)
  next
    case True
    then obtain c where r: "r = Got c" "c \<noteq> []" "has_room cap u" by blast
    let ?v = "interleave sched u"
    show ?thesis
    proof (cases rule: try_send_cases [of c "?v\<lparr>seen := seen u @ [c]\<rparr>"])
      case Sent
      then have v: "?v = u" using interleave_quiet [OF Cons.prems(3), of u] by auto
      let ?w = "u\<lparr>seen := seen u @ [c], queue := queue u @ [c]\<rparr>"
      have "ordered ?w" "packed ?w" using Cons.prems Sent v by (auto simp: ordered_def packed_def)
      with Cons.IH [OF _ _ tl] Sent v r show ?thesis by (simp add: read_on_Got)
    next
      case Full
      then have v: "?v = u" using interleave_quiet [OF Cons.prems(3), of u] by auto
      let ?w = "park c (u\<lparr>seen := seen u @ [c]\<rparr>)"
      have "ordered ?w" "packed ?w" using Cons.prems Full v by (auto simp: ordered_def packed_def park_def)
      with Cons.IH [OF _ _ tl] Full v r show ?thesis by (simp add: read_on_Got)
    next
      case Closed
      with r show ?thesis by (simp add: read_on_Got ordered_def)
    qed
  qed
qed

lemma pump_ordered:
  assumes "ordered u" and "list_all quiet sched"
  shows "ordered (pump_upload cap sched rs u)"
proof -
  obtain shut sched' v where d: "drain_overflow sched u = (shut, sched', v)" by (metis surj_pair)
  obtain w x where r: "read_on cap sched' rs v = (w, x)" by (metis surj_pair)
  show ?thesis
  proof (cases shut)
    case True
    with drain_ordered [OF assms d] d show ?thesis by (simp add: pump_upload_def ordered_def)
  next
    case False
    with drain_ordered [OF assms d] read_ordered [of v sched' cap rs] r have "ordered x" by simp
    with d r False show ?thesis by (cases w) (auto simp: pump_upload_def ordered_def)
  qed
qed

fun undisturbed :: "upload_event \<Rightarrow> bool" where
  \<comment> \<open>the worker receives nothing in the middle of a pass\<close>
  "undisturbed (Pass sched rs) \<longleftrightarrow> list_all quiet sched"
| "undisturbed e \<longleftrightarrow> True"

fun announced :: "upload_event \<Rightarrow> bool" where
  \<comment> \<open>the body is not cut off without a word: no read of the stream fails, and the connection stays\<close>
  "announced (Pass sched rs) \<longleftrightarrow> Failed \<notin> set rs"
| "announced Connection_gone \<longleftrightarrow> False"
| "announced e \<longleftrightarrow> True"

definition closed_well :: "upload \<Rightarrow> bool" where
  \<comment> \<open>a sender that is gone was dropped at the end of the body, after a reset, or unheard\<close>
  "closed_well u \<longleftrightarrow> sending u \<or> ending u \<or> \<not> listening u \<or> finished u \<and> overflow u = []"

lemma read_on_why:
  "Failed \<notin> set rs \<Longrightarrow> read_on cap sched rs u = (Over, v) \<Longrightarrow> \<not> listening v"
proof (induction rs arbitrary: sched u)
  case Nil
  then show ?case by (cases "has_room cap u") (simp_all add: read_on_stop)
next
  case (Cons r rs)
  show ?case
  proof (cases "has_room cap u \<and> (\<exists>c. r = Got c \<and> c \<noteq> [])")
    case False
    with Cons show ?thesis by (cases "has_room cap u"; cases r) (auto simp: read_on_stop)
  next
    case True
    then obtain c where r: "r = Got c" "c \<noteq> []" "has_room cap u" by blast
    let ?v = "interleave sched u"
    show ?thesis
      using Cons.prems r
      by (cases rule: try_send_cases [of c "?v\<lparr>seen := seen u @ [c]\<rparr>"])
        (auto simp: read_on_Got dest: Cons.IH [rotated])
  qed
qed

lemma drain_shut: "drain_overflow sched u = (True, sched', v) \<Longrightarrow> \<not> listening v"
proof (induction sched u rule: drain_overflow.induct)
  case (1 sched u)
  show ?case
  proof (cases "overflow u")
    case Nil
    with 1 show ?thesis by (simp add: drain_overflow_Nil)
  next
    case (Cons c rest)
    show ?thesis
      using 1(2) Cons 1(1) [OF Cons]
      by (cases rule: try_send_cases [of c "interleave sched u"]) (auto simp: drain_overflow_Cons)
  qed
qed

lemma drain_sending: "drain_overflow sched u = (shut, sched', v) \<Longrightarrow> sending v = sending u \<and> ending v = ending u"
proof (induction sched u rule: drain_overflow.induct)
  case (1 sched u)
  show ?case
  proof (cases "overflow u")
    case Nil
    with 1 show ?thesis by (simp add: drain_overflow_Nil)
  next
    case (Cons c rest)
    show ?thesis
      using 1(2) Cons 1(1) [OF Cons]
      by (cases rule: try_send_cases [of c "interleave sched u"]) (auto simp: drain_overflow_Cons)
  qed
qed

lemma read_sending:
  "sending (snd (read_on cap sched rs u)) = sending u \<and> ending (snd (read_on cap sched rs u)) = ending u"
proof (induction rs arbitrary: sched u)
  case Nil
  then show ?case by (cases "has_room cap u") (simp_all add: read_on_stop)
next
  case (Cons r rs)
  show ?case
  proof (cases "has_room cap u \<and> (\<exists>c. r = Got c \<and> c \<noteq> [])")
    case False
    with Cons show ?thesis by (cases "has_room cap u"; cases r) (auto simp: read_on_stop)
  next
    case True
    then obtain c where r: "r = Got c" "c \<noteq> []" "has_room cap u" by blast
    then show ?thesis
      using Cons.IH
      by (cases rule: try_send_cases [of c "(interleave sched u)\<lparr>seen := seen u @ [c]\<rparr>"])
        (auto simp: read_on_Got park_def)
  qed
qed

lemma pump_closed_well:
  assumes "sending u" and "Failed \<notin> set rs"
  shows "closed_well (pump_upload cap sched rs u)"
proof -
  obtain shut sched' v where d: "drain_overflow sched u = (shut, sched', v)" by (metis surj_pair)
  obtain w x where r: "read_on cap sched' rs v = (w, x)" by (metis surj_pair)
  have "sending x" using drain_sending [OF d] read_sending [of cap sched' rs v] r assms(1) by simp
  moreover have "w = Over \<Longrightarrow> \<not> listening x" using read_on_why [OF assms(2)] r by simp
  moreover have "shut \<Longrightarrow> \<not> listening v" using drain_shut d by simp
  ultimately show ?thesis using d r by (cases shut; cases w) (auto simp: pump_upload_def closed_well_def)
qed

lemma on_event_ordered: "ordered u \<Longrightarrow> undisturbed e \<Longrightarrow> ordered (on_event cap e u)"
proof (cases e)
  case (Worker m)
  then show "ordered u \<Longrightarrow> undisturbed e \<Longrightarrow> ?thesis" by (simp only: on_event.simps worker_ordered)
next
  case (Pass sched rs)
  then show "ordered u \<Longrightarrow> undisturbed e \<Longrightarrow> ?thesis" by (simp add: pump_ordered)
qed (simp_all add: ordered_def)

lemma on_event_closed_well: "closed_well u \<Longrightarrow> announced e \<Longrightarrow> closed_well (on_event cap e u)"
proof (cases e)
  case (Worker m)
  then show "closed_well u \<Longrightarrow> announced e \<Longrightarrow> ?thesis" using worker_listening [of m u] by (auto simp: closed_well_def)
next
  case (Pass sched rs)
  then show "closed_well u \<Longrightarrow> announced e \<Longrightarrow> ?thesis" by (simp add: pump_closed_well)
qed (auto simp: closed_well_def)

lemma life_ordered: "list_all undisturbed events \<Longrightarrow> ordered (life cap events)"
proof -
  have "ordered u \<Longrightarrow> list_all undisturbed events \<Longrightarrow> ordered (fold (on_event cap) events u)" for u
    by (induction events arbitrary: u) (simp_all add: on_event_ordered)
  then show "list_all undisturbed events \<Longrightarrow> ?thesis" by (simp add: life_def ordered_def new_upload_def)
qed

lemma life_closed_well: "list_all announced events \<Longrightarrow> closed_well (life cap events)"
proof -
  have "closed_well u \<Longrightarrow> list_all announced events \<Longrightarrow> closed_well (fold (on_event cap) events u)" for u
    by (induction events arbitrary: u) (simp_all add: on_event_closed_well)
  then show "list_all announced events \<Longrightarrow> ?thesis" by (simp add: life_def closed_well_def new_upload_def)
qed

lemma worker_gets_pending: "pending_bytes (worker_gets u) = concat (taken u @ queue u)"
  by (simp add: worker_gets_def pending_bytes_def new_reader_def)

text \<open>
  C13: what the worker reads of an upload once its sender is gone, unless the client reset it, and however
  the worker reads in between. If the body was not cut off without a word, the client had finished, and
  each chunk that came off the stream is there, once. If the worker received nothing in the middle of a
  pass, what it reads is in order, and all of it if the body was not cut off without a word and a
  beginning of it if it was.
\<close>

theorem upload_arrives_whole:
  assumes "u = life cap events" and "\<not> sending u" and "listening u" and "\<not> ending u"
  shows "(list_all announced events \<longrightarrow> finished u \<and> mset (taken u @ queue u) = mset (seen u))
    \<and> (list_all undisturbed events \<longrightarrow>
         (\<exists>rest. concat (seen u) = pending_bytes (worker_gets u) @ rest \<and> (list_all announced events \<longrightarrow> rest = [])))"
proof -
  have "mset (taken u @ queue u @ overflow u) = mset (seen u)"
    using kept.always [of events cap] assms(1,3) by (simp add: all_there_def list_all_iff)
  moreover have "finished u \<and> overflow u = []" if "list_all announced events"
    using life_closed_well [OF that, of cap] assms by (auto simp: closed_well_def)
  moreover have "concat (seen u) = pending_bytes (worker_gets u) @ concat (overflow u)" if "list_all undisturbed events"
  proof -
    have "taken u @ queue u @ overflow u = seen u"
      using life_ordered [OF that, of cap] assms(1,3) by (simp add: ordered_def)
    then show ?thesis by (metis worker_gets_pending append.assoc concat_append)
  qed
  ultimately show ?thesis by (cases "list_all announced events") auto
qed

theorem upload_arrives_whole_witness:
  "let u = life 100 [Pass [] [Got [1, 2], Done], Worker (Receives 1), Finished_event, Pass [] [Got [3], Done]]
   in finished u \<and> pending_bytes (worker_gets u) = [1, 2, 3]"
proof -
  let ?es = "[Pass [] [Got [1, 2], Done], Worker (Receives 1), Finished_event, Pass [] [Got [3], Done]]"
  have "\<not> sending (life 100 ?es)" "listening (life 100 ?es)" "\<not> ending (life 100 ?es)"
    "concat (seen (life 100 ?es)) = [1, 2, 3]" by code_simp+
  with upload_arrives_whole [of _ 100 ?es, OF refl] show ?thesis by (simp add: Let_def)
qed

text \<open>
  C36: an interceptor that wants a body over HTTP/3 sees all of it or the request is refused. Of an upload
  that was not cut off without a word, and whose worker received nothing in the middle of a pass, the
  request gets every byte the client sent, in order, and only once the client had finished; or it is
  answered 413, when more than the cap arrived, or 400, when the client reset the stream.
\<close>

theorem upload_whole_or_refused:
  assumes "u = life cap events" and "list_all announced events" and "list_all undisturbed events" and "\<not> sending u" and "listening u"
  shows "take_body limits True req (Some (taken u @ queue u, ending u, len)) =
      (if length (concat (taken u @ queue u)) > max_request_body limits
       then (Inl \<lparr>rj_status = 413, rj_message = ''request body too large''\<rparr>, req)
       else if ending u then (Inl \<lparr>rj_status = 400, rj_message = ''request body interrupted''\<rparr>, req)
       else (Inr NoBody, req\<lparr>rq_body := concat (seen u)\<rparr>))
    \<and> (\<not> ending u \<longrightarrow> finished u)"
proof -
  have "no_empty_chunk u" using nonempty.always [of _ cap] assms(1) by (simp add: list_all_iff)
  then have "[] \<notin> set (taken u @ queue u)" by (simp add: no_empty_chunk_def)
  note take = take_body_wanted [OF this, of limits req "ending u" len]
  have whole: "finished u \<and> concat (taken u @ queue u) = concat (seen u)" if "\<not> ending u"
  proof -
    have "finished u" "overflow u = []" using life_closed_well [OF assms(2), of cap] that assms(1,4,5) by (auto simp: closed_well_def)
    moreover have "taken u @ queue u @ overflow u = seen u" using life_ordered [OF assms(3), of cap] assms(1,5) by (simp add: ordered_def)
    ultimately show ?thesis by simp
  qed
  show ?thesis unfolding take using whole by (auto simp del: concat_append)
qed

theorem upload_whole_or_refused_witness:
  "let u = life 100 [Pass [] [Got [1, 2], Done], Worker (Receives 1), Finished_event, Pass [] [Got [3], Done]]
   in take_body default_limits True simple_request (Some (taken u @ queue u, ending u, Some 3))
        = (Inr NoBody, simple_request\<lparr>rq_body := [1, 2, 3]\<rparr>)"
proof -
  let ?es = "[Pass [] [Got [1, 2], Done], Worker (Receives 1), Finished_event, Pass [] [Got [3], Done]]"
  have "\<not> sending (life 100 ?es)" "listening (life 100 ?es)" "\<not> ending (life 100 ?es)"
    "concat (seen (life 100 ?es)) = [1, 2, 3]" "concat (taken (life 100 ?es) @ queue (life 100 ?es)) = [1, 2, 3]" by code_simp+
  moreover have "\<not> 3 > max_request_body default_limits" by (simp add: max_request_body_def default_limits_def)
  ultimately show ?thesis
    using upload_whole_or_refused [of _ 100 ?es, OF refl, of default_limits simple_request "Some 3"] by (simp add: Let_def)
qed

lemma event_ending: "ending u \<Longrightarrow> ending (on_event cap e u)"
proof (cases e)
  case (Pass sched rs)
  assume "ending u"
  obtain shut sched' v where d: "drain_overflow sched u = (shut, sched', v)" by (metis surj_pair)
  obtain w x where r: "read_on cap sched' rs v = (w, x)" by (metis surj_pair)
  have "ending v" "ending x"
    using drain_sending [OF d] read_sending [of cap sched' rs v] r \<open>ending u\<close> by simp_all
  with d r Pass \<open>ending u\<close> show ?thesis by (cases shut; cases w) (auto simp: pump_upload_def)
qed auto

text \<open>
  An upload the client reset before it was through is never taken for a shorter one: whatever
  happens before and after, an interceptor that wants the body gets none and the request is refused.
\<close>

theorem reset_is_refused:
  assumes "sending (life cap before)" and "u = life cap (before @ Reset_event # after)"
  shows "\<exists>e. take_body limits True req (Some (taken u @ queue u, ending u, len)) = (Inl e, req)
    \<and> rj_status e \<in> {400, 413}"
proof -
  have "ending u' \<Longrightarrow> ending (fold (on_event cap) after u')" for u'
    by (induction after arbitrary: u') (auto simp: event_ending)
  then have "ending u" using assms by (simp add: life_def)
  moreover have "no_empty_chunk u" using nonempty.always [of _ cap] assms(2) by (simp add: list_all_iff)
  then have "[] \<notin> set (taken u @ queue u)" by (simp add: no_empty_chunk_def)
  ultimately show ?thesis using take_body_wanted [of "taken u @ queue u" limits req "ending u" len] by auto
qed

theorem reset_is_refused_witness:
  "let u = life 100 ([Pass [] [Got [1, 2], Done]] @ Reset_event # [])
   in \<exists>e. take_body default_limits True simple_request (Some (taken u @ queue u, ending u, Some 10))
        = (Inl e, simple_request) \<and> rj_status e \<in> {400, 413}"
proof -
  have "sending (life 100 [Pass [] [Got [1, 2], Done]])" by code_simp
  from reset_is_refused [OF this refl] show ?thesis unfolding Let_def .
qed

theorem nothing_is_lost_witness:
  "let u = life 100 [Pass [] [Got [1], Got [2]], Worker (Receives 1)]
   in mset (taken u) + mset (queue u) + mset (overflow u) = mset (seen u)"
proof -
  have "sending (life 100 [Pass [] [Got [1], Got [2]], Worker (Receives 1)])"
    "listening (life 100 [Pass [] [Got [1], Got [2]], Worker (Receives 1)])" by code_simp+
  from nothing_is_lost [OF refl this] show ?thesis unfolding Let_def .
qed

theorem parking_is_bounded_witness:
  "length (queue (life 3 [Pass [] [Got [1], Done]])) \<le> CHANNEL_DEPTH \<and> parked (life 3 [Pass [] [Got [1], Done]]) < 3 + BODY_BUFFER"
  by (rule parking_is_bounded) (simp add: BODY_BUFFER_def)

text \<open>
  The two gaps. A worker that receives a chunk in the middle of a pass makes room for a later chunk
  to overtake a parked one; and a connection that is lost, or a stream whose bytes can no longer be
  read, drops the sender as if the body had ended, so a truncated upload reads as a complete one.
\<close>

lemma later_chunk_overtakes:
  "concat (queue (life 100 [Pass [] (replicate 16 (Got [0]) @ [Got [1]]), Pass [Receives 0, Receives 1] [Got [2]]]))
     = replicate 15 0 @ [2]"
  "overflow (life 100 [Pass [] (replicate 16 (Got [0]) @ [Got [1]]), Pass [Receives 0, Receives 1] [Got [2]]]) = [[1]]"
  by code_simp+

lemma lost_connection_reads_as_complete:
  "let u = life 100 [Pass [] [Got [1, 2]], Connection_gone]
   in \<not> finished u \<and> take_body default_limits True simple_request (Some (taken u @ queue u, ending u, Some 10))
        = (Inr NoBody, simple_request\<lparr>rq_body := [1, 2]\<rparr>)"
  "let u = life 100 [Pass [] [Got [1, 2], Failed]]
   in \<not> finished u \<and> take_body default_limits True simple_request (Some (taken u @ queue u, ending u, Some 10))
        = (Inr NoBody, simple_request\<lparr>rq_body := [1, 2]\<rparr>)"
proof -
  let ?u = "life 100 [Pass [] [Got [1, 2]], Connection_gone]" and ?v = "life 100 [Pass [] [Got [1, 2], Failed]]"
  have "taken ?u @ queue ?u = [[1, 2]]" "\<not> ending ?u" "\<not> finished ?u"
    "taken ?v @ queue ?v = [[1, 2]]" "\<not> ending ?v" "\<not> finished ?v" by code_simp+
  moreover have "\<not> 2 > max_request_body default_limits" by (simp add: max_request_body_def default_limits_def)
  ultimately show "let u = ?u in \<not> finished u \<and> take_body default_limits True simple_request
        (Some (taken u @ queue u, ending u, Some 10)) = (Inr NoBody, simple_request\<lparr>rq_body := [1, 2]\<rparr>)"
    "let u = ?v in \<not> finished u \<and> take_body default_limits True simple_request
        (Some (taken u @ queue u, ending u, Some 10)) = (Inr NoBody, simple_request\<lparr>rq_body := [1, 2]\<rparr>)"
    using take_body_wanted [of "[[1, 2]]" default_limits simple_request False "Some 10"]
    by (simp_all add: Let_def)
qed

end
