(* ===== verification/Tokens.thy ===== *)
theory Tokens
  imports Message
begin

text \<open>
  \<open>src/proxy/src/main.rs\<close>, address validation: the token a Retry carries and the check of the one a
  client brings back. HMAC-SHA256 under the process's key is the parameter \<open>sign\<close>; \<open>ring\<close> verifies
  a tag by computing it again and comparing. Times are seconds since the epoch.
\<close>

definition TOKEN_MARKER :: bytes where "TOKEN_MARKER = as_bytes ''mach5''"
definition TOKEN_TTL_SECONDS :: nat where "TOKEN_TTL_SECONDS = 30"
definition EXPIRY_BYTES :: nat where "EXPIRY_BYTES = 8"
definition TAG_BYTES :: nat where "TAG_BYTES = 32"

fun address_bytes :: "socket_addr \<Rightarrow> bytes" where
  "address_bytes (V4 ip, port) = be_bytes 4 (unat ip) @ be_bytes 2 (unat port)"
| "address_bytes (V6 ip, port) = be_bytes 16 (unat ip) @ be_bytes 2 (unat port)"

definition token_body :: "socket_addr \<Rightarrow> bytes \<Rightarrow> bytes \<Rightarrow> bytes" where
  "token_body from expiry dcid = address_bytes from @ expiry @ dcid"

definition mint_token :: "(bytes \<Rightarrow> bytes) \<Rightarrow> nat \<Rightarrow> bytes \<Rightarrow> socket_addr \<Rightarrow> bytes" where
  "mint_token sign now dcid from =
     (let expiry = be_bytes 8 (now + TOKEN_TTL_SECONDS); tag = sign (token_body from expiry dcid)
      in TOKEN_MARKER @ expiry @ dcid @ tag)"

definition strip_marker :: "bytes \<Rightarrow> bytes option" where
  \<comment> \<open>\<open>token.strip_prefix(TOKEN_MARKER)\<close>\<close>
  "strip_marker token =
     (if take (length TOKEN_MARKER) token = TOKEN_MARKER then Some (drop (length TOKEN_MARKER) token) else None)"

definition validate_token :: "(bytes \<Rightarrow> bytes) \<Rightarrow> nat \<Rightarrow> socket_addr \<Rightarrow> bytes \<Rightarrow> bytes option" where
  "validate_token sign now from token =
     (case strip_marker token of
        None \<Rightarrow> None
      | Some rest \<Rightarrow>
          if length rest \<le> EXPIRY_BYTES + TAG_BYTES then None
          else (let body = take (length rest - TAG_BYTES) rest; tag = drop (length rest - TAG_BYTES) rest;
                    expiry = take EXPIRY_BYTES body; dcid = drop EXPIRY_BYTES body
                in if sign (token_body from expiry dcid) \<noteq> tag then None
                   else if now > from_be_bytes expiry then None
                   else Some dcid))"

lemma address_bytes_inj:
  assumes "address_bytes a @ x = address_bytes b @ y" and "is_ipv4 (fst a) = is_ipv4 (fst b)"
  shows "a = b \<and> x = y"
proof -
  have 16: "unat p < 256 ^ 2" for p :: "16 word" using unsigned_less [of p] by simp
  have 32: "unat p < 256 ^ 4" for p :: "32 word" using unsigned_less [of p] by simp
  have 128: "unat p < 256 ^ 16" for p :: "128 word" using unsigned_less [of p] by simp
  obtain i p j q where ab: "a = (i, p)" "b = (j, q)" by force
  show ?thesis
  proof (cases i; cases j)
    fix v w assume "i = V4 v" "j = V4 w"
    with assms ab have "be_bytes 4 (unat v) = be_bytes 4 (unat w)" "be_bytes 2 (unat p) = be_bytes 2 (unat q)" "x = y"
      by simp_all
    with \<open>i = V4 v\<close> \<open>j = V4 w\<close> ab be_bytes_inj [OF _ 32 32] be_bytes_inj [OF _ 16 16] show ?thesis
      by (simp add: word_unat_eq_iff)
  next
    fix v w assume "i = V6 v" "j = V6 w"
    with assms ab have "be_bytes 16 (unat v) = be_bytes 16 (unat w)" "be_bytes 2 (unat p) = be_bytes 2 (unat q)" "x = y"
      by simp_all
    with \<open>i = V6 v\<close> \<open>j = V6 w\<close> ab be_bytes_inj [OF _ 128 128] be_bytes_inj [OF _ 16 16] show ?thesis
      by (simp add: word_unat_eq_iff)
  qed (use assms ab in auto)
qed

section \<open>What a token proves\<close>

lemma validate_token_Some:
  assumes "validate_token sign now from token = Some cid"
  obtains expiry tag where "token = TOKEN_MARKER @ expiry @ cid @ tag" "length expiry = 8" "length tag = 32"
    "cid \<noteq> []" "tag = sign (token_body from expiry cid)" "now \<le> from_be_bytes expiry"
proof -
  obtain rest where rest: "strip_marker token = Some rest" "length rest > EXPIRY_BYTES + TAG_BYTES"
    using assms by (auto simp: validate_token_def Let_def split: option.splits if_splits)
  let ?body = "take (length rest - TAG_BYTES) rest" and ?tag = "drop (length rest - TAG_BYTES) rest"
  let ?expiry = "take EXPIRY_BYTES ?body" and ?dcid = "drop EXPIRY_BYTES ?body"
  have v: "sign (token_body from ?expiry ?dcid) = ?tag" "now \<le> from_be_bytes ?expiry" "cid = ?dcid"
    using assms rest by (auto simp: validate_token_def Let_def split: if_splits)
  have "token = TOKEN_MARKER @ rest"
    using rest(1) unfolding strip_marker_def by (metis append_take_drop_id option.distinct(1) option.inject)
  moreover have "rest = ?expiry @ ?dcid @ ?tag" by (metis append.assoc append_take_drop_id)
  ultimately show thesis using v rest(2)
    by (intro that [of ?expiry ?tag]) (auto simp: EXPIRY_BYTES_def TAG_BYTES_def)
qed

text \<open>
  A token brought back in time from the address it was made for gives the connection id the client
  chose at first.
\<close>

theorem token_round_trips:
  assumes "\<And>m. length (sign m) = TAG_BYTES" and "dcid \<noteq> []"
    and "minted \<le> now" and "now \<le> minted + TOKEN_TTL_SECONDS" and "minted + TOKEN_TTL_SECONDS \<le> u64_max"
  shows "validate_token sign now from (mint_token sign minted dcid from) = Some dcid"
proof -
  have "minted + TOKEN_TTL_SECONDS < 256 ^ 8" using assms(5) by (simp add: u64_max_def)
  from from_be_bytes_be_bytes [OF this] assms show ?thesis
    by (simp add: validate_token_def mint_token_def strip_marker_def Let_def EXPIRY_BYTES_def TAG_BYTES_def)
qed

theorem token_round_trips_witness:
  "validate_token (\<lambda>m. replicate 32 7) 1020 (V4 1, 443) (mint_token (\<lambda>m. replicate 32 7) 1000 [1, 2, 3] (V4 1, 443)) = Some [1, 2, 3]"
  by (rule token_round_trips) (simp_all add: TAG_BYTES_def TOKEN_TTL_SECONDS_def u64_max_def)

text \<open>
  A token that validates was handed out by this process to the very address it came back from, for
  the connection id it yields, no longer than the lifetime ago: provided a tag is only ever one of
  a message that was signed, and the socket serves one address family, as a socket does.
\<close>

theorem token_was_minted_here:
  assumes "validate_token sign now from token = Some cid"
    and "\<And>m. sign m = drop (length token - TAG_BYTES) token \<Longrightarrow>
      \<exists>(dcid, peer, minted) \<in> set log. m = token_body peer (be_bytes 8 (minted + TOKEN_TTL_SECONDS)) dcid"
    and "list_all (\<lambda>(dcid, peer, minted). is_ipv4 (fst peer) = is_ipv4 (fst from)
      \<and> minted \<le> now \<and> minted + TOKEN_TTL_SECONDS \<le> u64_max) log"
  shows "\<exists>minted. (cid, from, minted) \<in> set log \<and> minted \<le> now \<and> now \<le> minted + TOKEN_TTL_SECONDS"
proof -
  obtain expiry tag where t: "token = TOKEN_MARKER @ expiry @ cid @ tag" "length expiry = 8" "length tag = 32"
    "tag = sign (token_body from expiry cid)" "now \<le> from_be_bytes expiry"
    using validate_token_Some [OF assms(1)] by blast
  then have "drop (length token - TAG_BYTES) token = tag" by (simp add: TAG_BYTES_def)
  with assms(2) [of "token_body from expiry cid"] t(4)
  obtain dcid peer minted where h: "(dcid, peer, minted) \<in> set log"
    "token_body from expiry cid = token_body peer (be_bytes 8 (minted + TOKEN_TTL_SECONDS)) dcid" by auto
  with assms(3) have fam: "is_ipv4 (fst from) = is_ipv4 (fst peer)"
    and m: "minted \<le> now" "minted + TOKEN_TTL_SECONDS \<le> u64_max" by (auto simp: list_all_iff)
  from address_bytes_inj [OF h(2) [unfolded token_body_def] fam] t(2)
  have eq: "peer = from" "expiry = be_bytes 8 (minted + TOKEN_TTL_SECONDS)" "dcid = cid" by auto
  have "minted + TOKEN_TTL_SECONDS < 256 ^ 8" using m(2) by (simp add: u64_max_def)
  from from_be_bytes_be_bytes [OF this] eq t(5) have "now \<le> minted + TOKEN_TTL_SECONDS" by simp
  with h(1) eq m show ?thesis by blast
qed

text \<open>The witness signs by padding a message to the length of a tag, which tells the one message signed apart.\<close>

definition toy_sign :: "bytes \<Rightarrow> bytes" where
  "toy_sign m = (if m = token_body (V4 1, 443) (be_bytes 8 1030) [1, 2, 3] then replicate 32 7 else replicate 32 8)"

theorem token_was_minted_here_witness:
  "\<exists>minted. ([1, 2, 3], (V4 1, 443), minted) \<in> set [([1, 2, 3 :: u8], (V4 1, 443 :: 16 word), 1000)]
     \<and> minted \<le> 1020 \<and> 1020 \<le> minted + TOKEN_TTL_SECONDS"
proof -
  let ?log = "[([1, 2, 3 :: u8], (V4 1, 443 :: 16 word), 1000)]"
  let ?token = "mint_token toy_sign 1000 [1, 2, 3] (V4 1, 443)"
  have v: "validate_token toy_sign 1020 (V4 1, 443) ?token = Some [1, 2, 3]"
    by (rule token_round_trips) (simp_all add: toy_sign_def TAG_BYTES_def TOKEN_TTL_SECONDS_def u64_max_def)
  have s: "toy_sign (token_body (V4 1, 443) (be_bytes 8 1030) [1, 2, 3]) = replicate 32 7"
    by (simp add: toy_sign_def)
  have d: "drop (length ?token - TAG_BYTES) ?token = replicate 32 7"
    by (simp add: mint_token_def s TAG_BYTES_def TOKEN_TTL_SECONDS_def Let_def)
  have "\<exists>(dcid, peer, minted) \<in> set ?log. m = token_body peer (be_bytes 8 (minted + TOKEN_TTL_SECONDS)) dcid"
    if "toy_sign m = drop (length ?token - TAG_BYTES) ?token" for m
    using that unfolding d by (simp add: toy_sign_def TOKEN_TTL_SECONDS_def split: if_splits)
  from token_was_minted_here [OF v this] show ?thesis
    by (simp add: TOKEN_TTL_SECONDS_def u64_max_def)
qed

text \<open>
  The signed message does not say which family the address is of: a token for an IPv4 address
  whose connection id is chosen to fit covers an IPv6 address as well. One socket never sees both.
\<close>

lemma families_share_a_message:
  "token_body (V4 0x2A000001, 443) (be_bytes 8 1030) (be_bytes 2 0 @ be_bytes 2 443 @ be_bytes 8 5000 @ [9])
   = token_body (V6 0x2A00000101BB00000000000004060000, 443) (be_bytes 8 5000) [9]"
  by code_simp

end
