(* ===== verification/Interstitial.thy ===== *)
theory Interstitial
  imports Message
begin

text \<open>
  \<open>src/proxy/src/interstitial.rs\<close>: the pages served in place of a page that could not or would not
  be fetched. A template is the list of its lines; \<open>serde_json::to_string\<close> is a parameter.
\<close>

definition newline :: char where "newline = CHR 0x0A"
definition quote :: char where "quote = CHR 0x27"

definition tabs :: "nat \<Rightarrow> str" where "tabs n = replicate n (char_of (9 :: nat))"

definition paragraph_of :: "str list \<Rightarrow> str" where
  \<comment> \<open>lines as one text\<close>
  "paragraph_of ls = join [newline] ls"

definition STATUS_INVALID_CERT :: nat where "STATUS_INVALID_CERT = 526"
definition STATUS_LOOP_DETECTED :: nat where "STATUS_LOOP_DETECTED = 508"

fun escape_char :: "char \<Rightarrow> str" where
  "escape_char c =
     (if c = CHR ''&'' then ''&amp;''
      else if c = CHR ''<'' then ''&lt;''
      else if c = CHR ''>'' then ''&gt;''
      else if c = CHR 0x22 then ''&quot;''
      else if c = quote then ''&#39;''
      else [c])"

declare escape_char.simps [simp del]

definition escape :: "str \<Rightarrow> str" where
  \<comment> \<open>over bytes: the characters replaced are ASCII\<close>
  "escape raw = concat (map escape_char raw)"

definition STYLE :: str where
  \<open>STYLE = paragraph_of [
      ''<style>'',
      '':root { color-scheme: light dark; }'',
      ''body {'',
      ''  margin: 0; min-height: 100vh; display: flex; align-items: center;'',
      ''  justify-content: center; padding: 2rem;'',
      ''  font: 16px/1.6 system-ui, -apple-system, "Segoe UI", Roboto, sans-serif;'',
      ''  background: #fff; color: #202124;'',
      ''}'',
      ''main { max-width: 42rem; }'',
      ''.mark { font-size: 3.5rem; line-height: 1; color: #b0b3b8; margin-bottom: 1rem; }'',
      ''h1 { font-size: 1.65rem; font-weight: 500; margin: 0 0 1rem; }'',
      ''.lede { font-size: 1.05rem; }'',
      ''p { margin: 0 0 1rem; }'',
      ''details { margin: 1.5rem 0; }'',
      ''summary { cursor: pointer; color: #1a73e8; }'',
      ''.detail { font-family: ui-monospace, SFMono-Regular, Menlo, monospace;'',
      ''  font-size: .85rem; word-break: break-word; margin-top: .75rem; }'',
      ''.note { font-size: .9rem; color: #5f6368; }'',
      ''.actions { margin-top: 2rem; }'',
      ''button {'',
      ''  font: inherit; font-size: .95rem; padding: .55rem 1.1rem; border: 0;'',
      ''  border-radius: 4px; background: #1a73e8; color: #fff; cursor: pointer;'',
      ''}'',
      ''button:hover { background: #1867cf; }'',
      ''@media (prefers-color-scheme: dark) {'',
      ''  body { background: #202124; color: #e8eaed; }'',
      ''  .note { color: #9aa0a6; }'',
      ''  summary { color: #8ab4f8; }'',
      ''  button { background: #8ab4f8; color: #202124; }'',
      ''  button:hover { background: #aecbfa; }'',
      ''}'',
      ''</style>'']\<close>

definition explain :: "str \<Rightarrow> str" where
  "explain detail =
     (let detail = to_lower detail in
      if contains detail ''expired'' then
        ''The certificate has expired. That usually means the site let it lapse, but it can also mean your device'' @ [quote] @ ''s clock is wrong.''
      else if contains detail ''unknownissuer'' \<or> contains detail ''unknown issuer'' then
        ''The certificate was not issued by an authority mach5 trusts. It may be self-signed, or something may be intercepting the connection between mach5 and the site.''
      else if contains detail ''notvalidforname'' \<or> contains detail ''not valid for'' then
        ''The certificate is valid, but it was issued for a different hostname. The request may have been redirected somewhere unintended.''
      else ''The certificate could not be validated, so mach5 refused to continue.'')"

definition listener :: "(str \<Rightarrow> str option) \<Rightarrow> str \<Rightarrow> str \<Rightarrow> str" where
  \<open>listener to_json phrase tok =
     (let quoted = (\<lambda>s. case to_json s of Some j \<Rightarrow> j | None \<Rightarrow> [CHR 0x22, CHR 0x22]);
          phrase = quoted phrase; tok = quoted tok
      in paragraph_of [
      ''<script>'',
      ''(() => {'',
      tabs 1 @ ''const want = '' @ phrase @ '';'',
      tabs 1 @ ''const token = '' @ tok @ '';'',
      tabs 1 @ ''let typed = '' @ [quote, quote] @ '';'',
      tabs 1 @ ''addEventListener('keypress', (e) => {'',
      tabs 2 @ ''typed = (typed + String.fromCharCode(e.charCode || e.keyCode)).slice(-want.length);'',
      tabs 2 @ ''if (typed !== want) {'',
      tabs 3 @ ''return;'',
      tabs 2 @ ''}'',
      [],
      tabs 2 @ ''fetch('/.mach5/bypass', {'',
      tabs 3 @ ''method: 'POST','',
      tabs 3 @ ''credentials: 'omit','',
      tabs 3 @ ''headers: { 'content-type': 'application/json' },'',
      tabs 3 @ ''body: JSON.stringify({ token: token }),'',
      tabs 2 @ ''}).then((r) => {'',
      tabs 3 @ ''if (r.ok) {'',
      tabs 4 @ ''location.reload();'',
      tabs 3 @ ''}'',
      tabs 2 @ ''}, () => {});'',
      tabs 1 @ ''});'',
      ''})();'',
      ''</script>''])\<close>

definition page :: "(str \<Rightarrow> str option) \<Rightarrow> str \<Rightarrow> str \<Rightarrow> (str \<times> str) option \<Rightarrow> str" where
  \<open>page to_json host detail off =
     (let host = escape host; detail = escape detail; explanation = explain detail;
          bypass = (case off of Some (phrase, tok) \<Rightarrow> listener to_json phrase tok | None \<Rightarrow> [])
      in paragraph_of [
      ''<!doctype html>'',
      ''<html lang="en">'',
      ''<head>'',
      ''<meta charset="utf-8">'',
      ''<meta name="viewport" content="width=device-width, initial-scale=1">'',
      ''<title>Your connection is not private</title>'',
      STYLE,
      ''</head>'',
      ''<body>'',
      ''<main>'',
      ''  <div class="mark" aria-hidden="true">&#9888;</div>'',
      ''  <h1>Your connection is not private</h1>'',
      ''  <p class="lede">'',
      ''    <strong>'' @ host @ ''</strong> presented a certificate that mach5 could not verify,'',
      ''    so the connection was refused before any data was sent.'',
      ''  </p>'',
      ''  <p>'' @ explanation @ ''</p>'',
      ''  <details>'',
      ''    <summary>Technical details</summary>'',
      ''    <p class="detail">'' @ detail @ ''</p>'',
      ''    <p class="note">'',
      ''      mach5 is intercepting this connection, so your browser cannot check this'',
      ''      certificate itself &mdash; it trusts mach5&rsquo;s own certificate'',
      ''      authority. That makes mach5 the only thing still validating the origin,'',
      ''      which is why it stopped here rather than letting the page load.'',
      ''    </p>'',
      ''  </details>'',
      ''  <p class="actions"><button onclick="location.reload()">Try again</button></p>'',
      ''</main>'',
      bypass,
      ''</body>'',
      ''</html>'',
      []])\<close>

definition unreachable_page :: "str \<Rightarrow> str \<Rightarrow> str" where
  \<open>unreachable_page host detail =
     (let host = escape host; detail = escape detail
      in paragraph_of [
      ''<!doctype html>'',
      ''<html lang="en">'',
      ''<head>'',
      ''<meta charset="utf-8">'',
      ''<meta name="viewport" content="width=device-width, initial-scale=1">'',
      ''<title>This site can't be reached</title>'',
      STYLE,
      ''</head>'',
      ''<body>'',
      ''<main>'',
      ''  <div class="mark" aria-hidden="true">&#8709;</div>'',
      ''  <h1>This site can&rsquo;t be reached</h1>'',
      ''  <p class="lede">mach5 could not fetch <strong>'' @ host @ ''</strong>.</p>'',
      ''  <details>'',
      ''    <summary>Technical details</summary>'',
      ''    <p class="detail">'' @ detail @ ''</p>'',
      ''  </details>'',
      ''  <p class="actions"><button onclick="location.reload()">Try again</button></p>'',
      ''</main>'',
      ''</body>'',
      ''</html>'',
      []])\<close>

definition loop_page :: "str \<Rightarrow> str" where
  \<open>loop_page host =
     (let host = escape host
      in paragraph_of [
      ''<!doctype html>'',
      ''<html lang="en">'',
      ''<head>'',
      ''<meta charset="utf-8">'',
      ''<meta name="viewport" content="width=device-width, initial-scale=1">'',
      ''<title>mach5 reached itself</title>'',
      STYLE,
      ''</head>'',
      ''<body>'',
      ''<main>'',
      ''  <div class="mark" aria-hidden="true">&#8634;</div>'',
      ''  <h1>mach5 reached itself</h1>'',
      ''  <p class="lede">'',
      ''    Fetching <strong>'' @ host @ ''</strong> came back to mach5 instead of the real'',
      ''    site, so the request was stopped rather than repeated until the machine'',
      ''    ran out.'',
      ''  </p>'',
      ''  <p>'',
      ''    That means mach5 resolved this name to its own address. Almost always it is'',
      ''    resolving through the DNS server that answers every query with mach5 &mdash;'',
      ''    the one the clients use &mdash; instead of a resolver that returns the real'',
      ''    address of the origin.'',
      ''  </p>'',
      ''  <details>'',
      ''    <summary>What to check</summary>'',
      ''    <p class="detail">dns: &mdash; the proxy container&rsquo;s resolver in compose.yaml</p>'',
      ''    <p class="detail">/etc/resolv.conf &mdash; if the proxy is not in a container</p>'',
      ''    <p class="note">'',
      ''      Whichever applies must point at a resolver with real answers, never at the'',
      ''      wildcard server that points every name at mach5.'',
      ''    </p>'',
      ''  </details>'',
      ''</main>'',
      ''</body>'',
      ''</html>'',
      []])\<close>

definition certificate_error :: "(str \<Rightarrow> str option) \<Rightarrow> str \<Rightarrow> str \<Rightarrow> (str \<times> str) option \<Rightarrow> proxy_response" where
  "certificate_error to_json host detail bypass =
     \<lparr>rs_status = STATUS_INVALID_CERT,
      rs_headers = [(''content-type'', ''text/html; charset=utf-8''), (''cache-control'', ''no-store''),
        (''content-security-policy'', ''frame-ancestors '' @ [quote] @ ''none'' @ [quote]),
        (''x-frame-options'', ''DENY'')],
      rs_body = as_bytes (page to_json host detail bypass)\<rparr>"

definition upstream_error :: "str \<Rightarrow> str \<Rightarrow> proxy_response" where
  "upstream_error host detail =
     \<lparr>rs_status = 502,
      rs_headers = [(''content-type'', ''text/html; charset=utf-8''), (''cache-control'', ''no-store'')],
      rs_body = as_bytes (unreachable_page host detail)\<rparr>"

definition fetch_loop :: "str \<Rightarrow> proxy_response" where
  "fetch_loop host =
     \<lparr>rs_status = STATUS_LOOP_DETECTED,
      rs_headers = [(''content-type'', ''text/html; charset=utf-8''), (''cache-control'', ''no-store'')],
      rs_body = as_bytes (loop_page host)\<rparr>"

section \<open>Escaping\<close>

fun unescape :: "str \<Rightarrow> str" where
  \<comment> \<open>what a browser shows for an escaped text\<close>
  "unescape [] = []"
| "unescape (c # s) =
     (if c \<noteq> CHR ''&'' then c # unescape s
      else if starts_with s ''amp;'' then CHR ''&'' # unescape (drop 4 s)
      else if starts_with s ''lt;'' then CHR ''<'' # unescape (drop 3 s)
      else if starts_with s ''gt;'' then CHR ''>'' # unescape (drop 3 s)
      else if starts_with s ''quot;'' then CHR 0x22 # unescape (drop 5 s)
      else if starts_with s ''#39;'' then quote # unescape (drop 4 s)
      else c # unescape s)"

lemma escape_Nil [simp]: "escape [] = []"
  by (simp add: escape_def)

lemma escape_Cons [simp]: "escape (c # s) = escape_char c @ escape s"
  by (simp add: escape_def)

lemma unescape_escape_char: "unescape (escape_char c @ s) = c # unescape s"
  by (auto simp: escape_char.simps quote_def)

text \<open>Escaping loses nothing: a browser shows the text that was given.\<close>

theorem escape_round_trips: "unescape (escape s) = s"
  by (induction s) (simp_all add: unescape_escape_char)

definition markup :: "char \<Rightarrow> bool" where
  \<comment> \<open>what can open or close a tag, an attribute value or a comment\<close>
  "markup c \<longleftrightarrow> c = CHR ''<'' \<or> c = CHR ''>'' \<or> c = CHR 0x22"

lemma escape_no_markup: "filter markup (escape s) = []"
  by (induction s) (auto simp: escape_char.simps markup_def quote_def)

lemma explain_no_markup: "filter markup (explain d) = []"
  unfolding explain_def Let_def
  by (simp only: if_distrib [of "filter markup"] split: if_split)
    (intro conjI impI; ((erule thin_rl)+)?; code_simp)

lemma filter_paragraph_of: "filter markup (paragraph_of ls) = concat (map (filter markup) ls)"
proof -
  have "\<not> markup newline" by (simp add: markup_def newline_def)
  then show ?thesis unfolding paragraph_of_def by (induction ls) (auto simp: join_Cons)
qed

text \<open>
  What comes from outside never becomes markup: the tags, attributes and their order in each of the
  pages are the same whatever the host and the error message say.
\<close>

theorem pages_keep_their_markup:
  "filter markup (page to_json host detail off) = filter markup (page to_json [] [] off)
   \<and> filter markup (unreachable_page host detail) = filter markup (unreachable_page [] [])
   \<and> filter markup (loop_page host) = filter markup (loop_page [])"
  unfolding page_def unreachable_page_def loop_page_def Let_def
  by (simp only: filter_paragraph_of filter_append list.map concat.simps escape_no_markup explain_no_markup
      append_Nil append_Nil2 escape_Nil filter.simps(1))

end
