(* ===== verification/Utf8.thy ===== *)
theory Utf8
  imports Prelude
begin

text \<open>
  The conversions between bytes and text of Rust's standard library that the components share:
  \<open>std::str::from_utf8\<close> and \<open>String::from_utf8_lossy\<close>, which keeps every well-formed character and
  puts U+FFFD for each maximal ill-formed piece.
\<close>

definition within :: "nat \<Rightarrow> nat \<Rightarrow> u8 \<Rightarrow> bool" where
  "within lo hi b \<longleftrightarrow> lo \<le> unat b \<and> unat b \<le> hi"

definition second_range :: "u8 \<Rightarrow> (nat \<times> nat) option" where
  \<comment> \<open>which second byte a lead byte of three or four may have\<close>
  "second_range b =
     (if b = 0xE0 then Some (0xA0, 0xBF)
      else if within 0xE1 0xEC b \<or> b = 0xEE \<or> b = 0xEF then Some (0x80, 0xBF)
      else if b = 0xED then Some (0x80, 0x9F)
      else if b = 0xF0 then Some (0x90, 0xBF)
      else if within 0xF1 0xF3 b then Some (0x80, 0xBF)
      else if b = 0xF4 then Some (0x80, 0x8F)
      else None)"

definition lead_length :: "u8 \<Rightarrow> nat" where
  \<comment> \<open>how long a character that starts with this byte is; 0 for a byte that starts none\<close>
  "lead_length b =
     (if unat b < 0x80 then 1
      else if within 0xC2 0xDF b then 2
      else if within 0xE0 0xEF b then 3
      else if within 0xF0 0xF4 b then 4 else 0)"

definition continues :: "u8 \<Rightarrow> nat \<Rightarrow> u8 \<Rightarrow> bool" where
  \<comment> \<open>whether \<open>c\<close> may be byte \<open>i\<close> of a character that starts with \<open>b\<close>\<close>
  "continues b i c \<longleftrightarrow>
     (case second_range b of
        Some (lo, hi) \<Rightarrow> if i = 1 then within lo hi c else within 0x80 0xBF c
      | None \<Rightarrow> within 0x80 0xBF c)"

fun matched :: "u8 \<Rightarrow> nat \<Rightarrow> bytes \<Rightarrow> nat" where
  \<comment> \<open>how many of the bytes that should follow do follow, from byte \<open>i\<close> on\<close>
  "matched b i [] = 0"
| "matched b i (c # cs) =
     (if i < lead_length b \<and> continues b i c then Suc (matched b (Suc i) cs) else 0)"

definition piece :: "bytes \<Rightarrow> bool \<times> nat" where
  \<comment> \<open>whether the bytes start with a whole character, and the length of it or of the ill-formed
    piece in its place\<close>
  "piece bs =
     (case bs of
        [] \<Rightarrow> (False, 0)
      | b # rest \<Rightarrow> (let n = 1 + matched b 1 rest in (lead_length b \<noteq> 0 \<and> n = lead_length b, n)))"

definition REPLACEMENT :: str where
  \<comment> \<open>U+FFFD\<close>
  "REPLACEMENT = map char_of [0xEF :: nat, 0xBF, 0xBD]"

definition text_of :: "bytes \<Rightarrow> str" where
  "text_of bs = map (\<lambda>b. char_of (unat b)) bs"

function (sequential) lossy :: "bytes \<Rightarrow> str" where
  \<comment> \<open>\<open>String::from_utf8_lossy\<close>\<close>
  "lossy [] = []"
| "lossy (b # bs) =
     (let (ok, n) = piece (b # bs) in
      (if ok then text_of (take n (b # bs)) else REPLACEMENT) @ lossy (drop n (b # bs)))"
  by pat_completeness auto
termination
  by (relation "measure length") (auto simp: piece_def Let_def)

declare lossy.simps(2) [simp del]

function (sequential) valid_utf8 :: "bytes \<Rightarrow> bool" where
  "valid_utf8 [] = True"
| "valid_utf8 (b # bs) =
     (let (ok, n) = piece (b # bs) in ok \<and> valid_utf8 (drop n (b # bs)))"
  by pat_completeness auto
termination
  by (relation "measure length") (auto simp: piece_def Let_def)

declare valid_utf8.simps(2) [simp del]

definition from_utf8 :: "bytes \<Rightarrow> str option" where
  "from_utf8 bs = (if valid_utf8 bs then Some (text_of bs) else None)"

lemma text_of_append [simp]: "text_of (a @ b) = text_of a @ text_of b"
  by (simp add: text_of_def)

lemma text_of_Nil [simp]: "text_of [] = []"
  by (simp add: text_of_def)

lemma text_of_as_bytes [simp]: "text_of (as_bytes s) = s"
  by (induction s) (simp_all add: text_of_def as_bytes_def unat_of_nat of_char_mod_256)

lemma as_bytes_text_of [simp]: "as_bytes (text_of bs) = bs"
proof -
  have "unat b < 256" for b :: u8 using unsigned_less [of b] by simp
  then show ?thesis by (induction bs) (simp_all add: text_of_def as_bytes_def of_char_of)
qed

lemma piece_ascii: "unat b < 128 \<Longrightarrow> piece (b # bs) = (True, 1)"
proof -
  assume b: "unat b < 128"
  then have "matched b 1 bs = 0" by (cases bs) (simp_all add: lead_length_def)
  with b show ?thesis by (simp add: piece_def lead_length_def)
qed

text \<open>Text that is well-formed comes through unchanged; so does ASCII, byte by byte.\<close>

lemma lossy_valid: "valid_utf8 bs \<Longrightarrow> lossy bs = text_of bs"
proof (induction bs rule: lossy.induct)
  case (2 b bs)
  obtain ok n where p: "piece (b # bs) = (ok, n)" by force
  with 2 have "ok" "lossy (drop n (b # bs)) = text_of (drop n (b # bs))"
    by (auto simp: valid_utf8.simps(2))
  with p have "lossy (b # bs) = text_of (take n (b # bs)) @ text_of (drop n (b # bs))"
    by (simp add: lossy.simps(2))
  then show ?case by (metis append_take_drop_id text_of_append)
qed simp

lemma lossy_ascii: "list_all (\<lambda>b. unat b < 128) bs \<Longrightarrow> lossy bs = text_of bs"
  by (induction bs) (simp_all add: lossy.simps(2) piece_ascii text_of_def)

lemma lossy_from_utf8: "from_utf8 bs = Some s \<Longrightarrow> lossy bs = s"
  by (auto simp: from_utf8_def lossy_valid split: if_splits)

lemma lossy_examples:
  "lossy [0x61, 0xFF, 0x62] = ''a'' @ REPLACEMENT @ ''b''"
  "lossy [0xE2, 0x82, 0x28] = REPLACEMENT @ ''(''"
  "lossy [0xF0, 0x9F, 0x92, 0xA9] = text_of [0xF0, 0x9F, 0x92, 0xA9]"
  "lossy [0xED, 0xA0, 0x80] = REPLACEMENT @ REPLACEMENT @ REPLACEMENT"
  by code_simp+

section \<open>What comes out is text\<close>

lemma matched_le: "i \<le> lead_length b \<Longrightarrow> i + matched b i cs \<le> lead_length b"
  by (induction b i cs rule: matched.induct) auto

lemma matched_prefix:
  "i \<le> lead_length b \<Longrightarrow> i + matched b i cs = lead_length b \<Longrightarrow>
   matched b i (take (matched b i cs) cs @ r) = matched b i cs"
proof (induction b i cs rule: matched.induct)
  case (1 b i)
  then show ?case by (cases r) auto
next
  case (2 b i c cs)
  then show ?case by (cases r) (auto split: if_splits)
qed

lemma piece_prefix:
  assumes "piece (b # bs) = (True, n)"
  shows "piece (take n (b # bs) @ r) = (True, n)" and "n \<le> length (b # bs)" and "n > 0"
proof -
  have n: "n = Suc (matched b 1 bs)" "n = lead_length b" using assms by (auto simp: piece_def Let_def)
  then have m: "matched b 1 (take (matched b 1 bs) bs @ r) = matched b 1 bs" by (intro matched_prefix) auto
  with n show "piece (take n (b # bs) @ r) = (True, n)" by (simp add: piece_def Let_def)
  have "matched b i cs \<le> length cs" for i cs by (induction b i cs rule: matched.induct) auto
  with n show "n \<le> length (b # bs)" "n > 0" by simp_all
qed

lemma valid_utf8_piece:
  assumes "piece bs = (True, n)" and "n \<le> length bs" and "n > 0" and "valid_utf8 (drop n bs)"
  shows "valid_utf8 bs"
  using assms by (cases bs) (auto simp: valid_utf8.simps(2))

lemma valid_utf8_lossy: "valid_utf8 (as_bytes (lossy bs))"
proof (induction bs rule: lossy.induct)
  case (2 b bs)
  obtain ok n where p: "piece (b # bs) = (ok, n)" by force
  let ?rest = "as_bytes (lossy (drop n (b # bs)))"
  have rest: "valid_utf8 ?rest" using 2 p by simp
  have app: "as_bytes (s @ t) = as_bytes s @ as_bytes t" for s t by (simp add: as_bytes_def)
  show ?case
  proof (cases ok)
    case True
    with p have p': "piece (b # bs) = (True, n)" by simp
    from piece_prefix(2,3) [OF p'] rest have "valid_utf8 (take n (b # bs) @ ?rest)"
      by (intro valid_utf8_piece [OF piece_prefix(1) [OF p']]) auto
    with p True show ?thesis by (simp add: lossy.simps(2) app)
  next
    case False
    have "piece (as_bytes REPLACEMENT @ ?rest) = (True, 3)"
    proof -
      have e: "as_bytes REPLACEMENT = [0xEF, 0xBF, 0xBD]"
        by (simp add: as_bytes_def REPLACEMENT_def of_char_of)
      have "piece [0xEF, 0xBF, 0xBD] = (True, 3)" by code_simp
      from piece_prefix(1) [OF this, of ?rest] show ?thesis by (simp add: e)
    qed
    moreover have "length (as_bytes REPLACEMENT) = 3" by (simp add: REPLACEMENT_def)
    ultimately have "valid_utf8 (as_bytes REPLACEMENT @ ?rest)"
      using rest valid_utf8_piece [of "as_bytes REPLACEMENT @ ?rest" 3] by simp
    with p False show ?thesis by (simp add: lossy.simps(2) app)
  qed
qed (simp add: as_bytes_def)

lemma from_utf8_lossy: "from_utf8 (as_bytes (lossy bs)) = Some (lossy bs)"
  by (simp add: from_utf8_def valid_utf8_lossy)

lemma valid_utf8_append: "valid_utf8 a \<Longrightarrow> valid_utf8 b \<Longrightarrow> valid_utf8 (a @ b)"
proof (induction a rule: valid_utf8.induct)
  case (2 c a)
  obtain ok n where p: "piece (c # a) = (ok, n)" by force
  with 2 have p': "piece (c # a) = (True, n)" and rest: "valid_utf8 (drop n (c # a) @ b)"
    by (auto simp: valid_utf8.simps(2))
  have "piece (take n (c # a) @ drop n (c # a) @ b) = (True, n)" by (rule piece_prefix(1) [OF p'])
  moreover have "take n (c # a) @ drop n (c # a) @ b = (c # a) @ b" by (metis append.assoc append_take_drop_id)
  ultimately have "piece ((c # a) @ b) = (True, n)" by simp
  moreover have "drop n ((c # a) @ b) = drop n (c # a) @ b"
    using piece_prefix(2) [OF p'] by (metis diff_is_0_eq drop0 drop_append)
  ultimately show ?case
    using piece_prefix(2,3) [OF p'] rest by (intro valid_utf8_piece [of "(c # a) @ b" n]) (auto simp del: drop_append)
qed simp

lemma valid_utf8_ascii: "list_all (\<lambda>b. unat b < 128) bs \<Longrightarrow> valid_utf8 bs"
  by (induction bs) (simp_all add: valid_utf8.simps(2) piece_ascii)

end
