(* ===== verification/Fetch.thy ===== *)
theory Fetch
  imports Filestore Utf8
begin

text \<open>
  \<open>src/proxy/src/fetch.rs\<close>: a list somebody else maintains, fetched, revalidated and kept on disk.
  The HTTP client is \<open>ureq\<close>: a fetch is the request headers the code sets, an \<open>origin\<close> that
  answers them, and \<open>ureq\<close>'s sorting of the answer, which by its documentation makes an error of a
  status from 400 up and nothing else. The files are a map; which writes succeed is an argument.
  Log lines are left out.
\<close>

definition MAX_LIST_BYTES :: nat where "MAX_LIST_BYTES = 64 * 1024 * 1024"

record list_cache =
  lc_dir :: str
  lc_kind :: str

record validators =
  v_etag :: "str option"
  v_last_modified :: "str option"

definition default_validators :: validators where
  "default_validators = \<lparr>v_etag = None, v_last_modified = None\<rparr>"

section \<open>Names\<close>

definition hex64 :: "64 word \<Rightarrow> str" where
  \<comment> \<open>\<open>format!("{hash:016x}")\<close>\<close>
  "hex64 w = map (\<lambda>i. hex_digit (unat (drop_bit (4 * i) w) mod 16)) (rev [0..<16])"

definition cache_name :: "str \<Rightarrow> str" where
  "cache_name url =
     hex64 (fold (\<lambda>byte hash. (xor hash (ucast byte)) * 0x00000100000001b3) (as_bytes url) 0xcbf29ce484222325)"

definition list_path :: "list_cache \<Rightarrow> config \<Rightarrow> str \<Rightarrow> str" where
  "list_path lc c url =
     path_join (path_join (cache_dir (paths_section c)) (lc_dir lc)) (cache_name url @ ''.txt'')"

definition meta_path :: "str \<Rightarrow> str" where
  "meta_path cache = with_extension cache ''meta''"

section \<open>Validators\<close>

definition lf :: char where "lf = char_of (10 :: nat)"

definition validators_text :: "validators \<Rightarrow> str" where
  \<comment> \<open>the text \<open>write_validators\<close> builds\<close>
  "validators_text v =
     (case v_etag v of Some e \<Rightarrow> ''etag: '' @ e @ [lf] | None \<Rightarrow> [])
     @ (case v_last_modified v of Some m \<Rightarrow> ''last-modified: '' @ m @ [lf] | None \<Rightarrow> [])"

definition write_validators :: "io \<Rightarrow> str \<Rightarrow> validators \<Rightarrow> files \<Rightarrow> files" where
  "write_validators w path v fs =
     (if validators_text v = [] then remove_files (\<lambda>p. p = path \<and> may_remove w p) fs
      else replace_file (may_replace w path) path (as_bytes (validators_text v)) fs)"

fun read_lines :: "str list \<Rightarrow> validators \<Rightarrow> validators" where
  "read_lines [] v = v"
| "read_lines (line # ls) v =
     read_lines ls
       (case split_once CHR '':'' line of
          None \<Rightarrow> v
        | Some (name, val) \<Rightarrow>
            (let val = trim val; name = to_lower (trim name) in
             if val = [] then v
             else if name = ''etag'' then v\<lparr>v_etag := Some val\<rparr>
             else if name = ''last-modified'' then v\<lparr>v_last_modified := Some val\<rparr>
             else v))"

definition read_validators :: "str \<Rightarrow> files \<Rightarrow> validators" where
  "read_validators path fs =
     (case Option.bind (fs path) from_utf8 of
        None \<Rightarrow> default_validators
      | Some txt \<Rightarrow> read_lines (lines txt) default_validators)"

section \<open>Fetching\<close>

datatype answer = Unreachable | Answered nat headers "bytes \<times> bool"
  \<comment> \<open>what the origin does; the body is its bytes and whether reading them fails after the last\<close>

datatype called = Good nat headers "bytes \<times> bool" | Status_error nat | Transport_error

fun ureq_call :: "answer \<Rightarrow> called" where
  "ureq_call Unreachable = Transport_error"
| "ureq_call (Answered status hs body) = (if status \<ge> 400 then Status_error status else Good status hs body)"

definition store_list :: "io \<Rightarrow> bool \<Rightarrow> str \<Rightarrow> headers \<Rightarrow> bytes \<times> bool \<Rightarrow> files \<Rightarrow> str option \<times> files" where
  \<comment> \<open>\<open>Cache::store\<close>; \<open>made\<close> is whether the directory could be created\<close>
  "store_list w made path hs body fs =
     (case read_limited (MAX_LIST_BYTES + 1) body of
        None \<Rightarrow> (None, fs)
      | Some body \<Rightarrow>
          if length body > MAX_LIST_BYTES then (None, fs)
          else (let txt = lossy body;
                    v = \<lparr>v_etag = header hs ''etag'', v_last_modified = header hs ''last-modified''\<rparr> in
            (Some txt,
             if made \<and> may_replace w path
             then write_validators w (meta_path path) v (replace_file True path (as_bytes txt) fs)
             else fs)))"

definition conditions :: "str \<Rightarrow> files \<Rightarrow> headers" where
  \<comment> \<open>the validators a request for the list carries\<close>
  "conditions path fs =
     (if Option.bind (fs path) from_utf8 = None then []
      else (let v = read_validators (meta_path path) fs in
        (case v_etag v of Some e \<Rightarrow> [(''if-none-match'', e)] | None \<Rightarrow> [])
        @ (case v_last_modified v of Some m \<Rightarrow> [(''if-modified-since'', m)] | None \<Rightarrow> [])))"

definition fetch :: "list_cache \<Rightarrow> io \<Rightarrow> bool \<Rightarrow> config \<Rightarrow> (headers \<Rightarrow> answer) \<Rightarrow> str \<Rightarrow> files \<Rightarrow> str option \<times> files" where
  "fetch lc w made c origin url fs =
     (let path = list_path lc c url;
          cached = Option.bind (fs path) from_utf8
      in case ureq_call (origin (conditions path fs)) of
           Good status hs body \<Rightarrow>
             (case store_list w made path hs body fs of
                (Some txt, fs) \<Rightarrow> (Some txt, fs)
              | (None, fs) \<Rightarrow> (cached, fs))
         | Status_error status \<Rightarrow> if status = 304 then (cached, fs) else (cached, fs)
         | Transport_error \<Rightarrow> (cached, fs))"

fun fetched :: "list_cache \<Rightarrow> io \<Rightarrow> bool \<Rightarrow> config \<Rightarrow> (str \<Rightarrow> headers \<Rightarrow> answer) \<Rightarrow> str list \<Rightarrow> files \<Rightarrow> str list \<times> files" where
  "fetched lc w made c origin [] fs = ([], fs)"
| "fetched lc w made c origin (url # urls) fs =
     (let (one, fs) = fetch lc w made c (origin url) url fs;
          (others, fs) = fetched lc w made c origin urls fs
      in (case one of Some t \<Rightarrow> t # others | None \<Rightarrow> others, fs))"

definition cached :: "list_cache \<Rightarrow> config \<Rightarrow> str list \<Rightarrow> files \<Rightarrow> str list" where
  "cached lc c urls fs = List.map_filter (\<lambda>url. Option.bind (fs (list_path lc c url)) from_utf8) urls"

section \<open>Validators come back as they were written\<close>

definition clean_value :: "str \<Rightarrow> bool" where
  \<comment> \<open>a header value: one line, no space at either end, not empty\<close>
  "clean_value v \<longleftrightarrow> v \<noteq> [] \<and> lf \<notin> set v \<and> trim v = v \<and> valid_utf8 (as_bytes v)"

lemma strip_cr_clean: "trim v = v \<Longrightarrow> v \<noteq> [] \<Longrightarrow> strip_cr (x @ v) = x @ v"
proof -
  assume t: "trim v = v" and n: "v \<noteq> []"
  have "byte (last v) \<noteq> 13"
  proof
    assume "byte (last v) = 13"
    have "drop (length v - 1) v = [last v]" using n by (metis append_butlast_last_id append_eq_conv_conj length_butlast)
    then have "ws_suffix v = 1" using n \<open>byte (last v) = 13\<close> by (simp add: ws_suffix_def Let_def Suc_leI)
    moreover have "ws_suffix v = 0" using t ws_suffix_trim_end unfolding trim_def by metis
    ultimately show False by simp
  qed
  with n show ?thesis by (simp add: strip_cr_def)
qed

lemma byte_lf: "byte c = 10 \<longleftrightarrow> c = lf"
proof -
  have "byte lf = 10" by (simp add: lf_def of_char_of)
  then show ?thesis by (metis of_char_eq_iff)
qed

lemma lines_line: "lf \<notin> set l \<Longrightarrow> lines (l @ lf # s) = strip_cr l # lines s"
proof -
  assume "lf \<notin> set l"
  then have "split_on (\<lambda>c. byte c = 10) (l @ lf # s) = l # split_on (\<lambda>c. byte c = 10) s"
    by (intro split_on_append_sep) (auto simp: byte_lf)
  then show ?thesis by (simp add: lines_def Let_def)
qed

lemma strip_cr_id: "l \<noteq> [] \<Longrightarrow> byte (last l) \<noteq> 13 \<Longrightarrow> strip_cr l = l"
  by (simp add: strip_cr_def)

lemma label_lines:
  assumes "clean_value v"
  shows "lines (''etag: '' @ v @ lf # s) = (''etag: '' @ v) # lines s"
    and "lines (''last-modified: '' @ v @ lf # s) = (''last-modified: '' @ v) # lines s"
proof -
  have v: "lf \<notin> set v" "trim v = v" "v \<noteq> []" using assms by (simp_all add: clean_value_def)
  have l: "lf \<notin> set ''etag: ''" "lf \<notin> set ''last-modified: ''" by code_simp+
  show "lines (''etag: '' @ v @ lf # s) = (''etag: '' @ v) # lines s"
    using lines_line [of "''etag: '' @ v" s] strip_cr_clean [OF v(2,3), of "''etag: ''"] l(1) v(1) by simp
  show "lines (''last-modified: '' @ v @ lf # s) = (''last-modified: '' @ v) # lines s"
    using lines_line [of "''last-modified: '' @ v" s] strip_cr_clean [OF v(2,3), of "''last-modified: ''"] l(2) v(1) by simp
qed

lemma labels: "to_lower (trim ''etag'') = ''etag''" "to_lower (trim ''last-modified'') = ''last-modified''"
  by code_simp+

lemma read_label:
  assumes "clean_value v"
  shows "read_lines ((''etag: '' @ v) # ls) r = read_lines ls (r\<lparr>v_etag := Some v\<rparr>)"
    and "read_lines ((''last-modified: '' @ v) # ls) r = read_lines ls (r\<lparr>v_last_modified := Some v\<rparr>)"
proof -
  have v: "trim (CHR '' '' # v) = v" "v \<noteq> []" using assms by (simp_all add: clean_value_def trim_space)
  have "split_once CHR '':'' (''etag: '' @ v) = Some (''etag'', CHR '' '' # v)"
    "split_once CHR '':'' (''last-modified: '' @ v) = Some (''last-modified'', CHR '' '' # v)"
    by (simp_all add: split_once_Some_iff)
  with v labels show "read_lines ((''etag: '' @ v) # ls) r = read_lines ls (r\<lparr>v_etag := Some v\<rparr>)"
    "read_lines ((''last-modified: '' @ v) # ls) r = read_lines ls (r\<lparr>v_last_modified := Some v\<rparr>)"
    by (simp_all only: read_lines.simps option.case prod.case Let_def if_False if_True simp_thms) simp_all
qed

lemma as_bytes_append [simp]: "as_bytes (a @ b) = as_bytes a @ as_bytes b"
  by (simp add: as_bytes_def)

definition labelled :: "str \<Rightarrow> str option \<Rightarrow> str" where
  "labelled l v = (case v of Some v \<Rightarrow> l @ v @ [lf] | None \<Rightarrow> [])"

definition clean_validators :: "validators \<Rightarrow> bool" where
  "clean_validators v \<longleftrightarrow> pred_option clean_value (v_etag v) \<and> pred_option clean_value (v_last_modified v)"

lemma valid_labelled:
  "list_all (\<lambda>c. byte c < 128) l \<Longrightarrow> pred_option clean_value v \<Longrightarrow> valid_utf8 (as_bytes (labelled l v))"
proof -
  assume l: "list_all (\<lambda>c. byte c < 128) l" and v: "pred_option clean_value v"
  have ascii: "valid_utf8 (as_bytes m)" if "list_all (\<lambda>c. byte c < 128) m" for m
    using that by (intro valid_utf8_ascii) (auto simp: as_bytes_def list_all_iff unat_of_nat of_char_mod_256)
  have "valid_utf8 (as_bytes [lf])" by (rule ascii) (simp add: lf_def of_char_of)
  with ascii [OF l] v show ?thesis
    by (cases v) (auto simp: labelled_def clean_value_def as_bytes_def [of "[]"] intro!: valid_utf8_append)
qed

lemma lines_labelled:
  assumes "pred_option clean_value v"
  shows "lines (labelled ''etag: '' v @ s) = (case v of Some v \<Rightarrow> [''etag: '' @ v] | None \<Rightarrow> []) @ lines s"
    and "lines (labelled ''last-modified: '' v @ s) = (case v of Some v \<Rightarrow> [''last-modified: '' @ v] | None \<Rightarrow> []) @ lines s"
  using assms label_lines by (cases v; auto simp: labelled_def)+

lemma single_append: "[x] @ ls = x # ls"
  by simp

lemma read_labelled:
  assumes "pred_option clean_value v"
  shows "read_lines ((case v of Some v \<Rightarrow> [''etag: '' @ v] | None \<Rightarrow> []) @ ls) r =
      read_lines ls (case v of Some v \<Rightarrow> r\<lparr>v_etag := Some v\<rparr> | None \<Rightarrow> r)"
    and "read_lines ((case v of Some v \<Rightarrow> [''last-modified: '' @ v] | None \<Rightarrow> []) @ ls) r =
      read_lines ls (case v of Some v \<Rightarrow> r\<lparr>v_last_modified := Some v\<rparr> | None \<Rightarrow> r)"
  using assms by (cases v; simp_all only: option.case append_Nil single_append read_label option.pred_inject)+

lemma read_written:
  assumes "clean_validators v"
  shows "from_utf8 (as_bytes (validators_text v)) = Some (validators_text v)
    \<and> read_lines (lines (validators_text v)) default_validators = v"
proof -
  obtain e m where v: "v = \<lparr>v_etag = e, v_last_modified = m\<rparr>" by (cases v) auto
  have t: "validators_text v = labelled ''etag: '' e @ labelled ''last-modified: '' m"
    by (simp only: v validators_text_def labelled_def validators.simps)
  have c: "pred_option clean_value e" "pred_option clean_value m" using assms by (simp_all add: v clean_validators_def)
  have l: "list_all (\<lambda>c. byte c < 128) ''etag: ''" "list_all (\<lambda>c. byte c < 128) ''last-modified: ''" by code_simp+
  have "valid_utf8 (as_bytes (validators_text v))"
    unfolding t as_bytes_append by (rule valid_utf8_append [OF valid_labelled [OF l(1) c(1)] valid_labelled [OF l(2) c(2)]])
  moreover have "lines (labelled ''last-modified: '' m) = (case m of Some v \<Rightarrow> [''last-modified: '' @ v] | None \<Rightarrow> [])"
    using lines_labelled(2) [OF c(2), of "[]"] by (simp add: lines_def)
  then have "read_lines (lines (validators_text v)) default_validators = v"
    unfolding t lines_labelled(1) [OF c(1)]
    using read_labelled(1) [OF c(1)] read_labelled(2) [OF c(2), of "[]"]
    by (cases e; cases m) (simp_all add: v default_validators_def)
  ultimately show ?thesis by (simp add: from_utf8_def)
qed

text \<open>
  The validators kept beside a list come back as they were written, colons and all, and a list that
  came without any leaves none behind.
\<close>

theorem validators_round_trip:
  assumes "clean_validators v" and "may_replace w path" and "may_remove w path"
  shows "read_validators path (write_validators w path v fs) = v"
proof (cases "validators_text v = []")
  case True
  have "v = default_validators" using read_written [OF assms(1)] True by (simp add: lines_def)
  with True assms show ?thesis
    by (simp add: write_validators_def read_validators_def remove_files_def)
next
  case False
  with read_written [OF assms(1)] assms(2) show ?thesis
    by (simp add: write_validators_def read_validators_def)
qed

theorem validators_round_trip_witness:
  "read_validators ''m'' (write_validators quiet ''m'' \<lparr>v_etag = Some ''W/1a:3c'', v_last_modified = None\<rparr> Map.empty)
     = \<lparr>v_etag = Some ''W/1a:3c'', v_last_modified = None\<rparr>"
proof -
  have "clean_value ''W/1a:3c''" by code_simp
  then have "clean_validators \<lparr>v_etag = Some ''W/1a:3c'', v_last_modified = None\<rparr>"
    by (simp add: clean_validators_def)
  then show ?thesis by (rule validators_round_trip) simp_all
qed

section \<open>A fetch never costs the list it was about\<close>

fun no_list :: "answer \<Rightarrow> bool" where
  \<comment> \<open>an answer that is not the list\<close>
  "no_list Unreachable \<longleftrightarrow> True"
| "no_list (Answered status hs (body, failed)) \<longleftrightarrow> status \<ge> 400 \<or> failed \<or> length body > MAX_LIST_BYTES"

text \<open>
  An origin that cannot be reached, answers with an error, stops in the middle, or sends more than
  the ceiling costs nothing: the copy on disk stays, and is what the fetch gives.
\<close>

theorem failed_fetch_keeps_the_list:
  assumes "no_list (origin (conditions (list_path lc c url) fs))"
  shows "fetch lc w made c origin url fs = (Option.bind (fs (list_path lc c url)) from_utf8, fs)"
proof (cases "origin (conditions (list_path lc c url) fs)")
  case (Answered status hs body)
  obtain bs failed where b: "body = (bs, failed)" by force
  have "store_list w made (list_path lc c url) hs body fs = (None, fs)" if "status < 400"
    using assms that by (auto simp: Answered b store_list_def read_limited_def)
  with assms Answered show ?thesis by (simp add: fetch_def Let_def)
qed (simp add: fetch_def Let_def)

theorem failed_fetch_keeps_the_list_witness:
  "fetch \<lparr>lc_dir = ''blocklists'', lc_kind = ''blocklist''\<rparr> quiet True (default_config bare) (\<lambda>_. Answered 503 [] ([], False))
      ''https://a.example/hosts'' Map.empty = (None, Map.empty)"
proof -
  have "no_list ((\<lambda>_. Answered 503 [] ([], False)) x)" for x :: headers by simp
  then show ?thesis by (simp add: failed_fetch_keeps_the_list)
qed

lemma last_list_path: "last (list_path lc c url) = CHR ''t''"
  by (simp add: list_path_def path_join_def)

lemma last_meta_path: "last (meta_path path) = CHR ''a''"
  using with_extension_form [of path "''meta''"] by (auto simp: meta_path_def)

lemma meta_not_list: "meta_path (list_path lc c url) \<noteq> list_path lc c url"
proof
  assume "meta_path (list_path lc c url) = list_path lc c url"
  then have "CHR ''a'' = CHR ''t''" using last_list_path last_meta_path by metis
  then show False by simp
qed

lemma write_validators_other: "p \<noteq> path \<Longrightarrow> write_validators w path v fs p = fs p"
  by (simp add: write_validators_def remove_files_def replace_file_def)

text \<open>
  A list that arrives whole is what the fetch gives, is what is on disk from then on for a restart
  without a network, and the next request asks about exactly this copy.
\<close>

theorem fetched_list_is_kept:
  assumes "origin (conditions (list_path lc c url) fs) = Answered status hs (body, False)"
    and "status < 400" and "length body \<le> MAX_LIST_BYTES"
    and "clean_validators \<lparr>v_etag = header hs ''etag'', v_last_modified = header hs ''last-modified''\<rparr>"
  shows "\<exists>fs'. fetch lc quiet True c origin url fs = (Some (lossy body), fs')
    \<and> cached lc c [url] fs' = [lossy body]
    \<and> conditions (list_path lc c url) fs' =
        (case header hs ''etag'' of Some e \<Rightarrow> [(''if-none-match'', e)] | None \<Rightarrow> [])
        @ (case header hs ''last-modified'' of Some m \<Rightarrow> [(''if-modified-since'', m)] | None \<Rightarrow> [])"
proof -
  let ?path = "list_path lc c url" and ?v = "\<lparr>v_etag = header hs ''etag'', v_last_modified = header hs ''last-modified''\<rparr>"
  let ?fs = "write_validators quiet (meta_path ?path) ?v (fs(?path \<mapsto> as_bytes (lossy body)))"
  have f: "fetch lc quiet True c origin url fs = (Some (lossy body), ?fs)"
    using assms(1-3) by (simp add: fetch_def store_list_def read_limited_def Let_def)
  have "?fs ?path = Some (as_bytes (lossy body))" using meta_not_list [symmetric] by (simp add: write_validators_other)
  then have here: "Option.bind (?fs ?path) from_utf8 = Some (lossy body)" by (simp add: from_utf8_lossy)
  have v: "read_validators (meta_path ?path) ?fs = ?v" by (rule validators_round_trip) (use assms(4) in simp_all)
  have "cached lc c [url] ?fs = [lossy body]" by (simp add: cached_def List.map_filter_simps here)
  moreover have "conditions ?path ?fs = (case header hs ''etag'' of Some e \<Rightarrow> [(''if-none-match'', e)] | None \<Rightarrow> [])
        @ (case header hs ''last-modified'' of Some m \<Rightarrow> [(''if-modified-since'', m)] | None \<Rightarrow> [])"
    by (simp add: conditions_def here v)
  ultimately show ?thesis using f by blast
qed

theorem fetched_list_is_kept_witness:
  "\<exists>fs'. fetch \<lparr>lc_dir = ''blocklists'', lc_kind = ''blocklist''\<rparr> quiet True (default_config bare)
      (\<lambda>_. Answered 200 [(''etag'', ''x1'')] ([97], False)) ''https://a.example/hosts'' Map.empty = (Some (lossy [97]), fs')
    \<and> cached \<lparr>lc_dir = ''blocklists'', lc_kind = ''blocklist''\<rparr> (default_config bare) [''https://a.example/hosts''] fs' = [lossy [97]]
    \<and> conditions (list_path \<lparr>lc_dir = ''blocklists'', lc_kind = ''blocklist''\<rparr> (default_config bare) ''https://a.example/hosts'') fs'
      = [(''if-none-match'', ''x1'')]"
proof -
  let ?o = "\<lambda>_ :: headers. Answered 200 [(''etag'', ''x1'')] ([97], False)"
  have h: "header [(''etag'', ''x1'')] ''etag'' = Some ''x1''" "header [(''etag'', ''x1'')] ''last-modified'' = None" by code_simp+
  have "clean_value ''x1''" by code_simp
  with h have "clean_validators \<lparr>v_etag = header [(''etag'', ''x1'')] ''etag'', v_last_modified = header [(''etag'', ''x1'')] ''last-modified''\<rparr>"
    by (simp add: clean_validators_def)
  from fetched_list_is_kept [where origin = ?o and status = 200 and body = "[97]", OF refl _ _ this] h
  show ?thesis by (simp add: MAX_LIST_BYTES_def)
qed

text \<open>
  An origin that confirms the copy on disk with a 304 empties it: by its documentation \<open>ureq\<close> makes
  no error of a 304, so the answer's empty body is stored as the list.
\<close>

lemma unchanged_list_is_emptied:
  assumes "origin (conditions (list_path lc c url) fs) = Answered 304 hs ([], False)"
  shows "\<exists>fs'. fetch lc quiet True c origin url fs = (Some [], fs') \<and> fs' (list_path lc c url) = Some []"
proof -
  have "write_validators quiet (meta_path p) v (fs(p \<mapsto> as_bytes [])) p = Some []" if "p \<noteq> meta_path p" for p v
    using that by (simp add: write_validators_other)
  with assms meta_not_list [symmetric] show ?thesis
    by (simp add: fetch_def store_list_def read_limited_def Let_def MAX_LIST_BYTES_def as_bytes_def)
qed

end
