(* ===== verification/Upstream.thy ===== *)
theory Upstream
  imports Interstitial Insecure Httpcache Encoding Interceptor Body
begin

text \<open>
  \<open>src/proxy/src/upstream.rs\<close>: the request sent to the origin, the loop guard, the lookup in the
  origin cache and its revalidation, and how a response is taken in. \<open>ureq\<close> is a parameter: the
  origin's answer to what is sent, as its status, its header lines and its body. \<open>set\<close> on a
  \<open>ureq\<close> request replaces a header, except one whose name begins \<open>x-\<close>, which it pushes; so the
  source says and relies on. SHA-256, the coder of cache entries, the file system's answers and the
  readings of the clock come in one record.
\<close>

section \<open>The loop guard\<close>

definition VIA :: str where "VIA = ''x-mach5-via''"

definition is_own_request :: "str \<Rightarrow> headers \<Rightarrow> bool" where
  \<comment> \<open>\<open>via\<close> is this process's \<open>via_id()\<close>\<close>
  "is_own_request via hs \<longleftrightarrow> list_ex (\<lambda>(name, v). eq_ci name VIA \<and> v = via) hs"

definition loop_guard :: "str \<Rightarrow> 'w hooks" where
  "loop_guard via = default_hooks\<lparr>
     on_request_hook := \<lambda>req w.
       (if is_own_request via (rq_headers req) then Some (fetch_loop (host_of (rq_url req))) else None, req, w),
     wants_body_hook := \<lambda>req head w. False\<rparr>"

section \<open>Headers\<close>

definition is_hop_by_hop :: "str \<Rightarrow> bool" where
  "is_hop_by_hop name \<longleftrightarrow>
     to_lower name \<in> set [''connection'', ''keep-alive'', ''proxy-authenticate'', ''proxy-authorization'',
       ''te'', ''trailer'', ''transfer-encoding'', ''upgrade'', ''content-length'']"

definition forwarded :: "str \<Rightarrow> str \<Rightarrow> bool" where
  "forwarded name v =
     (if eq_ci name ''accept-encoding'' then False
      else if eq_ci name VIA then False
      else \<not> (eq_ci name ''expect'' \<and> eq_ci (trim v) ''100-continue''))"

definition conditional :: "str \<Rightarrow> bool" where
  "conditional name \<longleftrightarrow>
     to_lower name \<in> set [''if-none-match'', ''if-modified-since'', ''if-match'', ''if-unmodified-since'', ''if-range'']"

fun join_line :: "str \<times> str \<Rightarrow> str list \<times> (str \<rightharpoonup> str \<times> str) \<Rightarrow> str list \<times> (str \<rightharpoonup> str \<times> str)" where
  \<comment> \<open>one step of the loop of \<open>joined_for_upstream\<close>: the order of first sight and the lines so far\<close>
  "join_line (name, v) (order, held) =
     (let k = to_lower name in
      case held k of
        Some (n, h) \<Rightarrow> (order, held(k \<mapsto> (n, h @ (if k = ''cookie'' then ''; '' else '', '') @ v)))
      | None \<Rightarrow> (order @ [k], held(k \<mapsto> (name, v))))"

definition joined_for_upstream :: "headers \<Rightarrow> headers" where
  \<comment> \<open>removing each line as it is handed out changes nothing: the keys are all different\<close>
  "joined_for_upstream hs = (let (order, held) = fold join_line hs ([], Map.empty) in List.map_filter held order)"

definition set_header :: "str \<Rightarrow> str \<Rightarrow> headers \<Rightarrow> headers" where
  \<comment> \<open>\<open>ureq::Request::set\<close>\<close>
  "set_header name v hs = (if starts_with (to_lower name) ''x-'' then hs else without name hs) @ [(name, v)]"

definition relayed :: "bool \<Rightarrow> headers \<Rightarrow> headers" where
  \<comment> \<open>the loop of \<open>call\<close> over the client's headers\<close>
  "relayed revalidating hs =
     fold (\<lambda>(name, v) out.
         if \<not> forwarded name v then out
         else if revalidating \<and> conditional name then out
         else set_header name v out)
       (joined_for_upstream hs) []"

section \<open>Agents\<close>

record agents =
  ag_bypasses :: bypasses
  ag_cache :: "origin_cache option"
  ag_metrics :: metrics

definition for_host :: "str \<Rightarrow> nat \<Rightarrow> agents \<Rightarrow> bool \<times> agents" where
  \<comment> \<open>whether the agent is the permissive one\<close>
  "for_host host now ag =
     (let (ok, b) = allows host now (ag_bypasses ag); ag = ag\<lparr>ag_bypasses := b\<rparr> in
      if \<not> ok then (False, ag)
      else (True, ag\<lparr>ag_metrics := (ag_metrics ag)\<lparr>bypassed := increment (bypassed (ag_metrics ag))\<rparr>\<rparr>))"

datatype fetch_error = Tls str | Other_failure str

definition is_tls_failure :: "str \<Rightarrow> bool" where
  "is_tls_failure message =
     (let message = to_lower message in
      contains message ''invalid peer certificate'' \<or> contains message ''certificate expired''
      \<or> contains message ''unknownissuer'' \<or> contains message ''notvalidforname''
      \<or> contains message ''certificate not valid'' \<or> contains message ''tls connection init failed''
      \<or> contains message ''certificate verify failed'')"

definition failure :: "metrics \<Rightarrow> str \<Rightarrow> fetch_error \<times> metrics" where
  "failure m message =
     (if is_tls_failure message then (Tls message, m\<lparr>tls_failures := increment (tls_failures m)\<rparr>)
      else (Other_failure message, m\<lparr>upstream_failures := increment (upstream_failures m)\<rparr>))"

section \<open>What an origin sends back\<close>

record origin_response =
  or_status :: nat
  or_lines :: headers
  or_body :: "bytes \<times> bool"
    \<comment> \<open>its bytes, and whether reading fails after the last of them\<close>

fun first_names :: "str list \<Rightarrow> str list \<Rightarrow> str list" where
  \<comment> \<open>the names not seen before, in order\<close>
  "first_names seen [] = []"
| "first_names seen (n # ns) =
     (if is_hop_by_hop n \<or> n \<in> set seen then first_names seen ns
      else n # first_names (n # seen) ns)"

definition response_headers :: "headers \<Rightarrow> headers" where
  \<comment> \<open>\<open>headers_names\<close> gives one lower-case name per line, \<open>all\<close> every value of a name\<close>
  "response_headers ls =
     concat (map (\<lambda>name. map (\<lambda>(n, v). (name, v)) (filter (\<lambda>(n, v). eq_ci n name) ls))
       (first_names [] (map (\<lambda>(n, v). to_lower n) ls)))"

definition declared_length :: "headers \<Rightarrow> nat option" where
  "declared_length ls = Option.bind (header ls ''content-length'') (\<lambda>v. parse_u64 (trim v))"

datatype buffered = Whole bytes | TooBig bytes | Truncated

definition read_body :: "bytes \<times> bool \<Rightarrow> nat \<Rightarrow> buffered" where
  "read_body body limit =
     (case read_limited (min (limit + 1) u64_max) body of
        None \<Rightarrow> Truncated
      | Some b \<Rightarrow> if length b > limit then TooBig b else Whole b)"

definition TRUNCATED :: str where
  "TRUNCATED = ''mach5: the origin closed the connection part-way through its response'' @ [newline]"

section \<open>The cache\<close>

record outer =
  sha :: "bytes \<Rightarrow> bytes"
  encode_entry :: "entry \<Rightarrow> bytes option"
  decode_entry :: "bytes \<Rightarrow> entry option"
  disk_io :: io
  looked_up_at :: nat
  served_at :: nat
  stored_when :: nat
  dialled_at :: nat
    \<comment> \<open>nanoseconds; the other readings are seconds\<close>

datatype cached_answer = Fresh proxy_response | Stale entry bytes

definition count_miss :: "agents \<Rightarrow> agents" where
  "count_miss ag = ag\<lparr>ag_metrics := (ag_metrics ag)\<lparr>origin_cache_misses := increment (origin_cache_misses (ag_metrics ag))\<rparr>\<rparr>"

definition lookup :: "outer \<Rightarrow> proxy_request \<Rightarrow> agents \<Rightarrow> cached_answer option \<times> agents" where
  "lookup env req ag =
     (case ag_cache ag of
        None \<Rightarrow> (None, ag)
      | Some cache \<Rightarrow>
          if \<not> eq_ci (rq_method req) ''GET'' then (None, ag)
          else if carries_credentials req then (None, ag)
          else if client_wants req = NotEvenStored then (None, ag)
          else (case Httpcache.get (decode_entry env) (Httpcache.key (sha env) req) cache of
                  None \<Rightarrow> (None, count_miss ag)
                | Some (e, body) \<Rightarrow>
                    if is_fresh (looked_up_at env) e \<and> client_wants req = Anything then
                      (Some (Fresh (as_response (served_at env) e body)),
                       ag\<lparr>ag_metrics := (ag_metrics ag)\<lparr>
                         origin_cache_hits := increment (origin_cache_hits (ag_metrics ag)),
                         bytes_saved_by_origin_cache := add_count (length body) (bytes_saved_by_origin_cache (ag_metrics ag))\<rparr>\<rparr>)
                    else if can_revalidate e then (Some (Stale e body), ag)
                    else (None, count_miss ag)))"

definition should_store :: "config \<Rightarrow> proxy_request \<Rightarrow> nat \<Rightarrow> headers \<Rightarrow> nat option \<Rightarrow> agents \<Rightarrow> bool" where
  "should_store c req status hs declared ag =
     (if ag_cache ag = None \<or> \<not> eligible req status hs then False
      else (case declared of
              None \<Rightarrow> False
            | Some len \<Rightarrow> len \<le> max_cacheable_mb (images_section c) * 1024 * 1024))"

definition store :: "outer \<Rightarrow> proxy_request \<Rightarrow> nat \<Rightarrow> headers \<Rightarrow> bytes \<Rightarrow> agents \<Rightarrow> agents" where
  "store env req status hs body ag =
     (case ag_cache ag of
        None \<Rightarrow> ag
      | Some cache \<Rightarrow>
          if \<not> eligible req status hs then ag
          else ag\<lparr>ag_cache := Some (Httpcache.put (encode_entry env) (disk_io env) (Httpcache.key (sha env) req)
                 (entry_for status hs (stored_when env)) body cache)\<rparr>)"

section \<open>A fetch\<close>

datatype payload = No_payload | Payload bytes | Upload reader

record sent_request =
  st_permissive :: bool
  st_method :: str
  st_url :: str
  st_headers :: headers
  st_payload :: payload

datatype fetched = Live origin_response | Stored proxy_response

definition validators_of :: "cached_answer option \<Rightarrow> headers \<Rightarrow> headers" where
  \<comment> \<open>the conditions put on a request that asks about a stale entry\<close>
  "validators_of cached hs =
     (case cached of
        Some (Stale e body) \<Rightarrow>
          (let hs = (case en_etag e of Some t \<Rightarrow> set_header ''if-none-match'' t hs | None \<Rightarrow> hs)
           in case en_last_modified e of Some t \<Rightarrow> set_header ''if-modified-since'' t hs | None \<Rightarrow> hs)
      | _ \<Rightarrow> hs)"

definition outgoing :: "str \<Rightarrow> bool \<Rightarrow> cached_answer option \<Rightarrow> proxy_request \<Rightarrow> request_body \<Rightarrow> sent_request" where
  "outgoing via permissive cached req body =
     (let revalidating = (case cached of Some (Stale e b) \<Rightarrow> True | _ \<Rightarrow> False);
          hs = relayed revalidating (rq_headers req);
          hs = set_header ''accept-encoding'' (negotiate (rq_headers req)) hs;
          hs = set_header VIA via hs;
          hs = validators_of cached hs;
          (hs, p) = (case body of
              Streaming r len \<Rightarrow>
                (case len of Some n \<Rightarrow> set_header ''content-length'' (show_nat n) hs | None \<Rightarrow> hs, Upload r)
            | NoBody \<Rightarrow> (hs, if rq_body req \<noteq> [] then Payload (rq_body req) else No_payload))
      in \<lparr>st_permissive = permissive, st_method = rq_method req, st_url = rq_url req, st_headers = hs, st_payload = p\<rparr>)"

definition confirm :: "outer \<Rightarrow> proxy_request \<Rightarrow> entry \<Rightarrow> bytes \<Rightarrow> headers \<Rightarrow> agents \<Rightarrow> fetched \<times> agents" where
  \<comment> \<open>what \<open>call\<close> does when the origin says nothing has changed\<close>
  "confirm env req e body ls ag =
     (let hs = refreshed_headers (en_headers e) (response_headers ls);
          k = Httpcache.key (sha env) req;
          ag = (case ag_cache ag of
                  None \<Rightarrow> ag
                | Some cache \<Rightarrow>
                    ag\<lparr>ag_metrics := (ag_metrics ag)\<lparr>
                         origin_cache_revalidated := increment (origin_cache_revalidated (ag_metrics ag)),
                         bytes_saved_by_origin_cache := add_count (length body) (bytes_saved_by_origin_cache (ag_metrics ag))\<rparr>,
                       ag_cache := Some (
                         if eligible req (en_status e) hs
                         then Httpcache.put (encode_entry env) (disk_io env) k (entry_for (en_status e) hs (stored_when env)) body cache
                         else forget (disk_io env) k cache)\<rparr>)
      in (Stored (as_response (served_at env) (e\<lparr>en_headers := hs\<rparr>) body), ag))"

definition call :: "outer \<Rightarrow> str \<Rightarrow> (sent_request \<Rightarrow> str + origin_response) \<Rightarrow> proxy_request \<Rightarrow> request_body \<Rightarrow> agents \<Rightarrow>
    (fetch_error + fetched) \<times> agents" where
  "call env via origin req body ag =
     (let (cached, ag) = (if body = NoBody \<and> rq_body req = [] then lookup env req ag else (None, ag)) in
      case cached of
        Some (Fresh response) \<Rightarrow> (Inr (Stored response), ag)
      | _ \<Rightarrow>
          (let (permissive, ag) = for_host (host_of (rq_url req)) (dialled_at env) ag in
           case origin (outgoing via permissive cached req body) of
             Inl message \<Rightarrow>
               (let (e, m) = failure (ag_metrics ag) message in (Inl e, ag\<lparr>ag_metrics := m\<rparr>))
           | Inr resp \<Rightarrow>
               (case cached of
                  Some (Stale e b) \<Rightarrow>
                    if or_status resp = 304
                    then (let (f, ag) = confirm env req e b (or_lines resp) ag in (Inr f, ag))
                    else (Inr (Live resp), ag)
                | _ \<Rightarrow> (Inr (Live resp), ag))))"

section \<open>Reporting\<close>

definition MAX_REPORTED :: nat where "MAX_REPORTED = 500"

definition first_sighting :: "str \<Rightarrow> str list \<Rightarrow> bool \<times> str list" where
  \<comment> \<open>the set of hosts reported, newest first\<close>
  "first_sighting host reported =
     (if length reported \<ge> MAX_REPORTED then (False, reported)
      else if host \<in> set reported then (False, reported)
      else (True, host # reported))"

section \<open>What the origin is asked\<close>

definition separator :: "str \<Rightarrow> str" where
  "separator name = (if to_lower name = ''cookie'' then ''; '' else '', '')"

lemma separator_lower [simp]: "separator (to_lower n) = separator n"
  by (simp add: separator_def)

lemma field_lines_snoc:
  "field_lines (hs @ [(n, v)]) k = field_lines hs k @ (if eq_ci n k then [v] else [])"
  by (simp add: field_lines_def)

lemma join_snoc: "xs \<noteq> [] \<Longrightarrow> join sep (xs @ [y]) = join sep xs @ sep @ y"
  by (induction xs) (auto simp: join_Cons)

lemma eq_ci_lower: "eq_ci n k \<longleftrightarrow> to_lower n = to_lower k"
  by (simp add: eq_ci_def)

lemma join_line_fold:
  assumes "fold join_line hs ([], Map.empty) = (order, held)"
  shows "distinct order \<and> set order = dom held
    \<and> (\<forall>k n h. held k = Some (n, h) \<longrightarrow> to_lower n = k \<and> field_lines hs k \<noteq> [] \<and> h = join (separator k) (field_lines hs k))
    \<and> (\<forall>k. held (to_lower k) = None \<longrightarrow> field_lines hs k = [])"
  using assms
proof (induction hs arbitrary: order held rule: rev_induct)
  case Nil
  then show ?case by (auto simp: field_lines_def)
next
  case (snoc x hs)
  obtain n v where x: "x = (n, v)" by force
  obtain o1 h1 where f: "fold join_line hs ([], Map.empty) = (o1, h1)" by force
  note IH = snoc.IH [OF f]
  show ?case
  proof (cases "h1 (to_lower n)")
    case None
    then have new: "order = o1 @ [to_lower n]" "held = h1(to_lower n \<mapsto> (n, v))"
      using snoc.prems f x by (auto simp: Let_def)
    have "field_lines hs n = []" using IH None by blast
    then have e: "field_lines hs (to_lower n) = []" by (simp add: field_lines_def)
    show ?thesis
    proof (intro conjI allI impI)
      show "distinct order" "set order = dom held" using IH None new by auto
    next
      fix k m h assume k: "held k = Some (m, h)"
      show "to_lower m = k" using k IH new by (auto split: if_splits)
      show "field_lines (hs @ [x]) k \<noteq> []"
        using k IH new by (auto simp: x field_lines_snoc split: if_splits)
      from k new have "k = to_lower n \<or> h1 k = Some (m, h)" by (auto split: if_splits)
      then have "to_lower k = k" using IH by (metis to_lower_idem)
      then show "h = join (separator k) (field_lines (hs @ [x]) k)"
        using k IH new e by (auto simp: x field_lines_snoc eq_ci_lower split: if_splits)
    next
      fix k assume "held (to_lower k) = None"
      then show "field_lines (hs @ [x]) k = []"
        using IH new by (auto simp: x field_lines_snoc eq_ci_lower split: if_splits)
    qed
  next
    case (Some p)
    obtain m0 h0 where p: "p = (m0, h0)" by force
    then have new: "order = o1" "held = h1(to_lower n \<mapsto> (m0, h0 @ separator n @ v))"
      using snoc.prems f x Some by (auto simp: Let_def separator_def)
    from IH Some p have "to_lower m0 = to_lower n \<and> field_lines hs (to_lower n) \<noteq> []
        \<and> h0 = join (separator (to_lower n)) (field_lines hs (to_lower n))" by blast
    then have old: "to_lower m0 = to_lower n" "field_lines hs (to_lower n) \<noteq> []"
      "h0 = join (separator n) (field_lines hs (to_lower n))" by simp_all
    show ?thesis
    proof (intro conjI allI impI)
      show "distinct order" "set order = dom held" using IH Some new by auto
    next
      fix k m h assume k: "held k = Some (m, h)"
      show "to_lower m = k" using k IH new old(1) by (auto split: if_splits)
      show "field_lines (hs @ [x]) k \<noteq> []"
        using k IH new old(2) by (auto simp: x field_lines_snoc split: if_splits)
      show "h = join (separator k) (field_lines (hs @ [x]) k)"
      proof (cases "k = to_lower n")
        case True
        with k new old show ?thesis by (simp add: x field_lines_snoc join_snoc)
      next
        case False
        with k new have "h1 k = Some (m, h)" by simp
        with IH have "to_lower k = k" "h = join (separator k) (field_lines hs k)" by (metis to_lower_idem)+
        with False show ?thesis by (simp add: x field_lines_snoc eq_ci_lower)
      qed
    next
      fix k assume "held (to_lower k) = None"
      then show "field_lines (hs @ [x]) k = []"
        using IH new by (auto simp: x field_lines_snoc eq_ci_lower split: if_splits)
    qed
  qed
qed

definition distinct_names :: "headers \<Rightarrow> bool" where
  "distinct_names hs \<longleftrightarrow> distinct (map (\<lambda>(n, v). to_lower n) hs)"

lemma header_distinct:
  "distinct_names hs \<Longrightarrow> header hs name = Some v \<longleftrightarrow> (\<exists>n. (n, v) \<in> set hs \<and> eq_ci n name)"
proof (induction hs)
  case (Cons x hs)
  obtain m w where x: "x = (m, w)" by force
  have "eq_ci m name \<Longrightarrow> \<not> (\<exists>n. (n, v) \<in> set hs \<and> eq_ci n name)"
    using Cons.prems by (force simp: x distinct_names_def eq_ci_def)
  with Cons show ?case by (auto simp: x distinct_names_def)
qed simp

lemma joined_headers:
  "distinct_names (joined_for_upstream hs)"
  "header (joined_for_upstream hs) name =
     (if field_lines hs name = [] then None else Some (join (separator name) (field_lines hs name)))"
proof -
  obtain order held where f: "fold join_line hs ([], Map.empty) = (order, held)" by force
  note inv = join_line_fold [OF f]
  have m: "joined_for_upstream hs = map (\<lambda>k. the (held k)) order"
  proof -
    have "List.map_filter held ks = map (\<lambda>k. the (held k)) ks" if "set ks \<subseteq> dom held" for ks
      using that by (induction ks) (auto simp: List.map_filter_simps)
    with f inv show ?thesis by (simp add: joined_for_upstream_def)
  qed
  have "map (\<lambda>(n, v). to_lower n) (map (\<lambda>k. the (held k)) ks) = ks" if "set ks \<subseteq> dom held" for ks
    using that inv by (induction ks) force+
  with inv have "map (\<lambda>(n, v). to_lower n) (joined_for_upstream hs) = order" unfolding m by blast
  with inv show d: "distinct_names (joined_for_upstream hs)" by (simp add: distinct_names_def)
  have fl: "field_lines hs (to_lower name) = field_lines hs name" by (simp add: field_lines_def)
  show "header (joined_for_upstream hs) name =
     (if field_lines hs name = [] then None else Some (join (separator name) (field_lines hs name)))"
  proof (cases "held (to_lower name)")
    case None
    then have "field_lines hs name = []" using inv by blast
    moreover have "header (joined_for_upstream hs) name = None"
    proof (rule ccontr)
      assume "header (joined_for_upstream hs) name \<noteq> None"
      then obtain v where "header (joined_for_upstream hs) name = Some v" by blast
      then obtain n where "(n, v) \<in> set (joined_for_upstream hs)" "eq_ci n name" using header_distinct [OF d] by blast
      then obtain k where "k \<in> set order" "the (held k) = (n, v)" unfolding m by force
      with inv have "held (to_lower n) = Some (n, v)" by auto
      with \<open>eq_ci n name\<close> None show False by (simp add: eq_ci_def)
    qed
    ultimately show ?thesis by simp
  next
    case (Some p)
    obtain n v where p: "p = (n, v)" by force
    with Some inv have "to_lower n = to_lower name \<and> field_lines hs (to_lower name) \<noteq> []
        \<and> v = join (separator (to_lower name)) (field_lines hs (to_lower name))" by blast
    then have nv: "to_lower n = to_lower name" "v = join (separator name) (field_lines hs name)"
      "field_lines hs name \<noteq> []" by (simp_all add: fl)
    have "(n, v) \<in> set (joined_for_upstream hs)" unfolding m using inv Some p by force
    with nv header_distinct [OF d, of name v] show ?thesis by (auto simp: eq_ci_def)
  qed
qed

lemma without_absent: "header hs name = None \<Longrightarrow> without name hs = hs"
  by (auto simp: without_def header_None_iff filter_id_conv)

lemma set_header_fresh: "header hs name = None \<Longrightarrow> set_header name v hs = hs @ [(name, v)]"
  by (simp add: set_header_def without_absent)

lemma relayed_eq:
  "relayed asking hs = filter (\<lambda>(n, v). forwarded n v \<and> \<not> (asking \<and> conditional n)) (joined_for_upstream hs)"
proof -
  let ?keep = "\<lambda>(n, v). forwarded n v \<and> \<not> (asking \<and> conditional n)"
  have "distinct_names (out @ ls) \<Longrightarrow>
    fold (\<lambda>(name, v) out. if \<not> forwarded name v then out else if asking \<and> conditional name then out else set_header name v out) ls out
      = out @ filter ?keep ls" for ls out
  proof (induction ls arbitrary: out)
    case (Cons x ls)
    obtain n v where x: "x = (n, v)" by force
    have "header out n = None"
      using Cons.prems by (force simp: x distinct_names_def header_None_iff eq_ci_def)
    moreover have "distinct_names (out @ ls)" "distinct_names ((out @ [(n, v)]) @ ls)"
      using Cons.prems by (auto simp: x distinct_names_def)
    ultimately show ?case using Cons.IH by (simp add: x set_header_fresh)
  qed simp
  from this [of "[]"] joined_headers(1) show ?thesis by (simp add: relayed_def)
qed

lemma distinct_names_filter: "distinct_names hs \<Longrightarrow> distinct_names (filter P hs)"
  by (induction hs) (auto simp: distinct_names_def)

definition plain_name :: "str \<Rightarrow> bool" where
  \<comment> \<open>a name \<open>set\<close> replaces\<close>
  "plain_name n \<longleftrightarrow> \<not> starts_with (to_lower n) ''x-''"

lemma set_header_distinct:
  assumes "distinct_names hs" and "plain_name name \<or> header hs name = None"
  shows "distinct_names (set_header name v hs)"
proof -
  have "distinct_names (without name hs @ [(name, v)])"
    using distinct_names_filter [OF assms(1), of "\<lambda>(n, v). \<not> eq_ci n name"]
    by (auto simp: distinct_names_def without_def eq_ci_def)
  with assms show ?thesis by (auto simp: set_header_def without_absent plain_name_def)
qed

lemma header_set_same: "plain_name name \<or> header hs name = None \<Longrightarrow> header (set_header name v hs) name = Some v"
  by (auto simp: set_header_def header_append without_absent plain_name_def)

lemma header_set_other: "\<not> eq_ci name other \<Longrightarrow> header (set_header name v hs) other = header hs other"
  by (auto simp: set_header_def header_append header_without_other split: option.splits)

lemma header_filter_keep: "(\<And>n v. eq_ci n name \<Longrightarrow> P (n, v)) \<Longrightarrow> header (filter P hs) name = header hs name"
  by (induction hs) auto

definition stale :: "cached_answer option \<Rightarrow> bool" where
  "stale cached \<longleftrightarrow> (case cached of Some (Stale e b) \<Rightarrow> True | _ \<Rightarrow> False)"

definition marked :: "str \<Rightarrow> cached_answer option \<Rightarrow> headers \<Rightarrow> headers" where
  \<comment> \<open>the headers of a request before a body is attached\<close>
  "marked via cached hs = validators_of cached
     (set_header VIA via (set_header ''accept-encoding'' (negotiate hs) (relayed (stale cached) hs)))"

lemma outgoing_headers:
  "st_headers (outgoing via p cached req body) =
     (case body of Streaming r (Some n) \<Rightarrow> set_header ''content-length'' (show_nat n) (marked via cached (rq_headers req))
      | _ \<Rightarrow> marked via cached (rq_headers req))"
  by (simp add: outgoing_def marked_def stale_def Let_def split: request_body.splits option.splits)

lemma relayed_drops:
  "eq_ci name VIA \<or> eq_ci name ''accept-encoding'' \<or> asking \<and> conditional name \<Longrightarrow> header (relayed asking hs) name = None"
  unfolding relayed_eq header_None_iff
  by (auto simp: forwarded_def conditional_def eq_ci_def)

lemma relayed_keeps:
  assumes "\<not> eq_ci name VIA" and "\<not> eq_ci name ''accept-encoding''" and "\<not> eq_ci name ''expect''"
    and "\<not> (asking \<and> conditional name)"
  shows "header (relayed asking hs) name = header (joined_for_upstream hs) name"
proof -
  have keep: "forwarded n v \<and> \<not> (asking \<and> conditional n)" if "eq_ci n name" for n v
    using that assms by (auto simp: forwarded_def conditional_def eq_ci_def)
  then show ?thesis unfolding relayed_eq by (intro header_filter_keep) auto
qed

lemma names_apart:
  "\<not> eq_ci ''accept-encoding'' VIA" "\<not> eq_ci VIA ''accept-encoding''"
  "\<not> eq_ci ''if-none-match'' VIA" "\<not> eq_ci ''if-modified-since'' VIA" "\<not> eq_ci ''content-length'' VIA"
  "\<not> eq_ci ''if-none-match'' ''accept-encoding''" "\<not> eq_ci ''if-modified-since'' ''accept-encoding''"
  "\<not> eq_ci ''content-length'' ''accept-encoding''"
  "plain_name ''accept-encoding''" "plain_name ''if-none-match''" "plain_name ''if-modified-since''" "plain_name ''content-length''"
  by code_simp+

lemma marked_distinct: "distinct_names (marked via cached hs)"
proof -
  have "distinct_names (relayed (stale cached) hs)"
    unfolding relayed_eq by (rule distinct_names_filter [OF joined_headers(1)])
  moreover have "header (relayed (stale cached) hs) VIA = None" by (simp add: relayed_drops)
  ultimately have "distinct_names (set_header VIA via (set_header ''accept-encoding'' (negotiate hs) (relayed (stale cached) hs)))"
    by (intro set_header_distinct) (simp_all add: names_apart header_set_other)
  then show ?thesis
    unfolding marked_def
    by (auto simp: validators_of_def Let_def names_apart intro!: set_header_distinct split: option.splits cached_answer.splits)
qed

lemma validators_other:
  assumes "\<not> conditional name"
  shows "header (validators_of cached hs) name = header hs name"
proof -
  have "to_lower ''if-none-match'' = ''if-none-match''" "to_lower ''if-modified-since'' = ''if-modified-since''" by code_simp+
  with assms have "\<not> eq_ci ''if-none-match'' name" "\<not> eq_ci ''if-modified-since'' name"
    by (auto simp: conditional_def eq_ci_def)
  then show ?thesis
    by (simp add: validators_of_def header_set_other Let_def split: option.splits cached_answer.splits)
qed

lemma not_conditional: "\<not> conditional VIA" "\<not> conditional ''accept-encoding''"
  by code_simp+

lemma marked_own:
  "header (marked via cached hs) VIA = Some via" "header (marked via cached hs) ''accept-encoding'' = Some (negotiate hs)"
  unfolding marked_def
  by (simp_all add: validators_other not_conditional header_set_same header_set_other names_apart relayed_drops)

lemma own_request: "header hs VIA = Some via \<Longrightarrow> is_own_request via hs"
  by (induction hs) (auto simp: is_own_request_def split: if_splits)

text \<open>
  What goes to the origin carries each header once, whatever the client repeated: the proxy's own
  mark and no other, and the codings it negotiated and no other, so that the next lap of a loop is
  recognised and every answer can be decoded.
\<close>

theorem origin_is_asked_once:
  "distinct_names (st_headers (outgoing via p cached req body))
   \<and> header (st_headers (outgoing via p cached req body)) VIA = Some via
   \<and> header (st_headers (outgoing via p cached req body)) ''accept-encoding'' = Some (negotiate (rq_headers req))"
  by (auto simp: outgoing_headers marked_distinct marked_own names_apart header_set_other
      intro!: set_header_distinct split: request_body.splits option.splits)

text \<open>
  Nothing the client said is lost on the way to the origin: a header it sent on several lines arrives
  as one, every value in its order, cookies joined the way cookies are.
\<close>

theorem client_headers_arrive:
  assumes "\<not> eq_ci name VIA" and "\<not> eq_ci name ''accept-encoding''" and "\<not> eq_ci name ''expect''"
    and "\<not> eq_ci name ''content-length''" and "\<not> conditional name"
  shows "header (st_headers (outgoing via p cached req body)) name =
    (if field_lines (rq_headers req) name = [] then None
     else Some (join (if eq_ci name ''cookie'' then ''; '' else '', '') (field_lines (rq_headers req) name)))"
proof -
  have "header (marked via cached (rq_headers req)) name = header (joined_for_upstream (rq_headers req)) name"
    using assms unfolding marked_def
    by (simp add: validators_other header_set_other relayed_keeps eq_ci_sym [of _ name])
  moreover have "to_lower ''cookie'' = ''cookie''" by code_simp
  ultimately show ?thesis
    using assms(4)
    by (auto simp: outgoing_headers joined_headers(2) separator_def header_set_other eq_ci_sym [of _ name] eq_ci_def
        split: request_body.splits option.splits)
qed

theorem client_headers_arrive_witness:
  "header (st_headers (outgoing ''1a'' False None
      (simple_request\<lparr>rq_headers := [(''Cookie'', ''a=1''), (''accept'', ''*/*''), (''cookie'', ''b=2'')]\<rparr>) NoBody)) ''cookie''
    = Some ''a=1; b=2''"
proof -
  let ?req = "simple_request\<lparr>rq_headers := [(''Cookie'', ''a=1''), (''accept'', ''*/*''), (''cookie'', ''b=2'')]\<rparr>"
  have "\<not> eq_ci ''cookie'' VIA" "\<not> eq_ci ''cookie'' ''accept-encoding''" "\<not> eq_ci ''cookie'' ''expect''"
    "\<not> eq_ci ''cookie'' ''content-length''" "\<not> conditional ''cookie''" by code_simp+
  note c = client_headers_arrive [OF this, of "''1a''" False None ?req NoBody]
  have "field_lines (rq_headers ?req) ''cookie'' = [''a=1'', ''b=2'']" by code_simp
  with c show ?thesis by simp
qed

text \<open>
  A request that asks the origin about a stored copy carries the validators of that copy and none
  of the client's, so a 304 answers the proxy's question.
\<close>

theorem revalidation_asks_our_question:
  assumes "conditional name"
  shows "header (st_headers (outgoing via p (Some (Stale e b)) req NoBody)) name =
    (if eq_ci name ''if-none-match'' then en_etag e
     else if eq_ci name ''if-modified-since'' then en_last_modified e else None)"
proof -
  have n: "\<not> eq_ci ''accept-encoding'' name" "\<not> eq_ci VIA name"
    using assms names_apart not_conditional by (auto simp: conditional_def eq_ci_def)
  have s: "\<not> eq_ci ''if-none-match'' ''if-modified-since''" "\<not> eq_ci ''if-modified-since'' ''if-none-match''" by code_simp+
  have r: "header (relayed True hs) name = None" for hs using assms by (simp add: relayed_drops)
  have cond: "header (set_header m v hs) name = (if eq_ci name m then Some v else header hs name)"
    if "plain_name m" for m v hs
    using that header_eq_ci [of name m] by (auto simp: header_set_same header_set_other eq_ci_sym [of m])
  show ?thesis
    using s eq_ci_trans [of name] eq_ci_trans [of "''if-none-match''" name] eq_ci_sym [of name]
    by (auto simp: outgoing_headers marked_def stale_def validators_of_def Let_def cond names_apart n r header_set_other
        split: option.splits)
qed

theorem revalidation_asks_our_question_witness:
  "header (st_headers (outgoing ''1a'' False
      (Some (Stale \<lparr>en_status = 200, en_headers = [], fresh_until = 0, stored_at = 0, en_etag = Some ''x'', en_last_modified = None\<rparr> []))
      (simple_request\<lparr>rq_headers := [(''If-None-Match'', ''*'')]\<rparr>) NoBody)) ''if-none-match'' = Some ''x''"
proof -
  have "conditional ''if-none-match''" by code_simp
  from revalidation_asks_our_question [OF this, of "''1a''" False] show ?thesis by simp
qed

section \<open>A loop is cut on its second lap\<close>

lemma own_mark: "\<exists>n. (n, via) \<in> set (st_headers (outgoing via p cached req body)) \<and> eq_ci n VIA"
proof -
  have "header (st_headers (outgoing via p cached req body)) VIA = Some via"
    by (auto simp: outgoing_headers marked_own names_apart header_set_other split: request_body.splits option.splits)
  from header_Some_in [OF this] show ?thesis .
qed

text \<open>
  A request this process sent, coming back to it by whatever way keeps its mark, is answered by the
  chain of any configuration with the page that names the host, before any other link is asked.
\<close>

theorem loop_is_cut:
  assumes "\<forall>n. (n, via) \<in> set (st_headers (outgoing via p cached req body)) \<longrightarrow>
      (\<exists>m. (m, via) \<in> set (rq_headers again) \<and> eq_ci m n)"
    and "hooks_of LoopGuard = loop_guard via"
  shows "Interceptor.on_request (map hooks_of (from_config c plugins)) again w
    = (Some (fetch_loop (host_of (rq_url again))), again, w)"
proof -
  have "is_own_request via (rq_headers again)"
    using assms(1) own_mark [of via p cached req body] eq_ci_trans by (auto simp: is_own_request_def list_ex_iff) blast
  moreover obtain ls where "from_config c plugins = LoopGuard # ls" by (auto simp: from_config_def)
  ultimately show ?thesis
    using assms(2) by (simp add: Interceptor.on_request_def on_request_from_def loop_guard_def default_hooks_def)
qed

theorem loop_is_cut_witness:
  "Interceptor.on_request (map (\<lambda>l. loop_guard ''1a'') (from_config (default_config bare) 0))
     (simple_request\<lparr>rq_headers := st_headers (outgoing ''1a'' False None simple_request NoBody)\<rparr>) ()
   = (Some (fetch_loop (host_of (rq_url simple_request))),
      simple_request\<lparr>rq_headers := st_headers (outgoing ''1a'' False None simple_request NoBody)\<rparr>, ())"
proof -
  let ?hs = "st_headers (outgoing ''1a'' False None simple_request NoBody)"
  have "\<forall>n. (n, ''1a'') \<in> set ?hs \<longrightarrow>
      (\<exists>m. (m, ''1a'') \<in> set (rq_headers (simple_request\<lparr>rq_headers := ?hs\<rparr>)) \<and> eq_ci m n)"
    using eq_ci_refl by auto
  from loop_is_cut [OF this, of "\<lambda>l. loop_guard ''1a''"] show ?thesis by simp
qed

section \<open>What comes back\<close>

lemma first_names_spec:
  "set (first_names seen ns) = {n \<in> set ns. \<not> is_hop_by_hop n \<and> n \<notin> set seen} \<and> distinct (first_names seen ns)"
  by (induction seen ns rule: first_names.induct) auto

lemma field_lines_append: "field_lines (a @ b) name = field_lines a name @ field_lines b name"
  by (simp add: field_lines_def)

lemma field_lines_block:
  "to_lower n = n \<Longrightarrow> field_lines (map (\<lambda>(m, v). (n, v)) ls) name = (if n = to_lower name then map snd ls else [])"
  by (induction ls) (auto simp: field_lines_def eq_ci_def)

text \<open>
  Every line the origin sent arrives, in its order, two cookies as two cookies; only what is
  meaningful on the one connection to the origin stays behind.
\<close>

theorem every_line_is_relayed:
  "field_lines (response_headers ls) name = (if is_hop_by_hop name then [] else field_lines ls name)"
proof -
  let ?names = "first_names [] (map (\<lambda>(n, v). to_lower n) ls)"
  let ?block = "\<lambda>n. map (\<lambda>(m, v). (n, v)) (filter (\<lambda>(m, v). eq_ci m n) ls)"
  have low: "to_lower n = n" if "n \<in> set ?names" for n using that first_names_spec [of "[]"] by auto
  have blocks: "field_lines (concat (map ?block ns)) name = (if to_lower name \<in> set ns then field_lines ls name else [])"
    if "distinct ns" "\<forall>n\<in>set ns. to_lower n = n" for ns
    using that
  proof (induction ns)
    case (Cons n ns)
    have "map snd (filter (\<lambda>(m, v). eq_ci m n) ls) = field_lines ls n" by (simp add: field_lines_def)
    moreover have "n = to_lower name \<Longrightarrow> field_lines ls n = field_lines ls name" by (simp add: field_lines_def)
    ultimately show ?case using Cons by (auto simp: field_lines_append field_lines_block)
  qed (simp add: field_lines_def)
  have hop: "is_hop_by_hop (to_lower name) = is_hop_by_hop name" by (simp add: is_hop_by_hop_def)
  have none: "field_lines ls name = []" if "to_lower name \<notin> (\<lambda>(n, v). to_lower n) ` set ls"
    using that by (force simp: field_lines_def eq_ci_def filter_empty_conv)
  have "field_lines (response_headers ls) name = (if to_lower name \<in> set ?names then field_lines ls name else [])"
    unfolding response_headers_def using blocks [OF conjunct2 [OF first_names_spec]] low by blast
  moreover have "to_lower name \<in> set ?names \<longleftrightarrow> to_lower name \<in> (\<lambda>(n, v). to_lower n) ` set ls \<and> \<not> is_hop_by_hop name"
    unfolding conjunct1 [OF first_names_spec] by (simp add: hop)
  ultimately show ?thesis using none by (cases "is_hop_by_hop name") simp_all
qed

text \<open>
  A body is taken for whole only when it ended within the limit. One that broke off is never served
  or stored, and of one that is too big the limit and one byte are held, the beginning of the rest.
\<close>

theorem body_read_is_whole:
  assumes "limit < u64_max"
  shows "read_body (sent, broken) limit =
    (if length sent > limit then TooBig (take (limit + 1) sent) else if broken then Truncated else Whole sent)"
  using assms by (auto simp: read_body_def read_limited_def)

theorem body_read_is_whole_witness: "read_body ([1, 2, 3], True) 2 = TooBig [1, 2, 3]"
proof -
  have "(2 :: nat) < u64_max" by (simp add: u64_max_def)
  from body_read_is_whole [OF this, of "[1, 2, 3]" True] show ?thesis by simp
qed

section \<open>What is served from the cache\<close>

lemma lookup_Some:
  assumes "lookup env req ag = (Some answer, ag')"
  obtains cache e body where "ag_cache ag = Some cache" "eq_ci (rq_method req) ''GET''" "\<not> carries_credentials req"
    "client_wants req \<noteq> NotEvenStored" "Httpcache.get (decode_entry env) (Httpcache.key (sha env) req) cache = Some (e, body)"
    "answer = Fresh (as_response (served_at env) e body) \<and> is_fresh (looked_up_at env) e \<and> client_wants req = Anything
      \<or> answer = Stale e body \<and> can_revalidate e" "ag_cache ag' = ag_cache ag" "ag_bypasses ag' = ag_bypasses ag"
  using assms by (auto simp: lookup_def split: option.splits if_splits prod.splits)

lemma lookup_None: "lookup env req ag = (None, ag') \<Longrightarrow> ag_cache ag' = ag_cache ag \<and> ag_bypasses ag' = ag_bypasses ag"
  by (auto simp: lookup_def count_miss_def split: option.splits if_splits prod.splits)

lemma for_host_cache: "for_host host now ag = (p, ag') \<Longrightarrow> ag_cache ag' = ag_cache ag"
  by (auto simp: for_host_def Let_def split: prod.splits if_splits)

lemma confirm_Stored:
  "confirm env req e body ls ag = (f, ag') \<Longrightarrow>
   f = Stored (as_response (served_at env) (e\<lparr>en_headers := refreshed_headers (en_headers e) (response_headers ls)\<rparr>) body)"
  by (simp add: confirm_def Let_def)

lemma call_dials:
  assumes "(if body = NoBody \<and> rq_body req = [] then lookup env req ag else (None, ag)) = (cached, ag1)"
    and "\<And>r. cached \<noteq> Some (Fresh r)" and "for_host (host_of (rq_url req)) (dialled_at env) ag1 = (p, ag2)"
  shows "call env via origin req body ag =
     (case origin (outgoing via p cached req body) of
        Inl message \<Rightarrow> (Inl (fst (failure (ag_metrics ag2) message)), ag2\<lparr>ag_metrics := snd (failure (ag_metrics ag2) message)\<rparr>)
      | Inr resp \<Rightarrow>
          (case cached of
             Some (Stale e b) \<Rightarrow>
               if or_status resp = 304
               then (Inr (fst (confirm env req e b (or_lines resp) ag2)), snd (confirm env req e b (or_lines resp) ag2))
               else (Inr (Live resp), ag2)
           | _ \<Rightarrow> (Inr (Live resp), ag2)))"
  unfolding call_def assms(1) Let_def prod.case
  using assms(2) by (cases cached; cases "the cached") (simp_all add: assms(3) split_beta split: sum.split)

text \<open>
  C15: a response that did not come live from the origin answers a plain GET that carried no credentials
  and did not refuse stored answers, out of an entry filed under this very request; and either the
  entry was fresh and the client content with that, or the origin was asked about it just now,
  with its own validators, and said that nothing has changed.
\<close>

theorem stored_answer_is_allowed:
  assumes "call env via origin req body ag = (Inr (Stored resp), ag')"
  shows "body = NoBody \<and> rq_body req = [] \<and> eq_ci (rq_method req) ''GET'' \<and> \<not> carries_credentials req
    \<and> client_wants req \<noteq> NotEvenStored
    \<and> (\<exists>cache e b. ag_cache ag = Some cache
        \<and> Httpcache.get (decode_entry env) (Httpcache.key (sha env) req) cache = Some (e, b) \<and> rs_body resp = b
        \<and> (is_fresh (looked_up_at env) e \<and> client_wants req = Anything
           \<or> can_revalidate e \<and> (\<exists>p r. origin (outgoing via p (Some (Stale e b)) req body) = Inr r \<and> or_status r = 304)))"
proof -
  obtain cached ag1 where c: "(if body = NoBody \<and> rq_body req = [] then lookup env req ag else (None, ag)) = (cached, ag1)"
    by force
  show ?thesis
  proof (cases cached)
    case None
    obtain p ag2 where h: "for_host (host_of (rq_url req)) (dialled_at env) ag1 = (p, ag2)" by force
    from call_dials [OF c _ h, of via origin] None assms show ?thesis by (auto split: sum.splits)
  next
    case (Some answer)
    with c have b: "body = NoBody" "rq_body req = []" and l: "lookup env req ag = (Some answer, ag1)"
      by (auto split: if_splits)
    from l obtain cache e bd where k: "ag_cache ag = Some cache" "eq_ci (rq_method req) ''GET''" "\<not> carries_credentials req"
      "client_wants req \<noteq> NotEvenStored" "Httpcache.get (decode_entry env) (Httpcache.key (sha env) req) cache = Some (e, bd)"
      "answer = Fresh (as_response (served_at env) e bd) \<and> is_fresh (looked_up_at env) e \<and> client_wants req = Anything
        \<or> answer = Stale e bd \<and> can_revalidate e"
      by (rule lookup_Some)
    obtain p ag2 where h: "for_host (host_of (rq_url req)) (dialled_at env) ag1 = (p, ag2)" by force
    have "rs_body resp = bd \<and> (is_fresh (looked_up_at env) e \<and> client_wants req = Anything
           \<or> can_revalidate e \<and> (\<exists>p r. origin (outgoing via p (Some (Stale e bd)) req body) = Inr r \<and> or_status r = 304))"
    proof (cases answer)
      case (Fresh r)
      with k(6) assms b l show ?thesis by (auto simp: call_def as_response_def)
    next
      case (Stale e' b')
      with k(6) have s: "answer = Stale e bd" "can_revalidate e" by auto
      note d = call_dials [OF c [unfolded Some s(1)] _ h, of via origin]
      obtain r where r: "origin (outgoing via p (Some (Stale e bd)) req body) = Inr r" "or_status r = 304"
        and f: "fst (confirm env req e bd (or_lines r) ag2) = Stored resp"
        using assms d by (auto split: sum.splits if_splits)
      then have "rs_body resp = bd" by (auto simp: confirm_def Let_def as_response_def)
      with s r show ?thesis by blast
    qed
    with b k show ?thesis by blast
  qed
qed

definition sample_env :: outer where
  "sample_env = \<lparr>sha = id, encode_entry = (\<lambda>e. Some []), decode_entry = (\<lambda>b. Some sample_entry), disk_io = quiet,
     looked_up_at = 0, served_at = 0, stored_when = 0, dialled_at = 0\<rparr>"

definition sample_agents :: agents where
  \<comment> \<open>a cache whose every file reads as the sample entry\<close>
  "sample_agents = \<lparr>ag_bypasses = default_bypasses, ag_cache = Some (sample_cache\<lparr>oc_files := \<lambda>p. Some [5]\<rparr>),
     ag_metrics = default_metrics\<rparr>"

theorem stored_answer_is_allowed_witness:
  "eq_ci (rq_method simple_request) ''GET'' \<and> \<not> carries_credentials simple_request"
proof -
  have g: "eq_ci (rq_method simple_request) ''GET''" "\<not> carries_credentials simple_request"
    "client_wants simple_request = Anything" by code_simp+
  have f: "is_fresh 0 sample_entry" by code_simp
  have "Httpcache.get (decode_entry sample_env) k (sample_cache\<lparr>oc_files := \<lambda>p. Some [5]\<rparr>) = Some (sample_entry, [5])" for k
    by (simp add: get_Some sample_env_def)
  with g f have "call sample_env ''1a'' (\<lambda>_. Inl []) simple_request NoBody sample_agents =
     (Inr (Stored (as_response 0 sample_entry [5])), snd (lookup sample_env simple_request sample_agents))"
    by (simp add: call_def lookup_def sample_agents_def sample_env_def simple_request_def)
  from stored_answer_is_allowed [OF this] show ?thesis by blast
qed

text \<open>
  When the origin confirms a stored copy, what it says this time decides what stays: the entry is
  filed again under the fields it sent now, with a lifetime counted from them, or is gone if they
  no longer allow it to be kept.
\<close>

theorem confirmed_entry_follows_the_origin:
  assumes "ag_cache ag = Some cache" and "hs = refreshed_headers (en_headers e) (response_headers ls)"
    and "encode_entry env (entry_for (en_status e) hs (stored_when env)) = Some m"
    and "decode_entry env m = Some (entry_for (en_status e) hs (stored_when env))" and "disk_io env = quiet"
  shows "Option.bind (ag_cache (snd (confirm env req e body ls ag)))
      (Httpcache.get (decode_entry env) (Httpcache.key (sha env) req)) =
    (if eligible req (en_status e) hs then Some (entry_for (en_status e) hs (stored_when env), body) else None)"
proof (cases "eligible req (en_status e) hs")
  case True
  let ?k = "Httpcache.key (sha env) req" and ?e = "entry_for (en_status e) hs (stored_when env)"
  have "Httpcache.get (decode_entry env) ?k (Httpcache.put (encode_entry env) quiet ?k ?e body cache) = Some (?e, body)"
    by (rule get_put [where m = m]) (use assms in simp_all)
  with True assms show ?thesis by (simp add: confirm_def Let_def)
next
  case False
  have "Httpcache.get (decode_entry env) (Httpcache.key (sha env) req) (forget quiet (Httpcache.key (sha env) req) cache) = None"
    by (rule get_forget) simp
  with False assms show ?thesis by (simp add: confirm_def Let_def)
qed

theorem confirmed_entry_follows_the_origin_witness:
  "Option.bind (ag_cache (snd (confirm (sample_env\<lparr>decode_entry := \<lambda>b. Some (entry_for 200 [(''cache-control'', ''private'')] 0)\<rparr>)
        simple_request (sample_entry\<lparr>en_headers := []\<rparr>) [5] [(''Cache-Control'', ''private'')] sample_agents)))
      (Httpcache.get (\<lambda>b. Some (entry_for 200 [(''cache-control'', ''private'')] 0)) (Httpcache.key id simple_request)) = None"
proof -
  let ?env = "sample_env\<lparr>decode_entry := \<lambda>b. Some (entry_for 200 [(''cache-control'', ''private'')] 0)\<rparr>"
  have h: "refreshed_headers (en_headers (sample_entry\<lparr>en_headers := []\<rparr>)) (response_headers [(''Cache-Control'', ''private'')])
      = [(''cache-control'', ''private'')]" by code_simp
  have s: "en_status (sample_entry\<lparr>en_headers := []\<rparr>) = 200" by (simp add: sample_entry_def)
  have "\<not> eligible simple_request 200 [(''cache-control'', ''private'')]" by code_simp
  with confirmed_entry_follows_the_origin [of sample_agents _ "[(''cache-control'', ''private'')]" "sample_entry\<lparr>en_headers := []\<rparr>"
      "[(''Cache-Control'', ''private'')]" ?env "[]" simple_request "[5]"] h s
  show ?thesis by (simp add: sample_agents_def sample_env_def)
qed

end
