(* ===== verification/Inject.thy ===== *)
theory Inject
  imports Encoding Settings Metrics Interceptor
begin

text \<open>
  \<open>src/proxy/src/inject.rs\<close>: the tags that put the proxy's script on every page, whole
  (\<open>rewrite\<close>) and as the page streams past (\<open>Streamer\<close>), and the images that are marked as
  deferrable on the way. The parser (\<open>lol_html\<close>) is a parameter: an element is a value of a type
  \<open>'el\<close> with the operations the handlers use, and a rewriter is a state that takes bytes, calls the
  handler on the elements it meets and puts bytes into the sink. So are the table of encodings
  (\<open>encoding_rs\<close>) and the coders of a streaming body. What a handler changes besides its element is
  one record: the flag and the counter that the handlers share, and the metrics.
\<close>

section \<open>What is claimed\<close>

definition TAGS :: str where
  \<open>TAGS = ''<link rel="stylesheet" href="/.mach5/hidden.css"><script src="/.mach5/mach5.js" defer></script>''\<close>

definition MARKER :: bytes where "MARKER = as_bytes ''/.mach5/mach5.js''"

record inject =
  in_exclude :: "str set"
  in_settings :: store
  in_metrics :: metrics

definition new_inject :: "config \<Rightarrow> store \<Rightarrow> metrics \<Rightarrow> inject" where
  "new_inject c st m =
     \<lparr>in_exclude = set (filter (\<lambda>h. h \<noteq> [])
          (map (\<lambda>h. to_lower (trim_end_matches dot (trim h))) (inject_exclude (inject_section c)))),
      in_settings = st, in_metrics = m\<rparr>"

definition excluded :: "inject \<Rightarrow> proxy_request \<Rightarrow> bool" where
  "excluded i req \<longleftrightarrow>
     injection (Settings.get (in_settings i)) = InjectionOff \<or> covers (in_exclude i) (host_of (rq_url req))"

definition is_html :: "headers \<Rightarrow> bool" where
  "is_html hs \<longleftrightarrow> list_ex (\<lambda>(n, v). eq_ci n ''content-type'' \<and> contains (to_lower v) ''text/html'') hs"

definition claims_page :: "nat \<Rightarrow> headers \<Rightarrow> bool" where
  "claims_page status hs \<longleftrightarrow> status = 200 \<and> is_html hs"

section \<open>The encoding of a page\<close>

definition trim_matches :: "char \<Rightarrow> str \<Rightarrow> str" where
  "trim_matches c s = dropWhile (\<lambda>d. d = c) (trim_end_matches c s)"

definition charset_of_part :: "str \<Rightarrow> str option" where
  "charset_of_part part =
     (case split_once CHR ''='' (trim part) of
        None \<Rightarrow> None
      | Some (name, v) \<Rightarrow> if eq_ci (trim name) ''charset'' then Some v else None)"

definition charset :: "headers \<Rightarrow> str" where
  "charset hs =
     (case header hs ''content-type'' of
        None \<Rightarrow> ''utf-8''
      | Some v \<Rightarrow>
          (case List.map_filter charset_of_part (split_on (\<lambda>c. c = CHR '';'') v) of
             [] \<Rightarrow> ''utf-8''
           | cs # _ \<Rightarrow> trim_matches CHR 0x22 (trim cs)))"

record 'enc encodings =
  for_label :: "str \<Rightarrow> 'enc option"
  ascii_compatible :: "'enc \<Rightarrow> 'enc option"
  utf_8 :: 'enc

definition encoding_for :: "'enc encodings \<Rightarrow> str \<Rightarrow> 'enc option" where
  "encoding_for encs cs = (case for_label encs cs of None \<Rightarrow> Some (utf_8 encs) | Some e \<Rightarrow> ascii_compatible encs e)"

definition byte_lower :: "u8 \<Rightarrow> u8" where
  "byte_lower b = (if 65 \<le> b \<and> b \<le> 90 then b + 32 else b)"

fun find_ascii :: "bytes \<Rightarrow> bytes \<Rightarrow> nat option" where
  \<comment> \<open>the windows of the haystack in order; the needle is never empty\<close>
  "find_ascii haystack needle =
     (if length needle > length haystack then None
      else if map byte_lower (take (length needle) haystack) = map byte_lower needle then Some 0
      else (case haystack of [] \<Rightarrow> None | _ # rest \<Rightarrow> map_option Suc (find_ascii rest needle)))"

declare find_ascii.simps [simp del]

section \<open>The handlers\<close>

record 'el elements =
  tag_name :: "'el \<Rightarrow> str"
  get_attribute :: "'el \<Rightarrow> str \<Rightarrow> str option"
  set_attribute :: "'el \<Rightarrow> str \<Rightarrow> str \<Rightarrow> 'el"
  append_content :: "'el \<Rightarrow> str \<Rightarrow> 'el"
  prepend_content :: "'el \<Rightarrow> str \<Rightarrow> 'el"

record marks =
  tagged :: bool
  images_seen :: nat
  page_metrics :: metrics

record lazy =
  lz_enabled :: bool
  lz_eager :: nat

definition defer_image :: "'el elements \<Rightarrow> lazy \<Rightarrow> nat \<Rightarrow> 'el \<Rightarrow> 'el" where
  \<comment> \<open>\<open>n\<close> images were seen before this one\<close>
  "defer_image ops lz n el =
     (if \<not> lz_enabled lz \<or> n < lz_eager lz then el
      else if get_attribute ops el ''loading'' \<noteq> None \<or> get_attribute ops el ''fetchpriority'' \<noteq> None then el
      else (let el = set_attribute ops el ''loading'' ''lazy''
            in if get_attribute ops el ''decoding'' = None then set_attribute ops el ''decoding'' ''async'' else el))"

definition count_injected :: "metrics \<Rightarrow> metrics" where
  "count_injected m = m\<lparr>injected := increment (injected m)\<rparr>"

definition rewrite_element :: "'el elements \<Rightarrow> 'el \<Rightarrow> marks \<Rightarrow> 'el \<times> marks" where
  \<comment> \<open>the handlers of \<open>rewrite\<close>\<close>
  "rewrite_element ops el p =
     (if tag_name ops el = ''head'' then (append_content ops el TAGS, p\<lparr>tagged := True\<rparr>)
      else if tag_name ops el = ''body'' \<and> \<not> tagged p then (prepend_content ops el TAGS, p\<lparr>tagged := True\<rparr>)
      else (el, p))"

definition stream_element :: "'el elements \<Rightarrow> lazy \<Rightarrow> 'el \<Rightarrow> marks \<Rightarrow> 'el \<times> marks" where
  \<comment> \<open>the handlers of \<open>Streamer::new\<close>\<close>
  "stream_element ops lz el p =
     (if tag_name ops el = ''head''
      then (append_content ops el TAGS, p\<lparr>tagged := True, page_metrics := count_injected (page_metrics p)\<rparr>)
      else if tag_name ops el = ''body''
      then (if tagged p then (el, p)
            else (prepend_content ops el TAGS, p\<lparr>tagged := True, page_metrics := count_injected (page_metrics p)\<rparr>))
      else if tag_name ops el = ''img''
      then (defer_image ops lz (images_seen p) el, p\<lparr>images_seen := images_seen p + 1\<rparr>)
      else (el, p))"

section \<open>A page held whole\<close>

record ('enc, 'el, 'w) html =
  fresh_rewriter :: "'enc \<Rightarrow> 'w"
  write_html :: "('el \<Rightarrow> marks \<Rightarrow> 'el \<times> marks) \<Rightarrow> 'w \<Rightarrow> marks \<Rightarrow> bytes \<Rightarrow> bool \<times> bytes \<times> 'w \<times> marks"
    \<comment> \<open>whether the document was accepted, and what went into the sink\<close>
  end_html :: "('el \<Rightarrow> marks \<Rightarrow> 'el \<times> marks) \<Rightarrow> 'w \<Rightarrow> marks \<Rightarrow> bool \<times> bytes \<times> marks"

definition fresh_page :: "metrics \<Rightarrow> marks" where
  "fresh_page m = \<lparr>tagged = False, images_seen = 0, page_metrics = m\<rparr>"

definition rewrite :: "'enc encodings \<Rightarrow> 'el elements \<Rightarrow> ('enc, 'el, 'w) html \<Rightarrow> bytes \<Rightarrow> str \<Rightarrow> bytes option" where
  "rewrite encs ops lol body cs =
     (if find_ascii body MARKER \<noteq> None then None
      else
        (case encoding_for encs cs of
           None \<Rightarrow> None
         | Some e \<Rightarrow>
             (case write_html lol (rewrite_element ops) (fresh_rewriter lol e) (fresh_page default_metrics) body of
                (False, _) \<Rightarrow> None
              | (True, out, w, p) \<Rightarrow>
                  (case end_html lol (rewrite_element ops) w p of
                     (False, _) \<Rightarrow> None
                   | (True, rest, p) \<Rightarrow> if tagged p then Some (out @ rest) else None))))"

definition on_response_inject :: "'enc encodings \<Rightarrow> 'el elements \<Rightarrow> ('enc, 'el, 'w) html
    \<Rightarrow> proxy_request \<Rightarrow> proxy_response \<Rightarrow> inject \<Rightarrow> proxy_response \<times> inject" where
  "on_response_inject encs ops lol req resp i =
     (if \<not> claims_page (rs_status resp) (rs_headers resp) \<or> excluded i req then (resp, i)
      else (case rewrite encs ops lol (rs_body resp) (charset (rs_headers resp)) of
              None \<Rightarrow> (resp, i)
            | Some rewritten \<Rightarrow>
                (resp\<lparr>rs_body := rewritten\<rparr>, i\<lparr>in_metrics := count_injected (in_metrics i)\<rparr>)))"

definition inject_hooks :: "'enc encodings \<Rightarrow> 'el elements \<Rightarrow> ('enc, 'el, 'w) html
    \<Rightarrow> ('s \<Rightarrow> inject) \<Rightarrow> (inject \<Rightarrow> 's \<Rightarrow> 's) \<Rightarrow> 's hooks" where
  "inject_hooks encs ops lol own keep = default_hooks\<lparr>
     on_response_hook := \<lambda>req resp s.
       (case on_response_inject encs ops lol req resp (own s) of (resp, i) \<Rightarrow> (resp, keep i s)),
     wants_body_hook := \<lambda>req head s. False\<rparr>"

section \<open>A page that streams\<close>

datatype stream_state = Rewriting | PassingThrough | Stopped

record ('d, 'e, 'w) streamer =
  st_decoder :: "'d option"
  inflate_limit :: nat
  st_encoder :: "'e option"
  rewriter :: 'w
  st_page :: marks
  st_state :: stream_state

record ('d, 'e) coders =
  new_decoder :: "coding \<Rightarrow> 'd"
  decode_step :: "'d \<Rightarrow> bytes \<Rightarrow> (bytes \<times> 'd) option"
  new_encoder :: "coding \<Rightarrow> 'e"
  encode_step :: "'e \<Rightarrow> bytes \<Rightarrow> bytes option \<times> 'e"
  encode_end :: "'e \<Rightarrow> bytes option"

definition new_streamer :: "'enc encodings \<Rightarrow> ('enc, 'el, 'w) html \<Rightarrow> ('d, 'e) coders
    \<Rightarrow> headers \<Rightarrow> coding option \<Rightarrow> nat \<Rightarrow> metrics \<Rightarrow> ('d, 'e, 'w) streamer option" where
  "new_streamer encs lol co hs output limit m =
     (if coding_of hs = None \<and> has_content_encoding hs then None
      else (case encoding_for encs (charset hs) of
              None \<Rightarrow> None
            | Some e \<Rightarrow>
                Some \<lparr>st_decoder = map_option (new_decoder co) (coding_of hs), inflate_limit = limit,
                  st_encoder = map_option (new_encoder co) output, rewriter = fresh_rewriter lol e,
                  st_page = fresh_page m, st_state = Rewriting\<rparr>))"

definition streamer_for :: "'enc encodings \<Rightarrow> ('enc, 'el, 'w) html \<Rightarrow> ('d, 'e) coders \<Rightarrow> config
    \<Rightarrow> inject \<Rightarrow> proxy_request \<Rightarrow> response_head \<Rightarrow> ('d, 'e, 'w) streamer option \<times> response_head" where
  \<comment> \<open>\<open>i\<close> is the one \<open>Inject\<close> of the process\<close>
  "streamer_for encs lol co c i req head =
     (if \<not> inject_enabled (inject_section c) then (None, head)
      else if \<not> claims_page (hd_status head) (hd_headers head) \<or> excluded i req then (None, head)
      else
        (let output = (case coding_of (hd_headers head) of
               Some d \<Rightarrow> Some d
             | None \<Rightarrow> if compress (http_section c) then streaming_coding (rq_headers req) (hd_headers head) else None)
         in case new_streamer encs lol co (hd_headers head) output (stream_buffer_bytes (limits_section c)) (in_metrics i) of
              None \<Rightarrow> (None, head)
            | Some s \<Rightarrow>
                (Some s,
                 if coding_of (hd_headers head) = None
                 then (case output of Some d \<Rightarrow> head\<lparr>hd_headers := declare_coding (hd_headers head) d\<rparr> | None \<Rightarrow> head)
                 else head)))"

definition lazy_for :: "config \<Rightarrow> lazy" where
  "lazy_for c = \<lparr>lz_enabled = lazy_images (inject_section c), lz_eager = eager_images (inject_section c)\<rparr>"

definition encode_chunk :: "('d, 'e) coders \<Rightarrow> bytes \<Rightarrow> ('d, 'e, 'w) streamer \<Rightarrow> bytes \<times> ('d, 'e, 'w) streamer" where
  \<comment> \<open>\<open>unwrap_or_default\<close>: what the encoder refuses is dropped\<close>
  "encode_chunk co clear s =
     (case st_encoder s of
        None \<Rightarrow> (clear, s)
      | Some e \<Rightarrow> (case encode_step co e clear of
                     (Some out, e) \<Rightarrow> (out, s\<lparr>st_encoder := Some e\<rparr>)
                   | (None, e) \<Rightarrow> ([], s\<lparr>st_encoder := Some e\<rparr>)))"

definition decode_chunk :: "('d, 'e) coders \<Rightarrow> bytes \<Rightarrow> ('d, 'e, 'w) streamer \<Rightarrow> bytes option \<times> ('d, 'e, 'w) streamer" where
  "decode_chunk co chunk s =
     (case st_decoder s of
        None \<Rightarrow> (Some chunk, s)
      | Some d \<Rightarrow> (case push (decode_step co) d chunk (inflate_limit s) of
                     (clear, d) \<Rightarrow> (clear, s\<lparr>st_decoder := Some d\<rparr>)))"

definition push_page :: "('enc, 'el, 'w) html \<Rightarrow> ('d, 'e) coders \<Rightarrow> ('el \<Rightarrow> marks \<Rightarrow> 'el \<times> marks)
    \<Rightarrow> bytes \<Rightarrow> ('d, 'e, 'w) streamer \<Rightarrow> bytes \<times> ('d, 'e, 'w) streamer" where
  \<comment> \<open>the sink is empty between two pushes: every push takes what the parser put there\<close>
  "push_page lol co handler chunk s =
     (if st_state s = Stopped then ([], s)
      else
        (case decode_chunk co chunk s of
           (None, s) \<Rightarrow> ([], s\<lparr>st_state := Stopped\<rparr>)
         | (Some clear, s) \<Rightarrow>
             if st_state s = Rewriting
             then (case write_html lol handler (rewriter s) (st_page s) clear of
                     (False, _, w, p) \<Rightarrow>
                       encode_chunk co clear (s\<lparr>rewriter := w, st_page := p, st_state := PassingThrough\<rparr>)
                   | (True, rewritten, w, p) \<Rightarrow> encode_chunk co rewritten (s\<lparr>rewriter := w, st_page := p\<rparr>))
             else encode_chunk co clear s))"

definition finish_page :: "('enc, 'el, 'w) html \<Rightarrow> ('d, 'e) coders \<Rightarrow> ('el \<Rightarrow> marks \<Rightarrow> 'el \<times> marks)
    \<Rightarrow> ('d, 'e, 'w) streamer \<Rightarrow> bytes" where
  "finish_page lol co handler s =
     (let clear = (if st_state s = Rewriting then fst (snd (end_html lol handler (rewriter s) (st_page s))) else [])
      in case st_encoder s of
           None \<Rightarrow> clear
         | Some e \<Rightarrow>
             (case encode_step co e clear of
                (out, e) \<Rightarrow> (case out of Some out \<Rightarrow> out | None \<Rightarrow> [])
                  @ (case encode_end co e of Some out \<Rightarrow> out | None \<Rightarrow> [])))"

fun push_all :: "('enc, 'el, 'w) html \<Rightarrow> ('d, 'e) coders \<Rightarrow> ('el \<Rightarrow> marks \<Rightarrow> 'el \<times> marks)
    \<Rightarrow> bytes list \<Rightarrow> ('d, 'e, 'w) streamer \<Rightarrow> bytes \<times> ('d, 'e, 'w) streamer" where
  "push_all lol co handler [] s = ([], s)"
| "push_all lol co handler (c # cs) s =
     (case push_page lol co handler c s of
        (out, s) \<Rightarrow> (case push_all lol co handler cs s of (rest, s) \<Rightarrow> (out @ rest, s)))"

definition streamed :: "('enc, 'el, 'w) html \<Rightarrow> ('d, 'e) coders \<Rightarrow> ('el \<Rightarrow> marks \<Rightarrow> 'el \<times> marks)
    \<Rightarrow> bytes list \<Rightarrow> ('d, 'e, 'w) streamer \<Rightarrow> bytes" where
  \<comment> \<open>all that the client is sent of a page\<close>
  "streamed lol co handler cs s =
     (case push_all lol co handler cs s of (out, s) \<Rightarrow> out @ finish_page lol co handler s)"

section \<open>What the client reads of a page that streams\<close>

fun plain_chunks :: "('d, 'e) coders \<Rightarrow> nat \<Rightarrow> bytes list \<Rightarrow> 'd option \<Rightarrow> bytes list \<times> bool" where
  \<comment> \<open>the page in the clear, and whether the decoder gave up on it\<close>
  "plain_chunks co limit [] d = ([], False)"
| "plain_chunks co limit (c # cs) None = (case plain_chunks co limit cs None of (ps, short) \<Rightarrow> (c # ps, short))"
| "plain_chunks co limit (c # cs) (Some d) =
     (case push (decode_step co) d c limit of
        (None, d) \<Rightarrow> ([], True)
      | (Some clear, d) \<Rightarrow> (case plain_chunks co limit cs (Some d) of (ps, short) \<Rightarrow> (clear # ps, short)))"

fun page_of :: "('enc, 'el, 'w) html \<Rightarrow> ('el \<Rightarrow> marks \<Rightarrow> 'el \<times> marks) \<Rightarrow> 'w \<Rightarrow> marks
    \<Rightarrow> bytes list \<Rightarrow> bool \<Rightarrow> bytes list" where
  \<comment> \<open>the rewritten page: from the piece the parser refuses on, the page as it is; what the parser
    still held is part of it only when the page ended of itself\<close>
  "page_of lol h w p [] short = [if short then [] else fst (snd (end_html lol h w p))]"
| "page_of lol h w p (c # cs) short =
     (case write_html lol h w p c of
        (True, out, w, p) \<Rightarrow> out # page_of lol h w p cs short
      | (False, _) \<Rightarrow> c # cs @ [[]])"

fun encoded :: "('d, 'e) coders \<Rightarrow> bytes list \<Rightarrow> 'e \<Rightarrow> bytes" where
  \<comment> \<open>what an encoder makes of pieces, the last of them and the end together\<close>
  "encoded co [] e = (case encode_end co e of Some out \<Rightarrow> out | None \<Rightarrow> [])"
| "encoded co (c # cs) e =
     (case encode_step co e c of (out, e) \<Rightarrow> (case out of Some out \<Rightarrow> out | None \<Rightarrow> []) @ encoded co cs e)"

definition faithful :: "inflater \<Rightarrow> ('d, 'e) coders \<Rightarrow> bool" where
  \<comment> \<open>what a streaming encoder is for: its output, ended, inflates to what went in\<close>
  "faithful inflate co \<longleftrightarrow> (\<forall>c ps. inflate c (encoded co ps (new_encoder co c)) = (concat ps, False))"

lemma encode_chunk_cases:
  "encode_chunk co clear s =
     (case st_encoder s of
        None \<Rightarrow> (clear, s)
      | Some e \<Rightarrow> ((case fst (encode_step co e clear) of Some out \<Rightarrow> out | None \<Rightarrow> []),
                   s\<lparr>st_encoder := Some (snd (encode_step co e clear))\<rparr>))"
  by (auto simp: encode_chunk_def split: option.splits prod.splits)

definition sent :: "('d, 'e) coders \<Rightarrow> bytes list \<Rightarrow> 'e option \<Rightarrow> bytes" where
  "sent co ps e = (case e of None \<Rightarrow> concat ps | Some e \<Rightarrow> encoded co ps e)"

lemma encode_chunk_sent:
  assumes "encode_chunk co c s = (out, s')"
  shows "out @ sent co ps (st_encoder s') = sent co (c # ps) (st_encoder s)"
    and "s' = s\<lparr>st_encoder := st_encoder s'\<rparr>"
  using assms by (auto simp: encode_chunk_cases sent_def split: option.splits prod.splits)

lemma finish_sent:
  "finish_page lol co h s =
     sent co [if st_state s = Rewriting then fst (snd (end_html lol h (rewriter s) (st_page s))) else []] (st_encoder s)"
  by (simp add: finish_page_def sent_def Let_def split: option.split prod.split)

lemma streamed_Cons:
  "streamed lol co h (c # cs) s =
     fst (push_page lol co h c s) @ streamed lol co h cs (snd (push_page lol co h c s))"
  by (simp add: streamed_def split: prod.split)

lemma streamed_stopped: "st_state s = Stopped \<Longrightarrow> streamed lol co h cs s = sent co [[]] (st_encoder s)"
proof (induction cs)
  case Nil
  then show ?case by (simp add: streamed_def finish_sent)
next
  case (Cons c cs)
  then show ?case by (simp add: streamed_Cons push_page_def)
qed

lemma streamed_passing:
  "st_state s = PassingThrough \<Longrightarrow>
   streamed lol co h cs s = sent co (fst (plain_chunks co (inflate_limit s) cs (st_decoder s)) @ [[]]) (st_encoder s)"
proof (induction cs arbitrary: s)
  case Nil
  then show ?case by (simp add: streamed_def finish_sent)
next
  case (Cons c cs)
  obtain r s1 where d: "decode_chunk co c s = (r, s1)" by force
  show ?case
  proof (cases r)
    case None
    with d Cons.prems have p: "push_page lol co h c s = ([], s1\<lparr>st_state := Stopped\<rparr>)" by (simp add: push_page_def)
    from d None have "st_encoder s1 = st_encoder s" "fst (plain_chunks co (inflate_limit s) (c # cs) (st_decoder s)) = []"
      by (auto simp: decode_chunk_def split: option.splits prod.splits)
    with p show ?thesis by (simp add: streamed_Cons streamed_stopped)
  next
    case (Some clear)
    from d Some have s1: "st_state s1 = st_state s" "st_encoder s1 = st_encoder s" "inflate_limit s1 = inflate_limit s"
      "fst (plain_chunks co (inflate_limit s) (c # cs) (st_decoder s))
        = clear # fst (plain_chunks co (inflate_limit s) cs (st_decoder s1))"
      by (auto simp: decode_chunk_def split: option.splits prod.splits)
    obtain out s2 where e: "encode_chunk co clear s1 = (out, s2)" by force
    with d Some s1 Cons.prems have p: "push_page lol co h c s = (out, s2)" by (simp add: push_page_def)
    from encode_chunk_sent(2) [OF e] s1 Cons.prems
    have "st_state s2 = PassingThrough" "inflate_limit s2 = inflate_limit s" "st_decoder s2 = st_decoder s1"
      by (metis streamer.select_convs streamer.update_convs(3) streamer.surjective)+
    with Cons.IH [of s2] p s1(2,4) encode_chunk_sent(1) [OF e] show ?thesis by (simp add: streamed_Cons)
  qed
qed

lemma streamed_rewriting:
  "st_state s = Rewriting \<Longrightarrow> plain_chunks co (inflate_limit s) cs (st_decoder s) = (ps, short) \<Longrightarrow>
   streamed lol co h cs s = sent co (page_of lol h (rewriter s) (st_page s) ps short) (st_encoder s)"
proof (induction cs arbitrary: s ps)
  case Nil
  then show ?case by (simp add: streamed_def finish_sent)
next
  case (Cons c cs)
  obtain r s1 where d: "decode_chunk co c s = (r, s1)" by force
  show ?case
  proof (cases r)
    case None
    with d Cons.prems have p: "push_page lol co h c s = ([], s1\<lparr>st_state := Stopped\<rparr>)" by (simp add: push_page_def)
    from d None Cons.prems have "st_encoder s1 = st_encoder s" "ps = []" "short"
      by (auto simp: decode_chunk_def split: option.splits prod.splits)
    with p show ?thesis by (simp add: streamed_Cons streamed_stopped)
  next
    case (Some clear)
    from d Some have s1: "st_state s1 = st_state s" "st_encoder s1 = st_encoder s" "inflate_limit s1 = inflate_limit s"
      "rewriter s1 = rewriter s" "st_page s1 = st_page s"
      by (auto simp: decode_chunk_def split: option.splits prod.splits)
    from d Some Cons.prems(2) obtain rest
      where rest: "ps = clear # rest" "plain_chunks co (inflate_limit s) cs (st_decoder s1) = (rest, short)"
      by (auto simp: decode_chunk_def split: option.splits prod.splits)
    obtain ok rewritten w p where w: "write_html lol h (rewriter s) (st_page s) clear = (ok, rewritten, w, p)"
      by (metis surj_pair)
    show ?thesis
    proof (cases ok)
      case True
      obtain out s2 where e: "encode_chunk co rewritten (s1\<lparr>rewriter := w, st_page := p\<rparr>) = (out, s2)" by force
      with d Some s1 Cons.prems w True have q: "push_page lol co h c s = (out, s2)" by (simp add: push_page_def)
      from arg_cong [OF encode_chunk_sent(2) [OF e], of st_state] arg_cong [OF encode_chunk_sent(2) [OF e], of inflate_limit]
        arg_cong [OF encode_chunk_sent(2) [OF e], of st_decoder] arg_cong [OF encode_chunk_sent(2) [OF e], of rewriter]
        arg_cong [OF encode_chunk_sent(2) [OF e], of st_page] s1 Cons.prems(1)
      have "st_state s2 = Rewriting" "inflate_limit s2 = inflate_limit s" "st_decoder s2 = st_decoder s1"
        "rewriter s2 = w" "st_page s2 = p" by simp_all
      with Cons.IH [of s2] q s1(2) rest w True encode_chunk_sent(1) [OF e] show ?thesis by (simp add: streamed_Cons)
    next
      case False
      obtain out s2 where e: "encode_chunk co clear (s1\<lparr>rewriter := w, st_page := p, st_state := PassingThrough\<rparr>) = (out, s2)"
        by force
      with d Some s1 Cons.prems w False have q: "push_page lol co h c s = (out, s2)" by (simp add: push_page_def)
      from arg_cong [OF encode_chunk_sent(2) [OF e], of st_state] arg_cong [OF encode_chunk_sent(2) [OF e], of inflate_limit]
        arg_cong [OF encode_chunk_sent(2) [OF e], of st_decoder] s1
      have "st_state s2 = PassingThrough" "inflate_limit s2 = inflate_limit s" "st_decoder s2 = st_decoder s1" by simp_all
      with streamed_passing [of s2 lol co h cs] q s1(2) rest w False encode_chunk_sent(1) [OF e]
      show ?thesis by (simp add: streamed_Cons)
    qed
  qed
qed

section \<open>The head and the body agree\<close>

lemma coding_of_declared [simp]: "coding_of (declare_coding hs c) = Some c"
  by (simp add: declare_coding_def vary_on_accept_encoding_def coding_of_pushed)

lemma streamer_for_parts:
  assumes "streamer_for encs lol co c i req head = (Some s, head')"
  shows "st_state s = Rewriting" and "st_page s = fresh_page (in_metrics i)"
    and "st_decoder s = map_option (new_decoder co) (coding_of (hd_headers head))"
    and "st_encoder s = map_option (new_encoder co) (coding_of (hd_headers head'))"
    and "inflate_limit s = stream_buffer_bytes (limits_section c)"
    and "claims_page (hd_status head) (hd_headers head) \<and> \<not> excluded i req \<and> hd_status head' = hd_status head"
  using assms by (auto simp: streamer_for_def new_streamer_def Let_def split: option.splits if_splits)

lemma plain_sent:
  assumes "faithful inflate co" and "e = map_option (new_encoder co) (coding_of hs)"
  shows "plain inflate hs (sent co ps e) = Some (concat ps)"
  using assms by (auto simp: plain_def sent_def faithful_def split: option.split)

text \<open>
  C12: a page that is rewritten as it streams reads back under the coding its head declares, whatever
  gives up on the way: the client gets the rewritten page; from the piece on that the parser
  refused, the page as the origin sent it; and where the decoder gave up, what came before, with
  the coding closed.
\<close>

theorem streamed_page_reads_back:
  assumes "faithful inflate co" and "streamer_for encs lol co c i req head = (Some s, head')"
    and "plain_chunks co (stream_buffer_bytes (limits_section c)) cs
      (map_option (new_decoder co) (coding_of (hd_headers head))) = (ps, short)"
  shows "plain inflate (hd_headers head') (streamed lol co h cs s)
    = Some (concat (page_of lol h (rewriter s) (fresh_page (in_metrics i)) ps short))"
proof -
  note s = streamer_for_parts [OF assms(2)]
  have "plain_chunks co (inflate_limit s) cs (st_decoder s) = (ps, short)" using s(3,5) assms(3) by simp
  from streamed_rewriting [OF s(1) this, of lol h] s(2)
  show ?thesis by (simp add: plain_sent [OF assms(1) s(4)])
qed

text \<open>
  For the witnesses: a parser that knows no elements and refuses a zero byte, and a coder that
  puts a marker byte in front.
\<close>

definition toy_html :: "(unit, unit, unit) html" where
  "toy_html = \<lparr>fresh_rewriter = \<lambda>_. (),
     write_html = \<lambda>h w p bs. (0 \<notin> set bs, bs, w, p), end_html = \<lambda>h w p. (True, [], p)\<rparr>"

definition toy_coders :: "(unit, bool) coders" where
  "toy_coders = \<lparr>new_decoder = \<lambda>_. (), decode_step = \<lambda>d bs. Some (bs, d), new_encoder = \<lambda>_. False,
     encode_step = \<lambda>started bs. (Some (if started then bs else 7 # bs), True),
     encode_end = \<lambda>started. Some (if started then [] else [7])\<rparr>"

definition toy_encodings :: "unit encodings" where
  "toy_encodings = \<lparr>for_label = \<lambda>_. None, ascii_compatible = \<lambda>_. None, utf_8 = ()\<rparr>"

lemma toy_html_fields [simp]:
  "write_html toy_html h w p bs = (0 \<notin> set bs, bs, w, p)" "end_html toy_html h w p = (True, [], p)"
  by (simp_all add: toy_html_def)

lemma toy_coders_fields [simp]:
  "encode_step toy_coders started bs = (Some (if started then bs else 7 # bs), True)"
  "encode_end toy_coders started = Some (if started then [] else [7])" "new_encoder toy_coders c = False"
  by (simp_all add: toy_coders_def)

lemma toy_faithful: "faithful toy_inflate toy_coders"
proof -
  have on: "encoded toy_coders ps True = concat ps" for ps
    by (induction ps) simp_all
  have "encoded toy_coders ps False = 7 # concat ps" for ps
    by (cases ps) (simp_all add: on)
  then show ?thesis by (simp add: faithful_def toy_inflate_def)
qed

definition some_inject :: inject where
  "some_inject = \<lparr>in_exclude = {}, in_settings = load (\<lambda>_. None) Missing, in_metrics = default_metrics\<rparr>"

definition html_head :: response_head where
  "html_head = \<lparr>hd_status = 200, hd_headers = [(''Content-Type'', ''text/html'')]\<rparr>"

definition gzip_request :: proxy_request where
  "gzip_request = simple_request\<lparr>rq_headers := [(''Accept-Encoding'', ''gzip'')]\<rparr>"

theorem streamed_page_reads_back_witness:
  "\<exists>s head'. streamer_for toy_encodings toy_html toy_coders (default_config bare)
        some_inject gzip_request html_head = (Some s, head')
    \<and> plain toy_inflate (hd_headers head') (streamed toy_html toy_coders (\<lambda>el p. (el, p)) [[1], [2, 0], [3]] s) = Some [1, 2, 0, 3]"
proof -
  let ?r = "streamer_for toy_encodings toy_html toy_coders (default_config bare)
        some_inject gzip_request html_head"
  have "fst ?r \<noteq> None" by code_simp
  then obtain s head' where r: "?r = (Some s, head')" by (metis prod.collapse option.exhaust)
  have "coding_of (hd_headers html_head) = None" by code_simp
  then have "plain_chunks toy_coders (stream_buffer_bytes (limits_section (default_config bare))) [[1], [2, 0], [3]]
      (map_option (new_decoder toy_coders) (coding_of (hd_headers html_head))) = ([[1], [2, 0], [3]], False)" by simp
  from streamed_page_reads_back [OF toy_faithful r this, of "\<lambda>el p. (el, p)"]
  have "plain toy_inflate (hd_headers head') (streamed toy_html toy_coders (\<lambda>el p. (el, p)) [[1], [2, 0], [3]] s) = Some [1, 2, 0, 3]"
    by simp
  with r show ?thesis by blast
qed

text \<open>
  How the network cuts a page up does not matter: if the parser accepts the page given in one piece
  and takes it the same way in several, as a streaming parser does, the client reads the page
  rewritten whole.
\<close>

definition incremental :: "('enc, 'el, 'w) html \<Rightarrow> ('el \<Rightarrow> marks \<Rightarrow> 'el \<times> marks) \<Rightarrow> bool" where
  "incremental lol h \<longleftrightarrow>
     (\<forall>w p. write_html lol h w p [] = (True, [], w, p))
     \<and> (\<forall>w p a b out w2 p2. write_html lol h w p (a @ b) = (True, out, w2, p2) \<longrightarrow>
          (\<exists>out1 w1 p1 out2. write_html lol h w p a = (True, out1, w1, p1)
             \<and> write_html lol h w1 p1 b = (True, out2, w2, p2) \<and> out = out1 @ out2))"

lemma page_of_whole:
  assumes "incremental lol h"
  shows "write_html lol h w p (concat ps) = (True, out, w2, p2) \<Longrightarrow>
    concat (page_of lol h w p ps False) = out @ fst (snd (end_html lol h w2 p2))"
proof (induction ps arbitrary: w p out)
  case Nil
  with assms show ?case by (simp add: incremental_def)
next
  case (Cons c cs)
  then have "write_html lol h w p (c @ concat cs) = (True, out, w2, p2)" by simp
  then obtain out1 w1 p1 out2 where "write_html lol h w p c = (True, out1, w1, p1)"
    and "write_html lol h w1 p1 (concat cs) = (True, out2, w2, p2)" and "out = out1 @ out2"
    using assms unfolding incremental_def by blast
  with Cons.IH [of w1 p1 out2] show ?case by simp
qed

theorem chunking_is_invisible:
  assumes "faithful inflate co" and "incremental lol h"
    and "streamer_for encs lol co c i req head = (Some s, head')"
    and "plain_chunks co (stream_buffer_bytes (limits_section c)) cs
      (map_option (new_decoder co) (coding_of (hd_headers head))) = (ps, False)"
    and "write_html lol h (rewriter s) (fresh_page (in_metrics i)) (concat ps) = (True, out, w, p)"
  shows "plain inflate (hd_headers head') (streamed lol co h cs s) = Some (out @ fst (snd (end_html lol h w p)))"
proof -
  note s = streamer_for_parts [OF assms(3)]
  have "plain_chunks co (inflate_limit s) cs (st_decoder s) = (ps, False)" using s(3,5) assms(4) by simp
  from streamed_rewriting [OF s(1) this, of lol h] s(2)
  show ?thesis by (simp add: plain_sent [OF assms(1) s(4)] page_of_whole [OF assms(2,5)])
qed

theorem chunking_is_invisible_witness:
  "\<exists>s head'. streamer_for toy_encodings toy_html toy_coders (default_config bare)
        some_inject gzip_request html_head = (Some s, head')
    \<and> plain toy_inflate (hd_headers head') (streamed toy_html toy_coders (\<lambda>el p. (el, p)) [[1], [2], [3]] s) = Some [1, 2, 3]"
proof -
  let ?r = "streamer_for toy_encodings toy_html toy_coders (default_config bare)
        some_inject gzip_request html_head"
  have "fst ?r \<noteq> None" by code_simp
  then obtain s head' where r: "?r = (Some s, head')" by (metis prod.collapse option.exhaust)
  have "coding_of (hd_headers html_head) = None" by code_simp
  then have c: "plain_chunks toy_coders (stream_buffer_bytes (limits_section (default_config bare))) [[1], [2], [3]]
      (map_option (new_decoder toy_coders) (coding_of (hd_headers html_head))) = ([[1], [2], [3]], False)" by simp
  have "incremental toy_html (\<lambda>el p. (el, p) :: unit \<times> marks)" by (auto simp: incremental_def)
  from chunking_is_invisible [OF toy_faithful this r c]
  have "plain toy_inflate (hd_headers head') (streamed toy_html toy_coders (\<lambda>el p. (el, p)) [[1], [2], [3]] s) = Some [1, 2, 3]"
    by simp
  with r show ?thesis by blast
qed

section \<open>What the handlers do to a document\<close>

fun visit :: "('el \<Rightarrow> marks \<Rightarrow> 'el \<times> marks) \<Rightarrow> 'el list \<Rightarrow> marks \<Rightarrow> 'el list \<times> marks" where
  \<comment> \<open>the elements of a document, in its order\<close>
  "visit h [] p = ([], p)"
| "visit h (el # els) p = (case h el p of (el, p) \<Rightarrow> (case visit h els p of (els, p) \<Rightarrow> (el # els, p)))"

definition is_tag :: "'el elements \<Rightarrow> str \<Rightarrow> 'el \<Rightarrow> bool" where
  "is_tag ops t el \<longleftrightarrow> tag_name ops el = t"

definition opens :: "'el elements \<Rightarrow> 'el \<Rightarrow> bool" where
  "opens ops el \<longleftrightarrow> is_tag ops ''head'' el \<or> is_tag ops ''body'' el"

definition takes_tags :: "'el elements \<Rightarrow> 'el list \<Rightarrow> 'el \<Rightarrow> bool" where
  \<comment> \<open>after the elements before it\<close>
  "takes_tags ops before el \<longleftrightarrow>
     is_tag ops ''head'' el \<or> is_tag ops ''body'' el \<and> \<not> list_ex (opens ops) before"

definition rewritten :: "'el elements \<Rightarrow> lazy \<Rightarrow> 'el list \<Rightarrow> 'el \<Rightarrow> 'el" where
  "rewritten ops lz before el =
     (if is_tag ops ''head'' el then append_content ops el TAGS
      else if takes_tags ops before el then prepend_content ops el TAGS
      else if is_tag ops ''img'' el then defer_image ops lz (length (filter (is_tag ops ''img'') before)) el
      else el)"

lemma is_tag_other: "is_tag ops t el \<Longrightarrow> is_tag ops u el \<longleftrightarrow> t = u"
  by (auto simp: is_tag_def)

lemmas stream_element_tags = stream_element_def [folded is_tag_def]

lemma visit_from:
  assumes "tagged p \<longleftrightarrow> list_ex (opens ops) before" and "images_seen p = length (filter (is_tag ops ''img'') before)"
  shows "visit (stream_element ops lz) els p =
    (map (\<lambda>i. rewritten ops lz (before @ take i els) (els ! i)) [0..<length els],
     p\<lparr>tagged := list_ex (opens ops) (before @ els),
       images_seen := length (filter (is_tag ops ''img'') (before @ els)),
       page_metrics := (count_injected ^^ length (filter (\<lambda>i. takes_tags ops (before @ take i els) (els ! i)) [0..<length els]))
         (page_metrics p)\<rparr>)"
  using assms
proof (induction els arbitrary: p before)
  case Nil
  then show ?case by simp
next
  case (Cons el els)
  obtain el1 p1 where h: "stream_element ops lz el p = (el1, p1)" by force
  have e: "el1 = rewritten ops lz before el"
    using h Cons.prems by (auto simp: stream_element_tags rewritten_def takes_tags_def is_tag_other split: if_splits)
  have o: "opens ops el \<longleftrightarrow> is_tag ops ''head'' el \<or> is_tag ops ''body'' el" by (simp add: opens_def)
  have t: "tagged p1 \<longleftrightarrow> list_ex (opens ops) (before @ [el])"
    "images_seen p1 = length (filter (is_tag ops ''img'') (before @ [el]))"
    using h Cons.prems by (auto simp: stream_element_tags is_tag_other o split: if_splits)
  have m: "page_metrics p1 = (if takes_tags ops before el then count_injected (page_metrics p) else page_metrics p)"
    using h Cons.prems by (auto simp: stream_element_tags takes_tags_def is_tag_other split: if_splits)
  have p1: "p1\<lparr>tagged := x, images_seen := y, page_metrics := z\<rparr> = p\<lparr>tagged := x, images_seen := y, page_metrics := z\<rparr>"
    for x y z by (cases p; cases p1) simp
  have up: "[0..<length (el # els)] = 0 # map Suc [0..<length els]" by (simp add: upt_conv_Cons map_Suc_upt del: upt_Suc)
  have n: "length (filter (\<lambda>i. takes_tags ops (before @ take i (el # els)) ((el # els) ! i)) [0..<length (el # els)])
     = (if takes_tags ops before el then 1 else 0)
       + length (filter (\<lambda>i. takes_tags ops ((before @ [el]) @ take i els) (els ! i)) [0..<length els])"
    unfolding up by (simp add: filter_map o_def)
  have l: "map (\<lambda>i. rewritten ops lz (before @ take i (el # els)) ((el # els) ! i)) [0..<length (el # els)]
     = el1 # map (\<lambda>i. rewritten ops lz ((before @ [el]) @ take i els) (els ! i)) [0..<length els]"
    unfolding up by (simp add: o_def e)
  show ?case
    unfolding n l visit.simps h prod.case Cons.IH [OF t] m p1
    by (simp add: funpow_swap1)
qed

text \<open>
  Over a whole document: the tags go to the end of every head, and to the start of the first body
  when no head came before it; every image past the first few is deferred, counted from the top of
  the document; nothing else is touched; and the counter moves by the number of places the tags
  went to.
\<close>

theorem tags_are_placed:
  "visit (stream_element ops lz) els (fresh_page m) = (els', p) \<longleftrightarrow>
     els' = map (\<lambda>i. rewritten ops lz (take i els) (els ! i)) [0..<length els]
     \<and> p = \<lparr>tagged = list_ex (opens ops) els, images_seen = length (filter (is_tag ops ''img'') els),
          page_metrics = (count_injected ^^ length (filter (\<lambda>i. takes_tags ops (take i els) (els ! i)) [0..<length els])) m\<rparr>"
  by (auto simp: visit_from [where before = "[]"] fresh_page_def)

text \<open>A document that opens its head twice gets the tags twice, and is counted twice.\<close>

lemma second_head_tagged_again:
  assumes "tag_name ops a = ''head''" and "tag_name ops b = ''head''"
  shows "fst (visit (stream_element ops lz) [a, b] (fresh_page m)) = [append_content ops a TAGS, append_content ops b TAGS]"
  using assms by (simp add: stream_element_def)

text \<open>
  An image whose author said how it is to be loaded is left alone, and so are the first ones; any
  other is loaded lazily, and decoded as its author said or else asynchronously.
\<close>

definition lawful :: "'el elements \<Rightarrow> bool" where
  "lawful ops \<longleftrightarrow> (\<forall>el n v m. get_attribute ops (set_attribute ops el n v) m =
     (if eq_ci n m then Some v else get_attribute ops el m))"

theorem author_decides:
  assumes "lawful ops"
  shows "if \<not> lz_enabled lz \<or> n < lz_eager lz \<or> get_attribute ops el ''loading'' \<noteq> None
           \<or> get_attribute ops el ''fetchpriority'' \<noteq> None
         then defer_image ops lz n el = el
         else get_attribute ops (defer_image ops lz n el) ''loading'' = Some ''lazy''
           \<and> get_attribute ops (defer_image ops lz n el) ''decoding''
              = Some (case get_attribute ops el ''decoding'' of Some v \<Rightarrow> v | None \<Rightarrow> ''async'')
           \<and> get_attribute ops (defer_image ops lz n el) ''src'' = get_attribute ops el ''src''"
proof -
  have "\<not> eq_ci ''loading'' ''decoding''" "\<not> eq_ci ''decoding'' ''loading''" "\<not> eq_ci ''loading'' ''src''"
    "\<not> eq_ci ''decoding'' ''src''" by code_simp+
  with assms show ?thesis by (auto simp: defer_image_def lawful_def Let_def)
qed

definition pair_elements :: "(str \<times> headers) elements" where
  "pair_elements = \<lparr>tag_name = fst, get_attribute = \<lambda>el n. header (snd el) n,
     set_attribute = \<lambda>el n v. (fst el, (n, v) # snd el), append_content = \<lambda>el s. el, prepend_content = \<lambda>el s. el\<rparr>"

theorem author_decides_witness:
  "get_attribute pair_elements (defer_image pair_elements \<lparr>lz_enabled = True, lz_eager = 1\<rparr> 1 (''img'', [(''src'', ''a.png'')])) ''loading''
    = Some ''lazy''"
proof -
  have "lawful pair_elements" by (simp add: lawful_def pair_elements_def)
  moreover have "header [(''src'', ''a.png'')] ''loading'' = None" "header [(''src'', ''a.png'')] ''fetchpriority'' = None"
    by code_simp+
  ultimately show ?thesis
    using author_decides [of pair_elements "\<lparr>lz_enabled = True, lz_eager = 1\<rparr>" 1 "(''img'', [(''src'', ''a.png'')])"]
    by (simp add: pair_elements_def split: if_splits)
qed

end
