(* ===== verification/Hello.thy ===== *)
theory Hello
  imports Prelude "HOL-Library.Monad_Syntax"
begin

text \<open>
  \<open>src/proxy/src/passthrough.rs\<close>, the ClientHello: joining the handshake records that have arrived,
  saying how much more has to arrive, and reading the server name. Nothing here is answered, so
  what is proved is that the name read is the one the client wrote, however it framed its hello and
  however the network cut it up, and that the wait never asks for more than the hello has.
\<close>

section \<open>Records\<close>

definition HANDSHAKE :: u8 where "HANDSHAKE = 0x16"
definition RECORD_HEADER :: nat where "RECORD_HEADER = 5"
definition MAX_RECORD :: nat where "MAX_RECORD = 16384"
definition PEEK_BYTES :: nat where "PEEK_BYTES = MAX_RECORD + RECORD_HEADER"
definition CLIENT_HELLO :: u8 where "CLIENT_HELLO = 0x01"
definition HANDSHAKE_HEADER :: nat where "HANDSHAKE_HEADER = 4"
definition EXTENSION_SERVER_NAME :: nat where "EXTENSION_SERVER_NAME = 0"
definition NAME_TYPE_HOST :: u8 where "NAME_TYPE_HOST = 0"

record assembled =
  payload :: bytes
  consumed :: nat
  pending_end :: "nat option"

function assemble_from :: "bytes \<Rightarrow> bytes \<Rightarrow> nat \<Rightarrow> assembled option" where
  \<comment> \<open>the loop of \<open>assemble\<close>: what is gathered, and how much of \<open>bs\<close> it was\<close>
  "assemble_from bs gathered at =
     (if length bs - at < RECORD_HEADER
      then Some \<lparr>payload = gathered, consumed = at, pending_end = None\<rparr>
      else
        (let record_header = take RECORD_HEADER (drop at bs) in
         if record_header ! 0 \<noteq> HANDSHAKE
         then Some \<lparr>payload = gathered, consumed = at, pending_end = None\<rparr>
         else
           (let len = from_be_bytes [record_header ! 3, record_header ! 4];
                end_at = at + RECORD_HEADER + len
            in if len > MAX_RECORD then None
               else if end_at > length bs
               then Some \<lparr>payload = gathered, consumed = at, pending_end = Some end_at\<rparr>
               else assemble_from bs (gathered @ take len (drop (at + RECORD_HEADER) bs)) end_at)))"
  by pat_completeness auto
termination by (relation "measure (\<lambda>(bs, gathered, at). length bs - at)") (auto simp: RECORD_HEADER_def Let_def)

declare assemble_from.simps [simp del]

definition assemble :: "bytes \<Rightarrow> assembled option" where
  "assemble bs = assemble_from bs [] 0"

datatype hello = NotTls | Want nat | Complete

definition have_hello :: "bytes \<Rightarrow> hello" where
  "have_hello bs =
     (if bs = [] then Want RECORD_HEADER
      else if hd bs \<noteq> HANDSHAKE then NotTls
      else
        (case assemble bs of
           None \<Rightarrow> NotTls
         | Some a \<Rightarrow>
             if length (payload a) < HANDSHAKE_HEADER
             then Want (case pending_end a of Some p \<Rightarrow> p | None \<Rightarrow> consumed a + RECORD_HEADER)
             else
               (let needed = HANDSHAKE_HEADER + from_be_bytes (take 3 (drop 1 (payload a))) in
                if length (payload a) \<ge> needed then Complete
                else
                  (let missing = needed - length (payload a)
                   in Want (case pending_end a of
                        Some p \<Rightarrow> max p (consumed a + missing)
                      | None \<Rightarrow> consumed a + RECORD_HEADER + missing)))))"

section \<open>The reader\<close>

record reader =
  rd_bytes :: bytes
  rd_at :: nat

definition new_rd :: "bytes \<Rightarrow> reader" where
  "new_rd bs = \<lparr>rd_bytes = bs, rd_at = 0\<rparr>"

definition rd_take :: "nat \<Rightarrow> reader \<Rightarrow> (bytes \<times> reader) option" where
  \<comment> \<open>\<open>checked_add\<close> never overflows: the cursor is in a slice and the counts are below \<open>2 ^ 24\<close>\<close>
  "rd_take count r =
     (let end_at = rd_at r + count in
      if end_at > length (rd_bytes r) then None
      else Some (take count (drop (rd_at r) (rd_bytes r)), r\<lparr>rd_at := end_at\<rparr>))"

definition rd_skip :: "nat \<Rightarrow> reader \<Rightarrow> reader option" where
  "rd_skip count r = map_option snd (rd_take count r)"

definition rd_u8 :: "reader \<Rightarrow> (u8 \<times> reader) option" where
  "rd_u8 r = map_option (\<lambda>(b, r). (b ! 0, r)) (rd_take 1 r)"

definition rd_u16 :: "reader \<Rightarrow> (nat \<times> reader) option" where
  "rd_u16 r = map_option (\<lambda>(b, r). (from_be_bytes b, r)) (rd_take 2 r)"

definition rd_u24 :: "reader \<Rightarrow> (nat \<times> reader) option" where
  "rd_u24 r = map_option (\<lambda>(b, r). (from_be_bytes b, r)) (rd_take 3 r)"

definition rd_left :: "reader \<Rightarrow> nat" where
  "rd_left r = length (rd_bytes r) - rd_at r"

lemma rd_take_left: "rd_take n r = Some (x, r') \<Longrightarrow> rd_left r' = rd_left r - n \<and> n \<le> rd_left r"
  by (auto simp: rd_take_def rd_left_def Let_def split: if_splits)

lemma rd_u8_left: "rd_u8 r = Some (x, r') \<Longrightarrow> rd_left r' = rd_left r - 1 \<and> 1 \<le> rd_left r"
  by (auto simp: rd_u8_def dest: rd_take_left)

lemma rd_u16_left: "rd_u16 r = Some (x, r') \<Longrightarrow> rd_left r' = rd_left r - 2 \<and> 2 \<le> rd_left r"
  by (auto simp: rd_u16_def dest: rd_take_left)

section \<open>The name\<close>

definition is_ascii :: "bytes \<Rightarrow> bool" where
  "is_ascii bs \<longleftrightarrow> list_all (\<lambda>b. unat b < 128) bs"

definition ascii_text :: "bytes \<Rightarrow> str" where
  \<comment> \<open>\<open>String::from_utf8_lossy\<close> of ASCII bytes\<close>
  "ascii_text bs = map (\<lambda>b. char_of (unat b)) bs"

function names_from :: "reader \<Rightarrow> str option" where
  \<comment> \<open>the loop of \<open>first_host_name\<close>\<close>
  "names_from r =
     (case rd_u8 r of
        None \<Rightarrow> None
      | Some (kind, r1) \<Rightarrow>
          (case rd_u16 r1 of
             None \<Rightarrow> None
           | Some (len, r2) \<Rightarrow>
               (case rd_take len r2 of
                  None \<Rightarrow> None
                | Some (name, r3) \<Rightarrow>
                    if kind = NAME_TYPE_HOST
                    then (if is_ascii name then Some (to_lower (ascii_text name)) else None)
                    else names_from r3)))"
  by pat_completeness auto
termination
  by (relation "measure rd_left") (auto dest!: rd_take_left rd_u8_left rd_u16_left)

declare names_from.simps [simp del]

definition first_host_name :: "bytes \<Rightarrow> str option" where
  "first_host_name body =
     do { (len, r) \<leftarrow> rd_u16 (new_rd body);
          (names, _) \<leftarrow> rd_take len r;
          names_from (new_rd names) }"

function extensions_from :: "reader \<Rightarrow> str option" where
  \<comment> \<open>the loop over the extensions in \<open>server_name\<close>\<close>
  "extensions_from r =
     (case rd_u16 r of
        None \<Rightarrow> None
      | Some (kind, r1) \<Rightarrow>
          (case rd_u16 r1 of
             None \<Rightarrow> None
           | Some (len, r2) \<Rightarrow>
               (case rd_take len r2 of
                  None \<Rightarrow> None
                | Some (body, r3) \<Rightarrow>
                    if kind = EXTENSION_SERVER_NAME then first_host_name body else extensions_from r3)))"
  by pat_completeness auto
termination
  by (relation "measure rd_left") (auto dest!: rd_take_left rd_u16_left)

declare extensions_from.simps [simp del]

definition hello_name :: "bytes \<Rightarrow> str option" where
  \<comment> \<open>the handshake message, joined\<close>
  "hello_name joined =
     do { (kind, r) \<leftarrow> rd_u8 (new_rd joined);
          if kind \<noteq> CLIENT_HELLO then None
          else do {
            (len, r) \<leftarrow> rd_u24 r;
            (body, _) \<leftarrow> rd_take len r;
            h \<leftarrow> rd_skip (2 + 32) (new_rd body);
            (session, h) \<leftarrow> rd_u8 h;
            h \<leftarrow> rd_skip (unat session) h;
            (ciphers, h) \<leftarrow> rd_u16 h;
            h \<leftarrow> rd_skip ciphers h;
            (compression, h) \<leftarrow> rd_u8 h;
            h \<leftarrow> rd_skip (unat compression) h;
            (extensions_length, h) \<leftarrow> rd_u16 h;
            (extensions, _) \<leftarrow> rd_take extensions_length h;
            extensions_from (new_rd extensions) } }"

definition server_name :: "bytes \<Rightarrow> str option" where
  "server_name bs = do { a \<leftarrow> assemble bs; hello_name (payload a) }"

section \<open>What a client writes\<close>

definition vec :: "nat \<Rightarrow> bytes \<Rightarrow> bytes" where
  \<comment> \<open>a vector: its length in so many bytes, and its content\<close>
  "vec k bs = be_bytes k (length bs) @ bs"

definition write_extension :: "nat \<times> bytes \<Rightarrow> bytes" where
  "write_extension e = be_bytes 2 (fst e) @ vec 2 (snd e)"

definition write_name :: "u8 \<times> bytes \<Rightarrow> bytes" where
  "write_name n = fst n # vec 2 (snd n)"

definition write_names :: "(u8 \<times> bytes) list \<Rightarrow> bytes" where
  "write_names ns = vec 2 (concat (map write_name ns))"

record client_hello =
  ch_fixed :: bytes
  ch_session :: bytes
  ch_ciphers :: bytes
  ch_compression :: bytes
  ch_extensions :: "(nat \<times> bytes) list"

definition hello_body :: "client_hello \<Rightarrow> bytes" where
  "hello_body h = ch_fixed h @ vec 1 (ch_session h) @ vec 2 (ch_ciphers h) @ vec 1 (ch_compression h)
     @ vec 2 (concat (map write_extension (ch_extensions h)))"

definition write_hello :: "client_hello \<Rightarrow> bytes" where
  "write_hello h = CLIENT_HELLO # vec 3 (hello_body h)"

definition well_sized :: "client_hello \<Rightarrow> bool" where
  \<comment> \<open>every length fits the field it is written in\<close>
  "well_sized h \<longleftrightarrow>
     length (ch_fixed h) = 34 \<and> length (ch_session h) < 256 \<and> length (ch_ciphers h) < 65536
     \<and> length (ch_compression h) < 256
     \<and> list_all (\<lambda>(k, b). k < 65536 \<and> length b < 65536) (ch_extensions h)
     \<and> length (concat (map write_extension (ch_extensions h))) < 65536"

definition names_host :: "client_hello \<Rightarrow> bytes \<Rightarrow> bool" where
  \<comment> \<open>the first server name extension has this as its first host name\<close>
  "names_host h name \<longleftrightarrow>
     (\<exists>before others further after. ch_extensions h = before @ (EXTENSION_SERVER_NAME, write_names (others @ (NAME_TYPE_HOST, name) # further)) # after
        \<and> list_all (\<lambda>(k, b). k \<noteq> EXTENSION_SERVER_NAME) before
        \<and> list_all (\<lambda>(k, b). k \<noteq> NAME_TYPE_HOST \<and> length b < 65536) others)"

definition reader_at :: "bytes \<Rightarrow> bytes \<Rightarrow> reader" where
  "reader_at done rest = \<lparr>rd_bytes = done @ rest, rd_at = length done\<rparr>"

lemma new_rd_at: "new_rd bs = reader_at [] bs"
  by (simp add: new_rd_def reader_at_def)

lemma rd_take_at:
  assumes "length x = n"
  shows "rd_take n (reader_at done (x @ rest)) = Some (x, reader_at (done @ x) rest)"
  using assms by (simp add: rd_take_def reader_at_def)

lemma rd_take_all: "length x = n \<Longrightarrow> rd_take n (reader_at done x) = Some (x, reader_at (done @ x) [])"
  using rd_take_at [of x n "done" "[]"] by simp

lemma rd_skip_at: "length x = n \<Longrightarrow> rd_skip n (reader_at done (x @ rest)) = Some (reader_at (done @ x) rest)"
  by (simp add: rd_skip_def rd_take_at)

lemma rd_u8_at: "rd_u8 (reader_at done (b # rest)) = Some (b, reader_at (done @ [b]) rest)"
  using rd_take_at [of "[b]" 1 "done" rest] by (simp add: rd_u8_def)

lemma rd_number_at:
  "n < 65536 \<Longrightarrow> rd_u16 (reader_at done (be_bytes 2 n @ rest)) = Some (n, reader_at (done @ be_bytes 2 n) rest)"
  "n < 16777216 \<Longrightarrow> rd_u24 (reader_at done (be_bytes 3 n @ rest)) = Some (n, reader_at (done @ be_bytes 3 n) rest)"
  by (simp_all add: rd_u16_def rd_u24_def rd_take_at from_be_bytes_be_bytes)

lemma be_bytes_1: "n < 256 \<Longrightarrow> \<exists>b. be_bytes 1 n = [b] \<and> unat b = n"
  by (intro exI [of _ "word_of_nat n"]) (simp add: unat_of_nat)

lemma rd_byte_at:
  assumes "n < 256"
  shows "\<exists>b. rd_u8 (reader_at done (be_bytes 1 n @ rest)) = Some (b, reader_at (done @ be_bytes 1 n) rest) \<and> unat b = n"
proof -
  obtain b where "be_bytes 1 n = [b]" "unat b = n" using be_bytes_1 [OF assms] by blast
  then show ?thesis by (simp add: rd_u8_at)
qed

lemma rd_u16_end: "rd_u16 (reader_at done []) = None"
  by (simp add: rd_u16_def rd_take_def reader_at_def)

lemma rd_u8_end: "rd_u8 (reader_at done []) = None"
  by (simp add: rd_u8_def rd_take_def reader_at_def)

lemma names_from_at:
  assumes "list_all (\<lambda>(k, b). k \<noteq> NAME_TYPE_HOST \<and> length b < 65536) others" and "length name < 65536"
  shows "names_from (reader_at done (concat (map write_name others) @ write_name (NAME_TYPE_HOST, name) @ rest))
    = (if is_ascii name then Some (to_lower (ascii_text name)) else None)"
  using assms(1)
proof (induction others arbitrary: "done")
  case Nil
  with assms(2) show ?case
    by (simp add: names_from.simps [of "reader_at _ _"] write_name_def vec_def rd_u8_at rd_number_at rd_take_at)
next
  case (Cons n others)
  obtain k b where n: "n = (k, b)" by force
  with Cons show ?case
    by (simp add: names_from.simps [of "reader_at done _"] write_name_def vec_def rd_u8_at rd_number_at rd_take_at)
qed

lemma first_host_name_vec: "length x < 65536 \<Longrightarrow> first_host_name (vec 2 x) = names_from (new_rd x)"
  by (simp add: first_host_name_def vec_def new_rd_at rd_number_at rd_take_all)

lemma first_host_name_written:
  assumes "list_all (\<lambda>(k, b). k \<noteq> NAME_TYPE_HOST \<and> length b < 65536) others"
    and "length (write_names (others @ (NAME_TYPE_HOST, name) # further)) < 65536"
  shows "first_host_name (write_names (others @ (NAME_TYPE_HOST, name) # further))
    = (if is_ascii name then Some (to_lower (ascii_text name)) else None)"
proof -
  let ?names = "concat (map write_name (others @ (NAME_TYPE_HOST, name) # further))"
  have n: "length ?names < 65536" "length name < 65536" using assms(2) by (simp_all add: write_names_def vec_def write_name_def)
  have "first_host_name (write_names (others @ (NAME_TYPE_HOST, name) # further)) = names_from (new_rd ?names)"
    unfolding write_names_def using n(1) by (rule first_host_name_vec)
  then show ?thesis using names_from_at [OF assms(1) n(2), of "[]"] by (simp add: new_rd_at)
qed

lemma extensions_from_at:
  assumes "list_all (\<lambda>(k, b). k \<noteq> EXTENSION_SERVER_NAME) before"
    and "list_all (\<lambda>(k, b). k < 65536 \<and> length b < 65536) before" and "length body < 65536"
  shows "extensions_from (reader_at done (concat (map write_extension before)
      @ write_extension (EXTENSION_SERVER_NAME, body) @ rest)) = first_host_name body"
  using assms(1,2)
proof (induction before arbitrary: "done")
  case Nil
  with assms(3) show ?case
    by (simp add: extensions_from.simps [of "reader_at _ _"] write_extension_def vec_def rd_number_at rd_take_at
        EXTENSION_SERVER_NAME_def)
next
  case (Cons e before)
  obtain k b where e: "e = (k, b)" by force
  with Cons show ?case
    by (simp add: extensions_from.simps [of "reader_at done _"] write_extension_def vec_def rd_number_at rd_take_at)
qed

lemma hello_body_short: "well_sized h \<Longrightarrow> length (hello_body h) < 16777216"
  by (simp add: well_sized_def hello_body_def vec_def)

lemma hello_name_vec:
  assumes "length fixed = 34" and "length session < 256" and "length ciphers < 65536" and "length compression < 256"
    and "length exts < 65536"
    and "length (fixed @ vec 1 session @ vec 2 ciphers @ vec 1 compression @ vec 2 exts) < 16777216"
  shows "hello_name (CLIENT_HELLO # vec 3 (fixed @ vec 1 session @ vec 2 ciphers @ vec 1 compression @ vec 2 exts))
    = extensions_from (new_rd exts)"
proof -
  let ?body = "fixed @ vec 1 session @ vec 2 ciphers @ vec 1 compression @ vec 2 exts"
  obtain a where a: "be_bytes 1 (length session) = [a]" "unat a = length session" using be_bytes_1 [OF assms(2)] by blast
  obtain b where b: "be_bytes 1 (length compression) = [b]" "unat b = length compression" using be_bytes_1 [OF assms(4)] by blast
  have "rd_take (length ?body) (reader_at (CLIENT_HELLO # be_bytes 3 (length ?body)) ?body)
      = Some (?body, reader_at ((CLIENT_HELLO # be_bytes 3 (length ?body)) @ ?body) [])"
    by (rule rd_take_all) (rule refl)
  then have "hello_name (CLIENT_HELLO # vec 3 ?body) =
    (do { h \<leftarrow> rd_skip (2 + 32) (new_rd ?body);
          (session, h) \<leftarrow> rd_u8 h;
          h \<leftarrow> rd_skip (unat session) h;
          (ciphers, h) \<leftarrow> rd_u16 h;
          h \<leftarrow> rd_skip ciphers h;
          (compression, h) \<leftarrow> rd_u8 h;
          h \<leftarrow> rd_skip (unat compression) h;
          (extensions_length, h) \<leftarrow> rd_u16 h;
          (extensions, _) \<leftarrow> rd_take extensions_length h;
          extensions_from (new_rd extensions) })"
    using rd_number_at(2) [OF assms(6), of "[CLIENT_HELLO]"]
    by (simp only: hello_name_def vec_def new_rd_at rd_u8_at rd_number_at bind.bind_lunit prod.case simp_thms if_False
        append_Nil append_Cons append_assoc)
  also have "\<dots> = extensions_from (new_rd exts)"
    using assms(1-5) a b by (simp add: vec_def new_rd_at rd_skip_at rd_u8_at rd_number_at rd_take_all del: be_bytes.simps)
  finally show ?thesis .
qed

lemma hello_name_written:
  assumes "well_sized h" and "names_host h name" and "is_ascii name"
  shows "hello_name (write_hello h) = Some (to_lower (ascii_text name))"
proof -
  obtain before others others' after
    where x: "ch_extensions h = before @ (EXTENSION_SERVER_NAME, write_names (others @ (NAME_TYPE_HOST, name) # others')) # after"
      "list_all (\<lambda>(k, b). k \<noteq> EXTENSION_SERVER_NAME) before"
      "list_all (\<lambda>(k, b). k \<noteq> NAME_TYPE_HOST \<and> length b < 65536) others"
    using assms(2) by (auto simp: names_host_def)
  let ?body = "write_names (others @ (NAME_TYPE_HOST, name) # others')"
  let ?exts = "concat (map write_extension (ch_extensions h))"
  have s: "length (ch_fixed h) = 34" "length (ch_session h) < 256" "length (ch_ciphers h) < 65536"
    "length (ch_compression h) < 256" "length ?exts < 65536"
    "list_all (\<lambda>(k, b). k < 65536 \<and> length b < 65536) before" "length ?body < 65536"
    using assms(1) x(1) by (auto simp: well_sized_def)
  have e: "extensions_from (new_rd ?exts) = Some (to_lower (ascii_text name))"
    using extensions_from_at [OF x(2) s(6,7), of "[]"] first_host_name_written [OF x(3) s(7)] assms(3)
    by (simp add: x(1) new_rd_at)
  have "hello_name (write_hello h) = extensions_from (new_rd ?exts)"
    unfolding write_hello_def hello_body_def
    by (rule hello_name_vec) (use s hello_body_short [OF assms(1)] in \<open>simp_all add: hello_body_def\<close>)
  with e show ?thesis by simp
qed

section \<open>Framing\<close>

definition write_record :: "bytes \<times> bytes \<Rightarrow> bytes" where
  \<comment> \<open>a legacy version and a piece of the handshake\<close>
  "write_record p = HANDSHAKE # fst p @ vec 2 (snd p)"

definition framed :: "(bytes \<times> bytes) list \<Rightarrow> bytes" where
  "framed ps = concat (map write_record ps)"

definition carried :: "(bytes \<times> bytes) list \<Rightarrow> bytes" where
  "carried ps = concat (map snd ps)"

definition legal :: "(bytes \<times> bytes) list \<Rightarrow> bool" where
  "legal ps \<longleftrightarrow> list_all (\<lambda>(v, p). length v = 2 \<and> length p \<le> MAX_RECORD) ps"

lemma framed_simps [simp]: "framed [] = []" "framed (p # ps) = write_record p @ framed ps" "framed (ps @ qs) = framed ps @ framed qs"
  by (simp_all add: framed_def)

lemma carried_simps [simp]: "carried [] = []" "carried (p # ps) = snd p @ carried ps" "carried (ps @ qs) = carried ps @ carried qs"
  by (simp_all add: carried_def)

lemma legal_Cons: "legal ((v, p) # ps) \<longleftrightarrow> length v = 2 \<and> length p \<le> MAX_RECORD \<and> legal ps"
  by (simp add: legal_def)

lemma legal_append: "legal (ps @ qs) \<longleftrightarrow> legal ps \<and> legal qs"
  by (simp add: legal_def)

lemma length_write_record: "length v = 2 \<Longrightarrow> length (write_record (v, p)) = RECORD_HEADER + length p"
  by (simp add: write_record_def vec_def RECORD_HEADER_def)

lemma record_header:
  assumes "length v = 2" and "length p \<le> MAX_RECORD" and "RECORD_HEADER \<le> n"
  shows "\<exists>v1 v2 l1 l2. take RECORD_HEADER (take n (write_record (v, p)) @ rest) = [HANDSHAKE, v1, v2, l1, l2]
    \<and> from_be_bytes [l1, l2] = length p"
proof -
  obtain v1 v2 where v: "v = [v1, v2]" using assms(1) by (auto simp: length_Suc_conv numeral_2_eq_2)
  have "length (be_bytes 2 (length p)) = 2" by simp
  then obtain l1 l2 where l: "be_bytes 2 (length p) = [l1, l2]" by (auto simp: length_Suc_conv numeral_2_eq_2)
  have "from_be_bytes [l1, l2] = length p"
    using from_be_bytes_be_bytes [of "length p" 2] assms(2) l by (simp add: MAX_RECORD_def)
  moreover have "take RECORD_HEADER (take n (write_record (v, p)) @ rest) = [HANDSHAKE, v1, v2, l1, l2]"
    using assms(3) by (simp add: write_record_def vec_def v l RECORD_HEADER_def take_Cons' min_def)
  ultimately show ?thesis by blast
qed

lemma assemble_whole:
  assumes "length v = 2" and "length p \<le> MAX_RECORD"
  shows "assemble_from (before @ write_record (v, p) @ rest) gathered (length before)
    = assemble_from ((before @ write_record (v, p)) @ rest) (gathered @ p) (length (before @ write_record (v, p)))"
proof -
  obtain v1 v2 l1 l2 where h: "take RECORD_HEADER (write_record (v, p) @ rest) = [HANDSHAKE, v1, v2, l1, l2]"
    and n: "from_be_bytes [l1, l2] = length p"
    using record_header [OF assms, of "length (write_record (v, p))" rest] assms(1) by (auto simp: length_write_record)
  have w: "write_record (v, p) = take RECORD_HEADER (write_record (v, p)) @ p"
    using assms(1) by (simp add: write_record_def vec_def RECORD_HEADER_def)
  have "take (length p) (drop (length before + RECORD_HEADER) (before @ write_record (v, p) @ rest)) = p"
    by (subst w) (simp add: length_write_record assms(1))
  with h n assms show ?thesis
    by (subst assemble_from.simps) (simp add: Let_def length_write_record add.assoc)
qed

lemma assemble_part:
  assumes "length v = 2" and "length p \<le> MAX_RECORD" and "n < RECORD_HEADER + length p"
  shows "assemble_from (before @ take n (write_record (v, p))) gathered (length before)
    = Some \<lparr>payload = gathered, consumed = length before,
        pending_end = if n < RECORD_HEADER then None else Some (length before + RECORD_HEADER + length p)\<rparr>"
proof (cases "n < RECORD_HEADER")
  case True
  then show ?thesis using assms by (subst assemble_from.simps) (simp add: length_write_record)
next
  case False
  then obtain v1 v2 l1 l2 where h: "take RECORD_HEADER (take n (write_record (v, p))) = [HANDSHAKE, v1, v2, l1, l2]"
    and l: "from_be_bytes [l1, l2] = length p"
    using record_header [OF assms(1,2), of n "[]"] by auto
  with False assms show ?thesis
    by (subst assemble_from.simps) (simp add: Let_def length_write_record del: take_take)
qed

lemma assemble_other:
  assumes "rest = [] \<or> hd rest \<noteq> HANDSHAKE"
  shows "assemble_from (before @ rest) gathered (length before) = Some \<lparr>payload = gathered, consumed = length before, pending_end = None\<rparr>"
  using assms by (subst assemble_from.simps) (cases rest; simp add: Let_def RECORD_HEADER_def)

lemma assemble_framed:
  assumes "rest = [] \<or> hd rest \<noteq> HANDSHAKE"
  shows "legal ps \<Longrightarrow> assemble_from (before @ framed ps @ rest) gathered (length before)
    = Some \<lparr>payload = gathered @ carried ps, consumed = length (before @ framed ps), pending_end = None\<rparr>"
proof (induction ps arbitrary: before gathered)
  case Nil
  with assemble_other [OF assms] show ?case by simp
next
  case (Cons p ps)
  obtain v q where p: "p = (v, q)" by force
  with Cons.prems have l: "length v = 2" "length q \<le> MAX_RECORD" "legal ps" by (simp_all add: legal_Cons)
  have "assemble_from (before @ framed (p # ps) @ rest) gathered (length before)
      = assemble_from ((before @ write_record p) @ framed ps @ rest) (gathered @ q) (length (before @ write_record p))"
    using assemble_whole [OF l(1,2), of before "framed ps @ rest" gathered] p by simp
  also have "\<dots> = Some \<lparr>payload = (gathered @ q) @ carried ps, consumed = length ((before @ write_record p) @ framed ps), pending_end = None\<rparr>"
    by (rule Cons.IH [OF l(3)])
  finally show ?case using p by simp
qed

text \<open>
  The name read is the name the client wrote, however its hello is framed into records and whatever
  follows that is no handshake.
\<close>

theorem name_is_read:
  assumes "well_sized h" and "names_host h name" and "is_ascii name"
    and "legal ps" and "carried ps = write_hello h" and "rest = [] \<or> hd rest \<noteq> HANDSHAKE"
  shows "server_name (framed ps @ rest) = Some (to_lower (ascii_text name))"
  using assemble_framed [OF assms(6,4), of "[]" "[]"] assms(5) hello_name_written [OF assms(1-3)]
  by (simp add: server_name_def assemble_def)

section \<open>Waiting\<close>

lemma assemble_prefix:
  "legal ps \<Longrightarrow> n \<le> length (framed ps) \<Longrightarrow>
   \<exists>ps1 ps2 p_end. ps = ps1 @ ps2 \<and> length (framed ps1) \<le> n
     \<and> assemble_from (before @ take n (framed ps)) gathered (length before)
        = Some \<lparr>payload = gathered @ carried ps1, consumed = length (before @ framed ps1), pending_end = p_end\<rparr>
     \<and> (case p_end of None \<Rightarrow> n < length (framed ps1) + RECORD_HEADER
        | Some e \<Rightarrow> length before + n < e \<and> e \<le> length (before @ framed ps))"
proof (induction ps arbitrary: before gathered n)
  case Nil
  with assemble_other [of "[]" before gathered] show ?case
    by (intro exI [of _ "[]"] exI [of _ None]) (simp add: RECORD_HEADER_def)
next
  case (Cons p ps)
  obtain v q where p: "p = (v, q)" by force
  with Cons.prems have l: "length v = 2" "length q \<le> MAX_RECORD" "legal ps" by (simp_all add: legal_Cons)
  note w = length_write_record [OF l(1), of q]
  show ?case
  proof (cases "n < RECORD_HEADER + length q")
    case True
    with w have t: "take n (framed (p # ps)) = take n (write_record (v, q))" by (simp add: p)
    show ?thesis
      by (intro exI [of _ "[]"] exI [of _ "p # ps"] exI [of _ "if n < RECORD_HEADER then None else Some (length before + RECORD_HEADER + length q)"])
        (use assemble_part [OF l(1,2) True, of before gathered] True w p t in \<open>simp del: framed_simps(2)\<close>,
         use p w True in simp)
  next
    case False
    then have t: "take n (framed (p # ps)) = write_record (v, q) @ take (n - (RECORD_HEADER + length q)) (framed ps)"
      using w by (simp add: p)
    let ?n = "n - (RECORD_HEADER + length q)" and ?before = "before @ write_record (v, q)"
    have "?n \<le> length (framed ps)" using Cons.prems(2) w by (simp add: p)
    from Cons.IH [OF l(3) this, of ?before "gathered @ q"]
    obtain ps1 ps2 p_end where i: "ps = ps1 @ ps2" "length (framed ps1) \<le> ?n"
      "assemble_from (?before @ take ?n (framed ps)) (gathered @ q) (length ?before)
        = Some \<lparr>payload = (gathered @ q) @ carried ps1, consumed = length (?before @ framed ps1), pending_end = p_end\<rparr>"
      "case p_end of None \<Rightarrow> ?n < length (framed ps1) + RECORD_HEADER
        | Some e \<Rightarrow> length ?before + ?n < e \<and> e \<le> length (?before @ framed ps)"
      by blast
    have "assemble_from (before @ take n (framed (p # ps))) gathered (length before)
        = Some \<lparr>payload = gathered @ carried (p # ps1), consumed = length (before @ framed (p # ps1)), pending_end = p_end\<rparr>"
      using assemble_whole [OF l(1,2), of before "take (n - (RECORD_HEADER + length q)) (framed ps)" gathered] i(3) t p by simp
    moreover have "length (framed (p # ps1)) \<le> n" using i(2) False w p by simp
    moreover have "case p_end of None \<Rightarrow> n < length (framed (p # ps1)) + RECORD_HEADER
        | Some e \<Rightarrow> length before + n < e \<and> e \<le> length (before @ framed (p # ps))"
      using i(4) False w p by (auto split: option.splits)
    ultimately show ?thesis using i(1) by (intro exI [of _ "p # ps1"] exI [of _ ps2] exI [of _ p_end]) simp
  qed
qed

definition is_message :: "bytes \<Rightarrow> bool" where
  \<comment> \<open>a handshake message: a type, a 24-bit length and that many bytes\<close>
  "is_message m \<longleftrightarrow> HANDSHAKE_HEADER \<le> length m \<and> length m = HANDSHAKE_HEADER + from_be_bytes (take 3 (drop 1 m))"

lemma write_hello_message: "well_sized h \<Longrightarrow> is_message (write_hello h)"
  using hello_body_short [of h] from_be_bytes_be_bytes [of "length (hello_body h)" 3]
  by (simp add: is_message_def write_hello_def vec_def HANDSHAKE_HEADER_def)

lemma framed_long: "legal ps \<Longrightarrow> length (carried ps) + (if ps = [] then 0 else RECORD_HEADER) \<le> length (framed ps)"
proof (induction ps)
  case (Cons p ps)
  obtain v q where "p = (v, q)" by force
  with Cons show ?case by (auto simp: legal_Cons length_write_record split: if_splits)
qed simp

lemma have_hello_prefix:
  assumes "legal ps" and "is_message (carried ps)" and "n \<le> length (framed ps)"
  shows "case have_hello (take n (framed ps)) of
      NotTls \<Rightarrow> False
    | Want w \<Rightarrow> n < w \<and> w \<le> length (framed ps)
    | Complete \<Rightarrow> \<exists>a. assemble (take n (framed ps)) = Some a \<and> payload a = carried ps"
proof -
  obtain v q ps' where ps: "ps = (v, q) # ps'"
    using assms(2) by (cases ps) (auto simp: is_message_def HANDSHAKE_HEADER_def)
  then have five: "RECORD_HEADER \<le> length (framed ps)" using assms(1) by (simp add: legal_Cons length_write_record)
  show ?thesis
  proof (cases "n = 0")
    case True
    with five show ?thesis by (simp add: have_hello_def RECORD_HEADER_def)
  next
    case False
    then have start: "take n (framed ps) \<noteq> []" "hd (take n (framed ps)) = HANDSHAKE"
      by (simp_all add: ps write_record_def)
    obtain ps1 ps2 p_end where a: "ps = ps1 @ ps2" "length (framed ps1) \<le> n"
      "assemble (take n (framed ps)) = Some \<lparr>payload = carried ps1, consumed = length (framed ps1), pending_end = p_end\<rparr>"
      "case p_end of None \<Rightarrow> n < length (framed ps1) + RECORD_HEADER | Some e \<Rightarrow> n < e \<and> e \<le> length (framed ps)"
      using assemble_prefix [OF assms(1,3), of "[]" "[]"]
      unfolding assemble_def append_Nil list.size add_0 by blast
    have rest: "length (carried ps2) + (if ps2 = [] then 0 else RECORD_HEADER) \<le> length (framed ps2)"
      using assms(1) a(1) by (simp add: framed_long legal_append)
    have whole: "length (framed ps) = length (framed ps1) + length (framed ps2)"
      "length (carried ps) = length (carried ps1) + length (carried ps2)" by (simp_all add: a(1))
    show ?thesis
    proof (cases "length (carried ps1) < HANDSHAKE_HEADER")
      case True
      then have "ps2 \<noteq> []" using assms(2) a(1) by (auto simp: is_message_def)
      with True start a(3,4) rest whole show ?thesis by (auto simp: have_hello_def split: option.splits)
    next
      case False
      then have "take 3 (drop 1 (carried ps)) = take 3 (drop 1 (carried ps1))"
        by (simp add: a(1) HANDSHAKE_HEADER_def)
      then have needed: "HANDSHAKE_HEADER + from_be_bytes (take 3 (drop 1 (carried ps1))) = length (carried ps)"
        using assms(2) by (simp add: is_message_def)
      show ?thesis
      proof (cases "length (carried ps) \<le> length (carried ps1)")
        case True
        then have "carried ps2 = []" using whole by simp
        then have "carried ps = carried ps1" by (simp add: a(1))
        with True False start a(3) needed show ?thesis by (simp add: have_hello_def Let_def)
      next
        case short: False
        then have "ps2 \<noteq> []" using whole by auto
        with short False start a(3,4) needed rest whole show ?thesis
          by (auto simp: have_hello_def Let_def split: option.splits)
      qed
    qed
  qed
qed

text \<open>
  C32: waiting for a hello never stalls and never gives up on one that is still coming: of any part of
  it, however it is framed, what is asked for is more than is there and no more than the client
  sends; and once it is held to be complete, the name in it is the client's.
\<close>

theorem wait_is_never_too_long:
  assumes "well_sized h" and "names_host h name" and "is_ascii name"
    and "legal ps" and "carried ps = write_hello h" and "n \<le> length (framed ps)"
  shows "case have_hello (take n (framed ps)) of
      NotTls \<Rightarrow> False
    | Want w \<Rightarrow> n < w \<and> w \<le> length (framed ps)
    | Complete \<Rightarrow> server_name (take n (framed ps)) = Some (to_lower (ascii_text name))"
proof -
  have "is_message (carried ps)" using write_hello_message [OF assms(1)] assms(5) by simp
  from have_hello_prefix [OF assms(4) this assms(6)] hello_name_written [OF assms(1-3)] assms(5)
  show ?thesis by (auto simp: server_name_def split: hello.splits)
qed

text \<open>
  A name is never read from less than a whole hello: what names a host has also been taken for
  complete.
\<close>

lemma rd_take_new: "rd_take n (new_rd bs) = (if n \<le> length bs then Some (take n bs, \<lparr>rd_bytes = bs, rd_at = n\<rparr>) else None)"
  by (simp add: rd_take_def new_rd_def Let_def)

lemma hello_name_whole:
  assumes "hello_name m = Some name"
  shows "HANDSHAKE_HEADER + from_be_bytes (take 3 (drop 1 m)) \<le> length m"
proof -
  obtain k r where k: "rd_u8 (new_rd m) = Some (k, r)" using assms by (auto simp: hello_name_def bind_eq_Some_conv)
  then have r: "r = \<lparr>rd_bytes = m, rd_at = 1\<rparr>" "1 \<le> length m"
    by (auto simp: rd_u8_def rd_take_def new_rd_def Let_def Suc_le_eq split: if_splits)
  obtain len r2 x where l: "rd_u24 r = Some (len, r2)" "rd_take len r2 = Some x"
    using assms k by (auto simp: hello_name_def bind_eq_Some_conv split: if_splits)
  then have "4 \<le> length m" "len = from_be_bytes (take 3 (drop 1 m))" "r2 = \<lparr>rd_bytes = m, rd_at = 4\<rparr>"
    using r by (auto simp: rd_u24_def rd_take_def Let_def split: if_splits)
  with l(2) show ?thesis by (auto simp: rd_take_def Let_def HANDSHAKE_HEADER_def split: if_splits)
qed

theorem no_name_from_a_part:
  assumes "server_name bs = Some name"
  shows "have_hello bs = Complete"
proof -
  obtain a where a: "assemble bs = Some a" "hello_name (payload a) = Some name"
    using assms by (auto simp: server_name_def bind_eq_Some_conv)
  note whole = hello_name_whole [OF a(2)]
  have "bs \<noteq> [] \<and> hd bs = HANDSHAKE"
  proof (rule ccontr)
    assume "\<not> ?thesis"
    then have "assemble bs = Some \<lparr>payload = [], consumed = 0, pending_end = None\<rparr>"
      using assemble_other [of bs "[]" "[]"] by (auto simp: assemble_def)
    with a(1) have "payload a = []" by auto
    with whole show False by (simp add: HANDSHAKE_HEADER_def)
  qed
  with a whole show ?thesis by (simp add: have_hello_def Let_def)
qed

text \<open>The witnesses read the hello of a client that offers one name, framed as two records.\<close>

definition small_hello :: client_hello where
  "small_hello = \<lparr>ch_fixed = replicate 34 7, ch_session = [], ch_ciphers = [1, 2], ch_compression = [0],
     ch_extensions = [(10, [1]), (0, write_names [(0, [65, 46, 98])])]\<rparr>"

definition small_records :: "(bytes \<times> bytes) list" where
  "small_records = [([3, 1], take 50 (write_hello small_hello)), ([3, 3], drop 50 (write_hello small_hello))]"

lemma small_hello_ok:
  "well_sized small_hello" "names_host small_hello [65, 46, 98]" "is_ascii [65, 46, 98]" "legal small_records"
  "carried small_records = write_hello small_hello" "to_lower (ascii_text [65, 46, 98]) = ''a.b''"
proof -
  show "names_host small_hello [65, 46, 98]"
    unfolding names_host_def
    by (rule exI [of _ "[(10, [1])]"], rule exI [of _ "[]"], rule exI [of _ "[]"], rule exI [of _ "[]"])
      (simp add: small_hello_def EXTENSION_SERVER_NAME_def NAME_TYPE_HOST_def)
  show "carried small_records = write_hello small_hello" by (simp add: small_records_def)
  show "well_sized small_hello" "is_ascii [65, 46, 98]" "legal small_records"
    "to_lower (ascii_text [65, 46, 98]) = ''a.b''" by code_simp+
qed

theorem name_is_read_witness: "server_name (framed small_records @ [20, 3, 3]) = Some ''a.b''"
  using name_is_read [OF small_hello_ok(1-5), of "[20, 3, 3]"] small_hello_ok(6) by (simp add: HANDSHAKE_def)

theorem wait_is_never_too_long_witness:
  "have_hello (take 60 (framed small_records)) = Want 74 \<and> 74 \<le> length (framed small_records)"
proof -
  have "have_hello (take 60 (framed small_records)) = Want 74" "(60 :: nat) \<le> length (framed small_records)" by code_simp+
  with wait_is_never_too_long [OF small_hello_ok(1-5), of 60] show ?thesis by simp
qed

theorem no_name_from_a_part_witness: "have_hello (framed small_records) = Complete"
proof -
  have "server_name (framed small_records) = Some ''a.b''" by code_simp
  then show ?thesis by (rule no_name_from_a_part)
qed

text \<open>
  A hello that stops in the middle and is followed by something else is waited for although what is
  asked for has long arrived, until the time is up.
\<close>

lemma wait_for_what_is_here: "have_hello [22, 3, 1, 0, 1, 1, 21, 3, 3, 0, 2, 1, 0] = Want 11"
  by code_simp

end
