(* ===== verification/Mappings.thy ===== *)
theory Mappings
  imports Prelude "HOL-Library.Mapping" "HOL-Library.AList_Mapping" "HOL-Library.Char_ord" "HOL-Library.List_Lexorder"
begin

text \<open>
  What the components that keep a \<open>BTreeMap\<close> share: finite maps as \<open>Mapping\<close>s, executable as
  association lists, and strings in the order Rust compares them.
\<close>

lemma lookup_without: "Mapping.lookup (Mapping.delete k m) j = (if j = k then None else Mapping.lookup m j)"
  by (cases "j = k") (simp_all add: lookup_delete lookup_delete_neq)

lemma lookup_delete_Some: "Mapping.lookup (Mapping.delete k m) j = Some v \<Longrightarrow> Mapping.lookup m j = Some v"
  by (simp add: lookup_without split: if_splits)

lemma update_same: "Mapping.lookup m h = Some s \<Longrightarrow> Mapping.update h s m = m"
  by (rule mapping_eqI) (auto simp: lookup_update')

lemma lookup_fold_update:
  "Mapping.lookup (fold (\<lambda>h. Mapping.update h v) ks m) k = (if k \<in> set ks then Some v else Mapping.lookup m k)"
  by (induction ks arbitrary: m) (auto simp: lookup_update')

end
