(* ===== verification/Passthrough.thy ===== *)
theory Passthrough
  imports Hello Mappings Fetch Interceptor Metrics
begin

text \<open>
  \<open>src/proxy/src/passthrough.rs\<close>: the hosts that are not decrypted. What somebody wrote down and
  what the fetched lists say cover their subdomains; what was learned from a challenge is exact,
  expires and is kept on disk by name. A \<open>BTreeMap\<close> is a mapping, an \<open>Instant\<close> a number of
  seconds, the JSON coder of a list of names a parameter. From \<open>tcp.rs\<close>: the loop that peeks at a
  connection, and what becomes of the connection.
\<close>

definition LEARNED_TTL :: nat where "LEARNED_TTL = 7 * 24 * 60 * 60"
definition PASSTHROUGH_CACHE :: list_cache where
  "PASSTHROUGH_CACHE = \<lparr>lc_dir = ''passthrough'', lc_kind = ''passthrough list''\<rparr>"
definition MAX_EXEMPT :: nat where "MAX_EXEMPT = 10000"

definition REGISTRY_LABELS :: "str list" where
  "REGISTRY_LABELS = [''ac'', ''co'', ''com'', ''edu'', ''gen'', ''go'', ''gov'', ''govt'', ''id'', ''in'', ''ltd'',
     ''mil'', ''ne'', ''net'', ''nom'', ''or'', ''org'', ''sch'']"

section \<open>Learned hosts\<close>

definition ascii_str :: "str \<Rightarrow> bool" where
  "ascii_str s \<longleftrightarrow> list_all (\<lambda>c. byte c < 128) s"

definition normalize_host :: "str \<Rightarrow> str option" where
  "normalize_host host =
     (let host = to_lower (trim_end_matches dot (trim host)) in
      if host \<noteq> [] \<and> dot \<in> set host \<and> ascii_str host then Some host else None)"

record learned =
  ln_path :: str
  ln_hosts :: "(str, nat) mapping"

definition load_learned :: "(bytes \<Rightarrow> str list option) \<Rightarrow> str \<Rightarrow> nat \<Rightarrow> files \<Rightarrow> learned" where
  "load_learned dec path now fs =
     \<lparr>ln_path = path,
      ln_hosts = fold (\<lambda>h. Mapping.update h now)
        (List.map_filter normalize_host (case Option.bind (fs path) dec of Some kept \<Rightarrow> kept | None \<Rightarrow> []))
        Mapping.empty\<rparr>"

definition live :: "nat \<Rightarrow> learned \<Rightarrow> learned" where
  "live now l = l\<lparr>ln_hosts := Mapping.filter (\<lambda>_ at. now - at < LEARNED_TTL) (ln_hosts l)\<rparr>"

definition learned_holds :: "nat \<Rightarrow> str \<Rightarrow> learned \<Rightarrow> bool \<times> learned" where
  "learned_holds now host l =
     (case normalize_host host of
        None \<Rightarrow> (False, l)
      | Some h \<Rightarrow> (Mapping.lookup (ln_hosts (live now l)) h \<noteq> None, live now l))"

definition save_learned :: "(str list \<Rightarrow> bytes option) \<Rightarrow> bool \<Rightarrow> learned \<Rightarrow> files \<Rightarrow> files" where
  \<comment> \<open>the names in their order; \<open>disk::replace\<close> publishes all of them or fails\<close>
  "save_learned enc granted l fs =
     (case enc (Mapping.ordered_keys (ln_hosts l)) of
        None \<Rightarrow> fs
      | Some json \<Rightarrow> replace_file granted (ln_path l) json fs)"

definition learned_add :: "(str list \<Rightarrow> bytes option) \<Rightarrow> bool \<Rightarrow> nat \<Rightarrow> nat \<Rightarrow> str \<Rightarrow> learned \<Rightarrow> files \<Rightarrow> bool \<times> learned \<times> files" where
  \<comment> \<open>the clock is read for the sweep and again for the entry\<close>
  "learned_add enc granted now stamped host l fs =
     (case normalize_host host of
        None \<Rightarrow> (False, l, fs)
      | Some h \<Rightarrow>
          (let l = live now l; is_new = Mapping.lookup (ln_hosts l) h = None;
               l = l\<lparr>ln_hosts := Mapping.update h stamped (ln_hosts l)\<rparr>
           in (is_new, l, save_learned enc granted l fs)))"

definition learned_remove :: "(str list \<Rightarrow> bytes option) \<Rightarrow> bool \<Rightarrow> nat \<Rightarrow> str \<Rightarrow> learned \<Rightarrow> files \<Rightarrow> bool \<times> learned \<times> files" where
  "learned_remove enc granted now host l fs =
     (case normalize_host host of
        None \<Rightarrow> (False, l, fs)
      | Some h \<Rightarrow>
          (let l = live now l; removed = Mapping.lookup (ln_hosts l) h \<noteq> None;
               l = l\<lparr>ln_hosts := Mapping.delete h (ln_hosts l)\<rparr>
           in (removed, l, if removed then save_learned enc granted l fs else fs)))"

definition learned_any :: "nat \<Rightarrow> learned \<Rightarrow> bool \<times> learned" where
  "learned_any now l = (\<not> Mapping.is_empty (ln_hosts (live now l)), live now l)"

definition learned_all :: "nat \<Rightarrow> learned \<Rightarrow> str list \<times> learned" where
  "learned_all now l = (Mapping.ordered_keys (ln_hosts (live now l)), live now l)"

section \<open>Challenges\<close>

definition is_a_challenge :: "nat \<Rightarrow> headers \<Rightarrow> bool" where
  "is_a_challenge status hs =
     (let lowered = (\<lambda>name. map_option (\<lambda>v. to_lower (trim v)) (header hs name)) in
      if lowered ''cf-mitigated'' = Some ''challenge'' then True
      else if status \<notin> {403, 503} then False
      else (case lowered ''server'' of None \<Rightarrow> False | Some s \<Rightarrow> contains s ''cloudflare'')
         \<and> list_ex (\<lambda>(n, v). eq_ci n ''set-cookie'' \<and> contains (to_lower v) ''cf_chl'') hs)"

definition watch_head :: "bool \<Rightarrow> (str list \<Rightarrow> bytes option) \<Rightarrow> bool \<Rightarrow> nat \<Rightarrow> nat
    \<Rightarrow> proxy_request \<Rightarrow> response_head \<Rightarrow> learned \<Rightarrow> files \<Rightarrow> learned \<times> files" where
  \<comment> \<open>the \<open>Watcher\<close>'s \<open>on_response_head\<close>; the head is only read\<close>
  "watch_head enabled enc granted now stamped req head l fs =
     (if \<not> enabled \<or> \<not> is_a_challenge (hd_status head) (hd_headers head) then (l, fs)
      else snd (learned_add enc granted now stamped (host_of (rq_url req)) l fs))"

definition watcher_hooks :: "bool \<Rightarrow> (str list \<Rightarrow> bytes option) \<Rightarrow> bool \<Rightarrow> nat \<Rightarrow> nat \<Rightarrow> (learned \<times> files) hooks" where
  "watcher_hooks enabled enc granted now stamped = default_hooks\<lparr>
     on_response_head_hook := \<lambda>req head (l, fs). (head, watch_head enabled enc granted now stamped req head l fs),
     wants_body_hook := \<lambda>req head w. False\<rparr>"

section \<open>Lists\<close>

definition is_public_suffix :: "str \<Rightarrow> bool" where
  "is_public_suffix host =
     (case split_on (\<lambda>c. c = dot) host of
        [second, tld] \<Rightarrow> length tld = 2 \<and> second \<in> set REGISTRY_LABELS
      | _ \<Rightarrow> False)"

definition entry :: "str \<Rightarrow> str option" where
  "entry raw =
     (let raw = (case strip_prefix raw ''*.'' of Some r \<Rightarrow> r | None \<Rightarrow> raw) in
      case Host.normalize raw of
        None \<Rightarrow> None
      | Some host \<Rightarrow>
          if length host > 253 \<or> list_ex (\<lambda>label. length label > 63) (split_on (\<lambda>c. c = dot) host) then None
          else if is_public_suffix host then None else Some host)"

definition tabbed_hash :: str where "tabbed_hash = [CHR 0x09, CHR ''#'']"

definition line_names :: "str \<Rightarrow> str list" where
  \<comment> \<open>the names on one line\<close>
  "line_names line =
     (let line = trim line in
      if line = [] \<or> starts_with line ''#'' \<or> starts_with line ''!'' then []
      else
        (let line = (case (case find_sub '' #'' line of Some i \<Rightarrow> Some i | None \<Rightarrow> find_sub tabbed_hash line) of
               Some i \<Rightarrow> trim (take i line)
             | None \<Rightarrow> line);
             named = (case split_once_ws line of Some (address, rest) \<Rightarrow> rest | None \<Rightarrow> line)
         in split_whitespace named))"

definition parse_hosts :: "str \<Rightarrow> str set" where
  "parse_hosts text =
     (let hosts = set (concat (map (\<lambda>line. List.map_filter entry (line_names line)) (lines text)))
      in if card hosts > MAX_EXEMPT then {} else hosts)"

record passthrough =
  pt_hosts :: "str set"
  pt_fetched :: "str set"
  pt_port :: nat

definition cached_hosts :: "config \<Rightarrow> files \<Rightarrow> str set list" where
  "cached_hosts c fs =
     map (\<lambda>url. case Option.bind (fs (list_path PASSTHROUGH_CACHE c url)) from_utf8 of
            Some text \<Rightarrow> parse_hosts text
          | None \<Rightarrow> {}) (passthrough_urls (passthrough_section c))"

definition configured_hosts :: "config \<Rightarrow> str set" where
  "configured_hosts c =
     set (filter ascii_str (filter (\<lambda>h. h \<noteq> [])
       (map (\<lambda>h. to_lower (trim_end_matches dot (trim h))) (passthrough_hosts (passthrough_section c)))))"

definition new_passthrough :: "config \<Rightarrow> files \<Rightarrow> passthrough" where
  "new_passthrough c fs =
     \<lparr>pt_hosts = configured_hosts c, pt_fetched = \<Union> (set (cached_hosts c fs)),
      pt_port = passthrough_port (passthrough_section c)\<rparr>"

definition replace_fetched :: "str set \<Rightarrow> passthrough \<Rightarrow> passthrough" where
  "replace_fetched hosts p = p\<lparr>pt_fetched := hosts\<rparr>"

definition pt_covers :: "passthrough \<Rightarrow> str \<Rightarrow> bool" where
  "pt_covers p host \<longleftrightarrow> covers (pt_hosts p) host \<or> covers (pt_fetched p) host"

definition pt_is_empty :: "passthrough \<Rightarrow> bool" where
  "pt_is_empty p \<longleftrightarrow> Set.is_empty (pt_hosts p) \<and> Set.is_empty (pt_fetched p)"

definition never_decrypt :: "nat \<Rightarrow> passthrough \<Rightarrow> str \<Rightarrow> learned \<Rightarrow> bool \<times> learned" where
  "never_decrypt now p host l = (if pt_covers p host then (True, l) else learned_holds now host l)"

definition passthrough_interval :: "config \<Rightarrow> nat option" where
  \<comment> \<open>seconds\<close>
  "passthrough_interval c =
     (let hours = passthrough_refresh_hours (passthrough_section c) in
      if passthrough_urls (passthrough_section c) \<noteq> [] \<and> hours > 0 then Some (hours * 3600) else None)"

definition update_list :: "str option \<Rightarrow> str set \<Rightarrow> str set" where
  "update_list text held_hosts =
     (case text of
        None \<Rightarrow> held_hosts
      | Some text \<Rightarrow> (let hosts = parse_hosts text in if Set.is_empty hosts then held_hosts else hosts))"

fun refresh_lists :: "io \<Rightarrow> bool \<Rightarrow> config \<Rightarrow> (str \<Rightarrow> headers \<Rightarrow> answer) \<Rightarrow> str list \<Rightarrow> str set list \<Rightarrow> files \<Rightarrow> str set list \<times> files" where
  \<comment> \<open>the loop of \<open>refresh\<close>; a contribution with no URL left stays\<close>
  "refresh_lists w made c origin (url # urls) (h # hs) fs =
     (let (texts, fs) = fetched PASSTHROUGH_CACHE w made c origin [url] fs;
          text = (if texts = [] then None else Some (last texts));
          (others, fs) = refresh_lists w made c origin urls hs fs
      in (update_list text h # others, fs))"
| "refresh_lists w made c origin urls hs fs = (hs, fs)"

definition refresh_passthrough :: "io \<Rightarrow> bool \<Rightarrow> config \<Rightarrow> (str \<Rightarrow> headers \<Rightarrow> answer)
    \<Rightarrow> passthrough \<Rightarrow> str set list \<Rightarrow> files \<Rightarrow> passthrough \<times> str set list \<times> files" where
  "refresh_passthrough w made c origin p held_hosts fs =
     (let (held_hosts, fs) = refresh_lists w made c origin (passthrough_urls (passthrough_section c)) held_hosts fs
      in (replace_fetched (\<Union> (set held_hosts)) p, held_hosts, fs))"

section \<open>What becomes of a connection\<close>

datatype peeked = Peeked bytes | Peek_failed
  \<comment> \<open>\<open>Peek_failed\<close>: an error, or the deadline passed inside the wait\<close>

fun peek_server_name :: "peeked list \<Rightarrow> str option" where
  \<comment> \<open>one observation per turn of the loop; no further one when the deadline has passed\<close>
  "peek_server_name [] = None"
| "peek_server_name (Peek_failed # os) = None"
| "peek_server_name (Peeked bs # os) =
     (if bs = [] then None
      else (case have_hello bs of
              Complete \<Rightarrow> server_name bs
            | NotTls \<Rightarrow> None
            | Want whole \<Rightarrow> if whole > PEEK_BYTES then None else peek_server_name os))"

datatype outcome = Spliced str nat | Refused str | Terminated "str option"

definition check_sni :: "nat \<Rightarrow> passthrough \<Rightarrow> str option \<Rightarrow> learned \<Rightarrow> outcome \<times> learned" where
  \<comment> \<open>the server name callback of \<open>build_acceptor\<close>: \<open>sni\<close> is the name in the handshake\<close>
  "check_sni now p sni l =
     (case sni of
        None \<Rightarrow> (Terminated None, l)
      | Some name \<Rightarrow>
          (case never_decrypt now p name l of (b, l) \<Rightarrow> (if b then Refused name else Terminated (Some name), l)))"

definition serve :: "nat \<Rightarrow> passthrough \<Rightarrow> peeked list \<Rightarrow> str option \<Rightarrow> learned \<Rightarrow> outcome \<times> learned" where
  \<comment> \<open>up to the handshake\<close>
  "serve now p peeks sni l =
     (let (any, l) = (if pt_is_empty p then learned_any now l else (True, l));
          (listed, l) =
            (if any then
               (case peek_server_name peeks of
                  None \<Rightarrow> (None, l)
                | Some host \<Rightarrow> (case never_decrypt now p host l of (b, l) \<Rightarrow> (if b then Some host else None, l)))
             else (None, l))
      in case listed of
           Some host \<Rightarrow> (Spliced host (pt_port p), l)
         | None \<Rightarrow> check_sni now p sni l)"

section \<open>What is learned is forgotten\<close>

lemma lookup_live:
  "Mapping.lookup (ln_hosts (live now l)) h =
     (case Mapping.lookup (ln_hosts l) h of Some at \<Rightarrow> if now - at < LEARNED_TTL then Some at else None | None \<Rightarrow> None)"
  by (simp add: live_def lookup_filter split: option.split)

lemma live_path [simp]: "ln_path (live now l) = ln_path l"
  by (simp add: live_def)

datatype learned_event = Learn str nat nat | Unlearn str nat | Look nat
  \<comment> \<open>with the readings of the clock\<close>

fun readings :: "learned_event \<Rightarrow> nat list" where
  "readings (Learn h now stamped) = [now, stamped]"
| "readings (Unlearn h now) = [now]"
| "readings (Look now) = [now]"

fun after_event :: "learned_event \<Rightarrow> learned \<Rightarrow> learned" where
  "after_event (Learn h now stamped) l = fst (snd (learned_add (\<lambda>_. None) True now stamped h l Map.empty))"
| "after_event (Unlearn h now) l = fst (snd (learned_remove (\<lambda>_. None) True now h l Map.empty))"
| "after_event (Look now) l = live now l"

fun last_learned :: "str \<Rightarrow> learned_event list \<Rightarrow> nat option" where
  \<comment> \<open>of events latest first: when the host was last learned, unless it was removed since\<close>
  "last_learned h [] = None"
| "last_learned h (Learn h' now stamped # es) =
     (if normalize_host h' = Some h then Some stamped else last_learned h es)"
| "last_learned h (Unlearn h' now # es) = (if normalize_host h' = Some h then None else last_learned h es)"
| "last_learned h (Look now # es) = last_learned h es"

lemma learned_add_saving:
  \<comment> \<open>what is kept on disk does not change what is held\<close>
  "fst (snd (learned_add enc granted now stamped h l fs)) = after_event (Learn h now stamped) l"
  "fst (learned_add enc granted now stamped h l fs) = fst (learned_add (\<lambda>_. None) True now stamped h l Map.empty)"
  by (simp_all add: learned_add_def Let_def split: option.split)

lemma learned_remove_saving:
  "fst (snd (learned_remove enc granted now h l fs)) = after_event (Unlearn h now) l"
  by (simp add: learned_remove_def Let_def split: option.split)

lemma after_learn:
  "normalize_host h' = None \<Longrightarrow> after_event (Learn h' n stamped) l = l"
  "normalize_host h' = Some k \<Longrightarrow> Mapping.lookup (ln_hosts (after_event (Learn h' n stamped) l)) h =
     (if k = h then Some stamped else Mapping.lookup (ln_hosts (live n l)) h)"
  by (simp_all add: learned_add_def Let_def lookup_update')

lemma after_unlearn:
  "normalize_host h' = None \<Longrightarrow> after_event (Unlearn h' n) l = l"
  "normalize_host h' = Some k \<Longrightarrow> Mapping.lookup (ln_hosts (after_event (Unlearn h' n) l)) h =
     (if k = h then None else Mapping.lookup (ln_hosts (live n l)) h)"
  by (auto simp: learned_remove_def Let_def lookup_without)

declare after_event.simps(1,2) [simp del]

lemma learned_after:
  assumes "Mapping.lookup (ln_hosts l) h = None"
  shows "sorted (concat (map readings es) @ [now]) \<Longrightarrow>
    Mapping.lookup (ln_hosts (live now (fold after_event es l))) h =
      (case last_learned h (rev es) of Some at \<Rightarrow> if now - at < LEARNED_TTL then Some at else None | None \<Rightarrow> None)"
proof (induction es arbitrary: now rule: rev_induct)
  case Nil
  with assms show ?case by (simp add: lookup_live)
next
  case (snoc e es)
  have le: "n \<le> now" if "n \<in> set (readings e)" for n
    using snoc.prems that by (auto simp: sorted_append)
  have past: "sorted (concat (map readings es) @ [now])" using snoc.prems by (auto simp: sorted_append)
  note IH = snoc.IH [OF past]
  let ?l = "fold after_event es l"
  have look: "Mapping.lookup (ln_hosts (live now m)) h =
      (case r of Some at \<Rightarrow> if now - at < LEARNED_TTL then Some at else None | None \<Rightarrow> None)"
    if "Mapping.lookup (ln_hosts m) h = r" for m r
    using that by (simp add: lookup_live)
  have twice: "Mapping.lookup (ln_hosts (live now m)) h = Mapping.lookup (ln_hosts (live now ?l)) h"
    if "n \<le> now" and "Mapping.lookup (ln_hosts m) h = Mapping.lookup (ln_hosts (live n ?l)) h" for n m
    using that by (auto simp: lookup_live split: option.split)
  show ?case
  proof (cases e)
    case (Learn h' n stamped)
    show ?thesis
    proof (cases "normalize_host h'")
      case None
      with Learn IH show ?thesis by (simp add: after_learn(1))
    next
      case (Some k)
      show ?thesis
      proof (cases "k = h")
        case True
        with Some look [OF after_learn(2) [OF Some, of n stamped ?l h]] Learn show ?thesis by simp
      next
        case False
        with Some twice [OF _ after_learn(2) [OF Some, of n stamped ?l h, simplified False if_False]] Learn le IH
        show ?thesis by simp
      qed
    qed
  next
    case (Unlearn h' n)
    show ?thesis
    proof (cases "normalize_host h'")
      case None
      with Unlearn IH show ?thesis by (simp add: after_unlearn(1))
    next
      case (Some k)
      show ?thesis
      proof (cases "k = h")
        case True
        with Some look [OF after_unlearn(2) [OF Some, of n ?l h]] Unlearn show ?thesis by simp
      next
        case False
        with Some twice [OF _ after_unlearn(2) [OF Some, of n ?l h, simplified False if_False]] Unlearn le IH
        show ?thesis by simp
      qed
    qed
  next
    case (Look n)
    with twice [of n "live n ?l"] le IH show ?thesis by simp
  qed
qed

text \<open>
  A host is left alone because it was learned exactly when it was learned, this very name, less than
  a week ago and not removed since, whatever else was learned, removed or asked about: a clock that
  does not go back is all this needs.
\<close>

theorem learned_for_a_week:
  assumes "sorted (concat (map readings es) @ [now])" and "Mapping.is_empty (ln_hosts l)"
  shows "fst (learned_holds now host (fold after_event es l)) \<longleftrightarrow>
    (\<exists>h at. normalize_host host = Some h \<and> last_learned h (rev es) = Some at \<and> now - at < LEARNED_TTL)"
proof -
  have "Mapping.lookup (ln_hosts l) h = None" for h
    using assms(2) by (auto simp: Mapping.is_empty_def keys_dom_lookup)
  from learned_after [OF this assms(1)] show ?thesis
    by (auto simp: learned_holds_def split: option.splits if_splits)
qed

definition nothing_learned :: learned where
  "nothing_learned = \<lparr>ln_path = ''passthrough.json'', ln_hosts = Mapping.empty\<rparr>"

theorem learned_for_a_week_witness:
  "fst (learned_holds 604809 ''A.example.'' (fold after_event [Learn ''a.example'' 5 10, Unlearn ''b.example'' 20] nothing_learned))
   \<and> \<not> fst (learned_holds 604810 ''A.example.'' (fold after_event [Learn ''a.example'' 5 10, Unlearn ''b.example'' 20] nothing_learned))"
proof -
  let ?es = "[Learn ''a.example'' 5 10, Unlearn ''b.example'' 20]"
  have n: "normalize_host ''A.example.'' = Some ''a.example''" "normalize_host ''a.example'' = Some ''a.example''"
    "normalize_host ''b.example'' = Some ''b.example''" by code_simp+
  have e: "Mapping.is_empty (ln_hosts nothing_learned)" by (simp add: nothing_learned_def Mapping.is_empty_empty)
  have "last_learned ''a.example'' (rev ?es) = Some 10" by (simp add: n)
  with learned_for_a_week [of ?es 604809 nothing_learned "''A.example.''"] learned_for_a_week [of ?es 604810 nothing_learned "''A.example.''"] n e
  show ?thesis by (simp add: LEARNED_TTL_def)
qed

section \<open>What was learned survives a restart\<close>

definition all_normal :: "learned \<Rightarrow> bool" where
  \<comment> \<open>finitely many names, each as the list keeps it\<close>
  "all_normal l \<longleftrightarrow> finite (Mapping.keys (ln_hosts l)) \<and> (\<forall>h \<in> Mapping.keys (ln_hosts l). normalize_host h = Some h)"

lemma map_filter_same: "\<forall>x \<in> set xs. f x = Some x \<Longrightarrow> List.map_filter f xs = xs"
  by (induction xs) (auto simp: List.map_filter_simps)

text \<open>
  A restart forgets no host, only the time left: what was held when the list was saved is held
  again after the file is read, and nothing else is, each for another week.
\<close>

theorem learned_survives_restart:
  assumes "enc (Mapping.ordered_keys (ln_hosts l)) = Some json" and "dec json = Some (Mapping.ordered_keys (ln_hosts l))"
    and "all_normal l"
  shows "Mapping.lookup (ln_hosts (load_learned dec (ln_path l) again (save_learned enc True l fs))) h =
    (if Mapping.lookup (ln_hosts l) h = None then None else Some again)"
proof -
  let ?names = "Mapping.ordered_keys (ln_hosts l)"
  have k: "set ?names = Mapping.keys (ln_hosts l)" using assms(3) by (simp add: all_normal_def Mapping.ordered_keys_def)
  have "save_learned enc True l fs (ln_path l) = Some json"
    using assms(1) by (simp add: save_learned_def replace_file_def)
  moreover have "List.map_filter normalize_host ?names = ?names"
    by (rule map_filter_same) (use assms(3) k in \<open>simp add: all_normal_def\<close>)
  ultimately have "ln_hosts (load_learned dec (ln_path l) again (save_learned enc True l fs))
      = fold (\<lambda>h. Mapping.update h again) ?names Mapping.empty"
    using assms(2) by (simp add: load_learned_def)
  then show ?thesis using k by (auto simp: lookup_fold_update keys_dom_lookup domIff)
qed

definition one_learned :: learned where
  "one_learned = nothing_learned\<lparr>ln_hosts := Mapping.update ''a.example'' 5 Mapping.empty\<rparr>"

theorem learned_survives_restart_witness:
  "Mapping.lookup (ln_hosts (load_learned (\<lambda>_. Some [''a.example'']) ''passthrough.json'' 9
     (save_learned (\<lambda>_. Some [1]) True one_learned Map.empty))) ''a.example'' = Some 9"
proof -
  have "normalize_host ''a.example'' = Some ''a.example''" by code_simp
  then have "all_normal one_learned" by (simp add: all_normal_def one_learned_def)
  moreover have "Mapping.ordered_keys (ln_hosts one_learned) = [''a.example'']" by (simp add: one_learned_def)
  ultimately have "Mapping.lookup (ln_hosts (load_learned (\<lambda>_. Some [''a.example'']) (ln_path one_learned) 9
      (save_learned (\<lambda>_. Some [1]) True one_learned Map.empty))) ''a.example''
    = (if Mapping.lookup (ln_hosts one_learned) ''a.example'' = None then None else Some 9)"
    by (intro learned_survives_restart) simp_all
  then show ?thesis by (simp add: one_learned_def nothing_learned_def)
qed

section \<open>Lists fail in one direction only\<close>

lemma parse_hosts_entries:
  "h \<in> parse_hosts text \<Longrightarrow> \<exists>raw. entry raw = Some h"
  by (auto simp: parse_hosts_def Let_def set_map_filter split: if_splits)

lemma card_parse_hosts: "card (parse_hosts text) \<le> MAX_EXEMPT"
  by (simp add: parse_hosts_def Let_def)

text \<open>
  What a fetched list can exempt is bounded: it names at most ten thousand hosts, every one of them
  a name of two labels or more that DNS could carry, and none of them a registry's own, so no line
  exempts all that is sold under one.
\<close>

theorem no_registry_is_exempted:
  assumes "h \<in> parse_hosts text"
  shows "dot \<in> set h \<and> plausible h \<and> length h \<le> 253 \<and> \<not> is_public_suffix h
    \<and> card (parse_hosts text) \<le> MAX_EXEMPT"
proof -
  obtain raw where "entry raw = Some h" using parse_hosts_entries [OF assms] by blast
  then obtain raw' where "Host.normalize raw' = Some h" and "length h \<le> 253" and "\<not> is_public_suffix h"
    by (auto simp: entry_def Let_def split: option.splits if_splits)
  with normalize_SomeD [OF this(1)] card_parse_hosts show ?thesis by simp
qed

theorem no_registry_is_exempted_witness:
  "dot \<in> set ''bank.co.uk'' \<and> plausible ''bank.co.uk'' \<and> length ''bank.co.uk'' \<le> 253 \<and> \<not> is_public_suffix ''bank.co.uk''
    \<and> card (parse_hosts ''co.uk  bank.co.uk'') \<le> MAX_EXEMPT"
proof -
  have "''bank.co.uk'' \<in> parse_hosts ''co.uk  bank.co.uk''" by code_simp
  then show ?thesis by (rule no_registry_is_exempted)
qed

fun rounds :: "config \<Rightarrow> (io \<times> bool \<times> (str \<Rightarrow> headers \<Rightarrow> answer)) list \<Rightarrow> passthrough \<times> str set list \<times> files
    \<Rightarrow> passthrough \<times> str set list \<times> files" where
  \<comment> \<open>refreshes, one after the other, each with what the disk and the origins do that time\<close>
  "rounds c [] s = s"
| "rounds c ((w, made, origin) # rs) (p, hs, fs) = rounds c rs (refresh_passthrough w made c origin p hs fs)"

lemma rounds_hosts: "pt_hosts (fst (rounds c rs s)) = pt_hosts (fst s)"
proof (induction c rs s rule: rounds.induct)
  case (2 c w made origin rs p hs fs)
  then show ?case by (simp add: refresh_passthrough_def replace_fetched_def split: prod.split)
qed simp

text \<open>
  No refresh, whatever the lists say and however they fail, drops a host somebody wrote down: it and
  every name below it stay exempt.
\<close>

theorem written_down_stays:
  assumes "covers (configured_hosts c) host"
  shows "pt_covers (fst (rounds c rs (new_passthrough c fs, hs, fs'))) host"
  using assms by (simp add: pt_covers_def rounds_hosts new_passthrough_def)

theorem written_down_stays_witness:
  "pt_covers (fst (rounds ((default_config bare)\<lparr>passthrough_section := (passthrough_section (default_config bare))
        \<lparr>passthrough_hosts := [''Bank.example.'']\<rparr>\<rparr>) [(quiet, True, \<lambda>_ _. Unreachable)]
     (new_passthrough ((default_config bare)\<lparr>passthrough_section := (passthrough_section (default_config bare))
        \<lparr>passthrough_hosts := [''Bank.example.'']\<rparr>\<rparr>) Map.empty, [], Map.empty))) ''www.bank.example''"
  by (rule written_down_stays) code_simp

text \<open>
  A refresh treats each list by itself and never halves one: what a list contributes afterwards is
  what it contributed before, or all of a text that named at least one host that can be used.
  What is matched against is the union, so a list that comes back empty, as an error page, over the
  ceiling, or not at all, exempts what it did before.
\<close>

lemma update_list_cases:
  "update_list text old = old \<or> update_list text old \<noteq> {} \<and> update_list text old \<in> range parse_hosts"
  by (auto simp: update_list_def Let_def split: option.split)

theorem lists_are_kept_or_replaced:
  "case refresh_passthrough w made c origin p hs fs of (p', hs', fs') \<Rightarrow>
     list_all2 (\<lambda>old new. new = old \<or> new \<noteq> {} \<and> new \<in> range parse_hosts) hs hs'
     \<and> pt_fetched p' = \<Union> (set hs') \<and> pt_hosts p' = pt_hosts p"
proof -
  have "list_all2 (\<lambda>old new. new = old \<or> new \<noteq> {} \<and> new \<in> range parse_hosts) hs (fst (refresh_lists w made c origin urls hs fs))"
    for urls
  proof (induction w made c origin urls hs fs rule: refresh_lists.induct)
    case (1 w made c origin url urls h hs fs)
    obtain ts fs1 where t: "fetched PASSTHROUGH_CACHE w made c origin [url] fs = (ts, fs1)" by force
    obtain others fs2 where o: "refresh_lists w made c origin urls hs fs1 = (others, fs2)" by force
    from 1 [OF t [symmetric] refl refl] o
    have "list_all2 (\<lambda>old new. new = old \<or> new \<noteq> {} \<and> new \<in> range parse_hosts) hs others" by simp
    with t o update_list_cases show ?case by (simp del: fetched.simps)
  qed (simp_all add: list_all2_same)
  from this [of "passthrough_urls (passthrough_section c)"] show ?thesis
    by (auto simp: refresh_passthrough_def replace_fetched_def split: prod.split)
qed

text \<open>
  A tab before the comment marker does not end a line when a later marker follows a space: the host
  of the line is lost, and a word of the comment is exempted in its place.
\<close>

definition tabbed_line :: str where
  "tabbed_line = ''bank.example'' @ tabbed_hash @ '' see other.example #2''"

lemma tab_comment_exempts_another: "parse_hosts tabbed_line = {''other.example''}"
  by code_simp

section \<open>A listed host is not decrypted\<close>

lemma never_decrypt_again:
  "fst (never_decrypt now p host (snd (never_decrypt now p other l))) = fst (never_decrypt now p host l)"
  "fst (never_decrypt now p host (live now l)) = fst (never_decrypt now p host l)"
  by (simp_all add: never_decrypt_def learned_holds_def lookup_live split: option.split)

lemma live_any: "fst (learned_any now l) \<longleftrightarrow> (\<exists>h. Mapping.lookup (ln_hosts (live now l)) h \<noteq> None)"
  by (auto simp: learned_any_def Mapping.is_empty_def keys_dom_lookup)

lemma never_terminated:
  assumes "fst (never_decrypt now p host l)"
  shows "fst (serve now p peeks (Some host) l) \<noteq> Terminated (Some host)"
proof -
  have "fst (never_decrypt now p host (live now l))"
    "\<And>other. fst (never_decrypt now p host (snd (never_decrypt now p other l)))"
    "\<And>other. fst (never_decrypt now p host (snd (never_decrypt now p other (live now l))))"
    using assms by (simp_all add: never_decrypt_again)
  with assms show ?thesis
    by (auto simp: serve_def check_sni_def learned_any_def Let_def split: prod.splits option.splits if_splits)
      (metis fst_conv snd_conv)+
qed

text \<open>
  A connection to a host that is not to be decrypted is never terminated here, whatever was read of
  its hello before the time was up: the name in the handshake itself is asked about again.
\<close>

theorem listed_is_never_terminated:
  assumes "fst (never_decrypt now p host l)"
  shows "fst (serve now p peeks (Some host) l) \<noteq> Terminated (Some host)"
  using assms by (rule never_terminated)

definition two_hosts :: passthrough where
  "two_hosts = \<lparr>pt_hosts = {''a.b''}, pt_fetched = {}, pt_port = 443\<rparr>"

theorem listed_is_never_terminated_witness:
  "fst (serve 0 two_hosts [Peeked [22, 3]] (Some ''www.a.b'') nothing_learned) \<noteq> Terminated (Some ''www.a.b'')"
  by (rule listed_is_never_terminated) code_simp

lemma peeked_name:
  assumes "well_sized h" and "names_host h name" and "is_ascii name"
    and "legal ps" and "carried ps = write_hello h" and "length (framed ps) \<le> PEEK_BYTES"
  shows "list_all (\<lambda>n. 0 < n \<and> n \<le> length (framed ps)) ns \<Longrightarrow>
    peek_server_name (map (\<lambda>n. Peeked (take n (framed ps))) (ns @ [length (framed ps)])) = Some (to_lower (ascii_text name))"
proof (induction ns)
  case Nil
  have m: "is_message (carried ps)" using write_hello_message [OF assms(1)] assms(5) by simp
  then have "framed ps \<noteq> []" by (cases ps) (auto simp: is_message_def HANDSHAKE_HEADER_def write_record_def)
  moreover have "have_hello (framed ps) = Complete \<and> server_name (framed ps) = Some (to_lower (ascii_text name))"
    using have_hello_prefix [OF assms(4) m, of "length (framed ps)"] hello_name_written [OF assms(1-3)] assms(5)
    by (auto simp: server_name_def split: hello.splits)
  ultimately show ?case by simp
next
  case (Cons n ns)
  have m: "is_message (carried ps)" using write_hello_message [OF assms(1)] assms(5) by simp
  have n: "0 < n" "n \<le> length (framed ps)" using Cons.prems by simp_all
  then have "take n (framed ps) \<noteq> []" by auto
  then show ?case
    using have_hello_prefix [OF assms(4) m n(2)] hello_name_written [OF assms(1-3)] assms(5,6) Cons.IH Cons.prems
    by (auto simp: server_name_def split: hello.splits)
qed

text \<open>
  C18: a host that is not to be decrypted is carried to its origin untouched, whichever way the network
  cuts its hello up and the client frames it, so long as the hello arrives in time and fits what
  is read.
\<close>

theorem listed_is_spliced:
  assumes "well_sized h" and "names_host h name" and "is_ascii name"
    and "legal ps" and "carried ps = write_hello h" and "length (framed ps) \<le> PEEK_BYTES"
    and "list_all (\<lambda>n. 0 < n \<and> n \<le> length (framed ps)) ns"
    and "fst (never_decrypt now p (to_lower (ascii_text name)) l)"
  shows "fst (serve now p (map (\<lambda>n. Peeked (take n (framed ps))) (ns @ [length (framed ps)])) sni l)
    = Spliced (to_lower (ascii_text name)) (pt_port p)"
proof -
  let ?host = "to_lower (ascii_text name)"
  note peek = peeked_name [OF assms(1-7)]
  have "pt_is_empty p \<Longrightarrow> fst (learned_any now l)"
    using assms(8)
    by (auto simp: live_any pt_is_empty_def never_decrypt_def learned_holds_def pt_covers_def covers_def split: option.splits)
  moreover have "fst (never_decrypt now p ?host (live now l))" using assms(8) by (simp add: never_decrypt_again)
  ultimately show ?thesis
    using peek assms(8)
    by (auto simp: serve_def learned_any_def Let_def simp del: map_append split: prod.splits)
qed

theorem listed_is_spliced_witness:
  "fst (serve 0 two_hosts (map (\<lambda>n. Peeked (take n (framed small_records))) ([3, 60] @ [length (framed small_records)])) None nothing_learned)
    = Spliced ''a.b'' 443"
proof -
  have "length (framed small_records) \<le> PEEK_BYTES"
    "list_all (\<lambda>n. 0 < n \<and> n \<le> length (framed small_records)) [3, 60]"
    "fst (never_decrypt 0 two_hosts ''a.b'' nothing_learned)" by code_simp+
  with listed_is_spliced [OF small_hello_ok(1-5), of "[3, 60]" 0 two_hosts nothing_learned None] small_hello_ok(6)
  show ?thesis by (simp add: two_hosts_def)
qed

end
