(* ===== verification/Hidden.thy ===== *)
theory Hidden
  imports Filestore Mappings
begin

text \<open>
  \<open>src/proxy/src/internal.rs\<close>, the store of hidden elements: per host a set of CSS selectors, bounded
  in every direction and mirrored to one file on every change, and which selectors may be written
  into a stylesheet. A \<open>BTreeMap\<close> is a mapping and a \<open>BTreeSet\<close> a set, listed in the order of the
  strings; the JSON coder is a parameter. The locale \<open>confined\<close> is what a store of things that
  belong to hosts promises: what is done for one host is not seen at another.
\<close>

section \<open>Selectors\<close>

definition MAX_SELECTOR_BYTES :: nat where "MAX_SELECTOR_BYTES = 128"
definition MAX_SELECTORS_PER_HOST :: nat where "MAX_SELECTORS_PER_HOST = 500"
definition MAX_HOSTS :: nat where "MAX_HOSTS = 500"

definition CSS_FORBIDDEN :: "char list" where
  "CSS_FORBIDDEN = [CHR ''<'', CHR ''{'', CHR ''}'', CHR ''@'', CHR '';'', CHR 0x5C]"

definition usable :: "str \<Rightarrow> bool" where
  "usable selector \<longleftrightarrow> selector \<noteq> [] \<and> list_all (\<lambda>c. c \<notin> set CSS_FORBIDDEN) selector"

section \<open>The store\<close>

type_synonym hidden_map = "(str, str set) mapping"

record hidden_store =
  hs_hidden :: hidden_map
  hs_path :: str

definition load_hidden :: "(bytes \<Rightarrow> hidden_map option) \<Rightarrow> str \<Rightarrow> files \<Rightarrow> hidden_store" where
  \<comment> \<open>missing, unreadable and corrupt alike\<close>
  "load_hidden dec path fs =
     \<lparr>hs_hidden = (case Option.bind (fs path) dec of Some m \<Rightarrow> m | None \<Rightarrow> Mapping.empty), hs_path = path\<rparr>"

definition hidden_set :: "str \<Rightarrow> hidden_map \<Rightarrow> str set" where
  "hidden_set host m = (case Mapping.lookup m host of Some s \<Rightarrow> s | None \<Rightarrow> {})"

definition hidden_selectors :: "str \<Rightarrow> hidden_store \<Rightarrow> str list" where
  "hidden_selectors host st = sorted_list_of_set (hidden_set host (hs_hidden st))"

definition persist_hidden :: "(hidden_map \<Rightarrow> bytes) \<Rightarrow> bool \<Rightarrow> hidden_store \<Rightarrow> files \<Rightarrow> files" where
  \<comment> \<open>written beside, synced and renamed: all of it or nothing\<close>
  "persist_hidden enc granted st fs = replace_file granted (hs_path st) (enc (hs_hidden st)) fs"

definition hidden_add :: "(hidden_map \<Rightarrow> bytes) \<Rightarrow> bool \<Rightarrow> str \<Rightarrow> str \<Rightarrow> hidden_store \<Rightarrow> files \<Rightarrow> bool \<times> hidden_store \<times> files" where
  "hidden_add enc granted host selector st fs =
     (let m = hs_hidden st in
      if Mapping.lookup m host = None \<and> Mapping.size m \<ge> MAX_HOSTS then (False, st, fs)
      else
        (let s = hidden_set host m; m = Mapping.update host s m in
         if selector \<notin> s \<and> card s \<ge> MAX_SELECTORS_PER_HOST then (False, st\<lparr>hs_hidden := m\<rparr>, fs)
         else if selector \<in> s then (True, st\<lparr>hs_hidden := m\<rparr>, fs)
         else (let st = st\<lparr>hs_hidden := Mapping.update host (insert selector s) m\<rparr>
               in (True, st, persist_hidden enc granted st fs))))"

definition hidden_remove :: "(hidden_map \<Rightarrow> bytes) \<Rightarrow> bool \<Rightarrow> str \<Rightarrow> str \<Rightarrow> hidden_store \<Rightarrow> files \<Rightarrow> hidden_store \<times> files" where
  "hidden_remove enc granted host selector st fs =
     (let m = hs_hidden st in
      case Mapping.lookup m host of
        None \<Rightarrow> (st, fs)
      | Some s \<Rightarrow>
          if selector \<notin> s then (st, fs)
          else (let rest = s - {selector};
                    st = st\<lparr>hs_hidden := (if Set.is_empty rest then Mapping.delete host m else Mapping.update host rest m)\<rparr>
                in (st, persist_hidden enc granted st fs)))"

definition hidden_clear :: "(hidden_map \<Rightarrow> bytes) \<Rightarrow> bool \<Rightarrow> str \<Rightarrow> hidden_store \<Rightarrow> files \<Rightarrow> hidden_store \<times> files" where
  "hidden_clear enc granted host st fs =
     (if Mapping.lookup (hs_hidden st) host = None then (st, fs)
      else (let st = st\<lparr>hs_hidden := Mapping.delete host (hs_hidden st)\<rparr>
            in (st, persist_hidden enc granted st fs)))"

section \<open>What belongs to a host\<close>

locale confined =
  fixes view :: "str \<Rightarrow> 's \<Rightarrow> 'v"
    and same_site :: "str \<Rightarrow> str \<Rightarrow> bool"
    and act :: "'op \<Rightarrow> str \<Rightarrow> 's \<Rightarrow> 's"
  assumes apart: "\<not> same_site h k \<Longrightarrow> view k (act a h s) = view k s"
begin

lemma elsewhere:
  "list_all (\<lambda>(a, h). \<not> same_site h k) acts \<Longrightarrow> view k (fold (\<lambda>(a, h). act a h) acts s) = view k s"
  by (induction acts arbitrary: s) (auto simp: apart)

lemma seen_from:
  assumes "view k (fold (\<lambda>(a, h). act a h) acts s) \<noteq> view k s"
  shows "list_ex (\<lambda>(a, h). same_site h k) acts"
  using elsewhere [of k acts s] assms by (fastforce simp: list_all_iff list_ex_iff)

end

datatype hidden_op = Hide str | Unhide str | Clear

fun hidden_act :: "(hidden_map \<Rightarrow> bytes) \<Rightarrow> bool \<Rightarrow> hidden_op \<Rightarrow> str \<Rightarrow> hidden_store \<times> files \<Rightarrow> hidden_store \<times> files" where
  "hidden_act enc granted (Hide sel) host (st, fs) = snd (hidden_add enc granted host sel st fs)"
| "hidden_act enc granted (Unhide sel) host (st, fs) = hidden_remove enc granted host sel st fs"
| "hidden_act enc granted Clear host (st, fs) = hidden_clear enc granted host st fs"

lemma hidden_set_update [simp]:
  "hidden_set k (Mapping.update h s m) = (if k = h then s else hidden_set k m)"
  by (simp add: hidden_set_def lookup_update')

lemma hidden_set_delete [simp]:
  "hidden_set k (Mapping.delete h m) = (if k = h then {} else hidden_set k m)"
  by (cases "k = h") (simp_all add: hidden_set_def)

lemma hidden_set_of: "Mapping.lookup m h = Some s \<Longrightarrow> hidden_set h m = s" "Mapping.lookup m h = None \<Longrightarrow> hidden_set h m = {}"
  by (simp_all add: hidden_set_def)

interpretation hs: confined "\<lambda>k s. hidden_selectors k (fst s)" "(=)" "hidden_act enc granted" for enc granted
proof
  fix h k :: str and a and s :: "hidden_store \<times> files"
  assume "h \<noteq> k"
  obtain st fs where "s = (st, fs)" by force
  with \<open>h \<noteq> k\<close> show "hidden_selectors k (fst (hidden_act enc granted a h s)) = hidden_selectors k (fst s)"
    by (cases a)
      (auto simp: hidden_add_def hidden_remove_def hidden_clear_def hidden_selectors_def Let_def split: option.split)
qed

section \<open>Bounds\<close>

definition set_ok :: "str set \<Rightarrow> bool" where
  "set_ok s \<longleftrightarrow> finite s \<and> s \<noteq> {} \<and> card s \<le> MAX_SELECTORS_PER_HOST"

definition hidden_ok :: "hidden_map \<Rightarrow> bool" where
  \<comment> \<open>not too many hosts, each with some selectors and not too many\<close>
  "hidden_ok m \<longleftrightarrow> finite (Mapping.keys m) \<and> card (Mapping.keys m) \<le> MAX_HOSTS
     \<and> (\<forall>h s. Mapping.lookup m h = Some s \<longrightarrow> set_ok s)"

lemma hidden_ok_update:
  assumes "hidden_ok m" and "set_ok s" and "Mapping.lookup m h \<noteq> None \<or> Mapping.size m < MAX_HOSTS"
  shows "hidden_ok (Mapping.update h s m)"
proof -
  have "Mapping.size m = card (Mapping.keys m)" by (simp add: Mapping.size_def)
  moreover have "h \<in> Mapping.keys m \<longleftrightarrow> Mapping.lookup m h \<noteq> None" by (simp add: keys_dom_lookup domIff)
  ultimately have "card (insert h (Mapping.keys m)) \<le> MAX_HOSTS"
    using assms by (auto simp: hidden_ok_def card_insert_if)
  then show ?thesis using assms by (auto simp: hidden_ok_def lookup_update' split: if_splits)
qed

lemma hidden_ok_delete: "hidden_ok m \<Longrightarrow> hidden_ok (Mapping.delete h m)"
  unfolding hidden_ok_def
  by (auto simp: card_Diff_singleton_if dest!: lookup_delete_Some split: if_splits)

lemma hidden_add_cases [consumes 1, case_names Crowded Full Known New]:
  assumes "hidden_ok (hs_hidden st)"
  obtains "Mapping.lookup (hs_hidden st) host = None" "Mapping.size (hs_hidden st) \<ge> MAX_HOSTS"
      "hidden_add enc granted host sel st fs = (False, st, fs)"
  | "sel \<notin> hidden_set host (hs_hidden st)" "card (hidden_set host (hs_hidden st)) \<ge> MAX_SELECTORS_PER_HOST"
      "hidden_add enc granted host sel st fs = (False, st, fs)"
  | "sel \<in> hidden_set host (hs_hidden st)" "hidden_add enc granted host sel st fs = (True, st, fs)"
  | "sel \<notin> hidden_set host (hs_hidden st)" "card (hidden_set host (hs_hidden st)) < MAX_SELECTORS_PER_HOST"
      "Mapping.lookup (hs_hidden st) host \<noteq> None \<or> Mapping.size (hs_hidden st) < MAX_HOSTS"
      "hidden_add enc granted host sel st fs =
        (let st' = st\<lparr>hs_hidden := Mapping.update host (insert sel (hidden_set host (hs_hidden st))) (hs_hidden st)\<rparr>
         in (True, st', persist_hidden enc granted st' fs))"
proof -
  let ?m = "hs_hidden st"
  let ?s = "hidden_set host ?m"
  consider (crowded) "Mapping.lookup ?m host = None" "Mapping.size ?m \<ge> MAX_HOSTS"
    | (full) "\<not> (Mapping.lookup ?m host = None \<and> Mapping.size ?m \<ge> MAX_HOSTS)" "sel \<notin> ?s" "card ?s \<ge> MAX_SELECTORS_PER_HOST"
    | (known) "\<not> (Mapping.lookup ?m host = None \<and> Mapping.size ?m \<ge> MAX_HOSTS)" "sel \<in> ?s"
    | (new) "\<not> (Mapping.lookup ?m host = None \<and> Mapping.size ?m \<ge> MAX_HOSTS)" "sel \<notin> ?s" "card ?s < MAX_SELECTORS_PER_HOST"
    by linarith
  then show thesis
  proof cases
    case crowded
    then show thesis by (intro that(1)) (simp_all add: hidden_add_def Let_def)
  next
    case full
    then have "Mapping.lookup ?m host = Some ?s"
      by (cases "Mapping.lookup ?m host") (auto simp: hidden_set_def MAX_SELECTORS_PER_HOST_def)
    with full show thesis by (intro that(2)) (simp_all add: hidden_add_def Let_def update_same)
  next
    case known
    then have "Mapping.lookup ?m host = Some ?s"
      by (cases "Mapping.lookup ?m host") (auto simp: hidden_set_def)
    with known show thesis by (intro that(3)) (simp_all add: hidden_add_def Let_def update_same)
  next
    case new
    moreover have "Mapping.update host (insert sel ?s) (Mapping.update host ?s ?m) = Mapping.update host (insert sel ?s) ?m"
      by (rule mapping_eqI) (simp add: lookup_update')
    ultimately show thesis by (intro that(4)) (auto simp: hidden_add_def Let_def)
  qed
qed

lemma set_ok_of: "hidden_ok m \<Longrightarrow> hidden_set h m = {} \<or> set_ok (hidden_set h m)"
  by (cases "Mapping.lookup m h") (auto simp: hidden_set_def hidden_ok_def)

lemma set_ok_insert:
  "hidden_ok m \<Longrightarrow> card (hidden_set h m) < MAX_SELECTORS_PER_HOST \<Longrightarrow> sel \<notin> hidden_set h m \<Longrightarrow> set_ok (insert sel (hidden_set h m))"
  using set_ok_of [of m h] by (auto simp: set_ok_def)

lemma set_ok_remove: "set_ok s \<Longrightarrow> s - {sel} \<noteq> {} \<Longrightarrow> set_ok (s - {sel})"
  using card_Diff1_le [of s sel] by (simp add: set_ok_def)

lemma hidden_act_ok:
  assumes "hidden_ok (hs_hidden st)"
  shows "hidden_ok (hs_hidden (fst (hidden_act enc granted a host (st, fs))))"
proof (cases a)
  case (Hide sel)
  from assms show ?thesis
  proof (cases rule: hidden_add_cases [where host = host and sel = sel and enc = enc and granted = granted and fs = fs])
    case New
    with Hide hidden_ok_update [OF assms set_ok_insert [OF assms New(2,1)] New(3)] show ?thesis by (simp add: Let_def)
  qed (simp_all add: Hide assms)
next
  case (Unhide sel)
  show ?thesis
  proof (cases "Mapping.lookup (hs_hidden st) host")
    case None
    with Unhide assms show ?thesis by (simp add: hidden_remove_def)
  next
    case (Some s)
    then have "set_ok s" using assms by (auto simp: hidden_ok_def)
    with Unhide Some assms hidden_ok_delete [OF assms] hidden_ok_update [OF assms set_ok_remove [of s sel], of host]
    show ?thesis by (auto simp: hidden_remove_def Let_def)
  qed
next
  case Clear
  with assms hidden_ok_delete [OF assms] show ?thesis by (simp add: hidden_clear_def Let_def)
qed

text \<open>
  C40: however much pages hide, from however many hosts, the store stays within its bounds: at most 500
  hosts, each with at least one selector and at most 500 of them.
\<close>

theorem hidden_is_bounded:
  assumes "hidden_ok (hs_hidden st)"
  shows "hidden_ok (hs_hidden (fst (fold (\<lambda>(a, h). hidden_act enc granted a h) acts (st, fs))))"
  using assms
proof (induction acts arbitrary: st fs)
  case (Cons act acts)
  obtain a h where act: "act = (a, h)" by force
  obtain st' fs' where s: "hidden_act enc granted a h (st, fs) = (st', fs')" by force
  from hidden_act_ok [OF Cons.prems, of enc granted a h fs] s have "hidden_ok (hs_hidden st')" by simp
  from Cons.IH [OF this] s act show ?case by simp
qed simp

definition empty_hidden :: hidden_store where
  "empty_hidden = \<lparr>hs_hidden = Mapping.empty, hs_path = ''hidden.json''\<rparr>"

lemma hidden_ok_empty: "hidden_ok Mapping.empty"
  by (simp add: hidden_ok_def)

theorem hidden_is_bounded_witness:
  "hidden_ok (hs_hidden (fst (fold (\<lambda>(a, h). hidden_act (\<lambda>_. []) True a h) [(Hide ''.ad'', ''a.example''), (Clear, ''a.example'')]
     (empty_hidden, Map.empty))))"
  by (rule hidden_is_bounded) (simp add: empty_hidden_def hidden_ok_empty)

section \<open>Hiding, showing, restarting\<close>

lemma selectors_listed:
  "finite (hidden_set h (hs_hidden st)) \<Longrightarrow> set (hidden_selectors h st) = hidden_set h (hs_hidden st)
    \<and> sorted (hidden_selectors h st) \<and> distinct (hidden_selectors h st)"
  by (simp add: hidden_selectors_def)

lemma finite_hidden: "hidden_ok m \<Longrightarrow> finite (hidden_set h m)"
  using set_ok_of [of m h] by (auto simp: set_ok_def)

text \<open>
  What was asked for is what is hidden, and what is hidden is what is on disk: an accepted selector
  is listed with those before it, in order and once; taking it back leaves those before it; and a
  restart reads what was there, whichever it was.
\<close>

theorem hide_and_show:
  assumes "hidden_ok (hs_hidden st)" and "list_all (\<lambda>m. dec (enc m) = Some m) [hs_hidden st, hs_hidden st1]" and "sel \<notin> set (hidden_selectors host st)"
    and "hidden_add enc True host sel st fs = (True, st1, fs1)" and "hidden_remove enc True host sel st1 fs1 = (st2, fs2)"
  shows "set (hidden_selectors host st1) = insert sel (set (hidden_selectors host st))
    \<and> sorted (hidden_selectors host st1) \<and> distinct (hidden_selectors host st1)
    \<and> hs_hidden st2 = hs_hidden st
    \<and> load_hidden dec (hs_path st) fs1 = st1 \<and> load_hidden dec (hs_path st) fs2 = st2"
proof -
  let ?s = "hidden_set host (hs_hidden st)"
  have fin: "finite ?s" using assms(1) by (rule finite_hidden)
  then have new: "sel \<notin> ?s" using assms(3) by (simp add: hidden_selectors_def)
  let ?m1 = "Mapping.update host (insert sel ?s) (hs_hidden st)"
  from assms(1) have 1: "st1 = st\<lparr>hs_hidden := ?m1\<rparr> \<and> fs1 = persist_hidden enc True st1 fs"
    by (cases rule: hidden_add_cases [where host = host and sel = sel and enc = enc and granted = True and fs = fs])
      (use assms(4) new in \<open>simp_all add: Let_def\<close>)
  have there: "Mapping.lookup (hs_hidden st) host = (if ?s = {} then None else Some ?s)"
  proof (cases "Mapping.lookup (hs_hidden st) host")
    case None
    then show ?thesis by (simp add: hidden_set_of)
  next
    case (Some s)
    with assms(1) have "s \<noteq> {}" by (auto simp: hidden_ok_def set_ok_def)
    with Some show ?thesis by (simp add: hidden_set_of(1) [OF Some])
  qed
  have "insert sel ?s - {sel} = ?s" using new by simp
  then have "st2 = st1\<lparr>hs_hidden := (if ?s = {} then Mapping.delete host ?m1 else Mapping.update host ?s ?m1)\<rparr>
      \<and> fs2 = persist_hidden enc True st2 fs1"
    using assms(5) by (auto simp: hidden_remove_def Let_def 1)
  moreover have "(if ?s = {} then Mapping.delete host ?m1 else Mapping.update host ?s ?m1) = hs_hidden st"
    by (cases "?s = {}"; simp; rule mapping_eqI) (auto simp: lookup_update' lookup_without there split: if_splits)
  ultimately have 2: "hs_hidden st2 = hs_hidden st" "hs_path st2 = hs_path st" "fs2 = persist_hidden enc True st2 fs1"
    by (simp_all add: 1)
  have "load_hidden dec (hs_path st) fs1 = st1" "load_hidden dec (hs_path st) fs2 = st2"
    using assms(2) 1 2 by (simp_all add: load_hidden_def persist_hidden_def replace_file_def)
  moreover have "hidden_set host (hs_hidden st1) = insert sel ?s" by (simp add: 1)
  ultimately show ?thesis
    using selectors_listed [of host st] selectors_listed [of host st1] fin 2(1) by simp
qed

theorem hide_and_show_witness:
  "set (hidden_selectors ''a.example'' (empty_hidden\<lparr>hs_hidden := Mapping.update ''a.example'' {''.ad''} Mapping.empty\<rparr>)) = {''.ad''}"
proof -
  let ?m = "Mapping.update ''a.example'' {''.ad''} Mapping.empty"
  let ?st1 = "empty_hidden\<lparr>hs_hidden := ?m\<rparr>"
  let ?enc = "\<lambda>m. if m = Mapping.empty then [] else [1 :: u8]"
  let ?dec = "\<lambda>bs. Some (if bs = [] then Mapping.empty else ?m)"
  have m: "?m \<noteq> Mapping.empty"
    by (metis lookup_empty lookup_update option.distinct(1))
  have none: "hidden_set ''a.example'' (hs_hidden empty_hidden) = {}" "Mapping.lookup (hs_hidden empty_hidden) ''a.example'' = None"
    by (simp_all add: hidden_set_def empty_hidden_def)
  then have l: "hidden_selectors ''a.example'' empty_hidden = []" by (simp add: hidden_selectors_def)
  have twice: "Mapping.update ''a.example'' {''.ad''} (Mapping.update ''a.example'' {} Mapping.empty) = ?m"
    by (rule mapping_eqI) (simp add: lookup_update')
  have a: "hidden_add ?enc True ''a.example'' ''.ad'' empty_hidden Map.empty = (True, ?st1, persist_hidden ?enc True ?st1 Map.empty)"
    by (simp add: hidden_add_def none empty_hidden_def Let_def hidden_set_def MAX_HOSTS_def MAX_SELECTORS_PER_HOST_def twice)
  have e: "hs_hidden empty_hidden = Mapping.empty" by (simp add: empty_hidden_def)
  obtain st2 fs2 where r: "hidden_remove ?enc True ''a.example'' ''.ad'' ?st1 (persist_hidden ?enc True ?st1 Map.empty) = (st2, fs2)"
    by force
  have "set (hidden_selectors ''a.example'' ?st1) = insert ''.ad'' (set (hidden_selectors ''a.example'' empty_hidden))"
    using hide_and_show [where dec = ?dec, OF _ _ _ a r] m l by (simp add: e hidden_ok_empty)
  then show ?thesis by (simp add: l)
qed

end
