(* ===== verification/Cosmetic.thy ===== *)
theory Cosmetic
  imports Hidden Fetch Host
begin

text \<open>
  \<open>src/proxy/src/cosmetic.rs\<close>: cosmetic filter rules as the published lists write them, indexed by
  the domains they name, and the selectors a host hides because of them. A time is a number of
  seconds; reading a list's file gives its content if it is there and is UTF-8.
\<close>

definition COSMETIC_CACHE :: list_cache where
  "COSMETIC_CACHE = \<lparr>lc_dir = ''cosmetic'', lc_kind = ''cosmetic list''\<rparr>"

definition PROCEDURAL :: "str list" where
  "PROCEDURAL = ['':has-text('', '':-abp-'', '':matches-path('', '':upward('', '':style('', '':remove('']"

section \<open>Rules\<close>

record rule =
  r_domains :: "str list"
  r_except :: "str list"
  r_selector :: str
  r_unhide :: bool

definition hideable :: "str \<Rightarrow> bool" where
  "hideable selector \<longleftrightarrow>
     \<not> starts_with selector ''+js('' \<and> \<not> list_ex (\<lambda>form. contains selector form) PROCEDURAL \<and> usable selector"

fun read_domains :: "str list \<Rightarrow> str list \<times> str list \<times> bool \<Rightarrow> (str list \<times> str list \<times> bool) option" where
  \<comment> \<open>the loop over the entries: those wanted, those excluded, and whether any was named\<close>
  "read_domains [] acc = Some acc"
| "read_domains (e # es) (wanted, excepted, named) =
     (let e = trim e in
      if e = [] then read_domains es (wanted, excepted, named)
      else
        (case strip_prefix e ''~'' of
           Some name \<Rightarrow>
             (case Host.normalize name of
                None \<Rightarrow> None
              | Some d \<Rightarrow> read_domains es (wanted, excepted @ [d], True))
         | None \<Rightarrow>
             read_domains es (wanted @ (case Host.normalize e of Some d \<Rightarrow> [d] | None \<Rightarrow> []), excepted, True)))"

definition parse_rule :: "str \<Rightarrow> rule option" where
  "parse_rule line =
     (let line = trim line in
      if line = [] \<or> starts_with line ''!'' then None
      else
        (case find_char (\<lambda>c. c = CHR ''#'') line of
           None \<Rightarrow> None
         | Some hash \<Rightarrow>
             (let domains = take hash line; rest = drop hash line in
              case (case strip_prefix rest ''#@#'' of
                      Some selector \<Rightarrow> Some (selector, True)
                    | None \<Rightarrow> map_option (\<lambda>selector. (selector, False)) (strip_prefix rest ''##'')) of
                None \<Rightarrow> None
              | Some (selector, unhide) \<Rightarrow>
                  (let selector = trim selector in
                   if \<not> hideable selector then None
                   else
                     (case read_domains (split_on (\<lambda>c. c = CHR '','') domains) ([], [], False) of
                        None \<Rightarrow> None
                      | Some (wanted, excepted, named) \<Rightarrow>
                          if named \<and> wanted = [] \<and> excepted = [] then None
                          else if unhide \<and> wanted = [] then None
                          else Some \<lparr>r_domains = wanted, r_except = excepted, r_selector = selector, r_unhide = unhide\<rparr>)))))"

section \<open>The set of rules\<close>

record cosmetic =
  cs_hide :: hidden_map
  cs_generic :: "str set"
  cs_unhide :: hidden_map
  cs_generic_enabled :: bool
  cs_sources :: nat
  cs_built :: nat

definition new_cosmetic :: "bool \<Rightarrow> nat \<Rightarrow> cosmetic" where
  "new_cosmetic generic_enabled now =
     \<lparr>cs_hide = Mapping.empty, cs_generic = {}, cs_unhide = Mapping.empty, cs_generic_enabled = generic_enabled,
      cs_sources = 0, cs_built = now\<rparr>"

definition record_selector :: "str \<Rightarrow> str \<Rightarrow> hidden_map \<Rightarrow> hidden_map" where
  "record_selector selector domain m = Mapping.update domain (insert selector (hidden_set domain m)) m"

definition insert_rule :: "rule \<Rightarrow> cosmetic \<Rightarrow> cosmetic" where
  "insert_rule r c =
     (if r_unhide r then c\<lparr>cs_unhide := fold (record_selector (r_selector r)) (r_domains r) (cs_unhide c)\<rparr>
      else
        (let c = c\<lparr>cs_unhide := fold (record_selector (r_selector r)) (r_except r) (cs_unhide c)\<rparr> in
         if r_domains r = [] then c\<lparr>cs_generic := insert (r_selector r) (cs_generic c)\<rparr>
         else c\<lparr>cs_hide := fold (record_selector (r_selector r)) (r_domains r) (cs_hide c)\<rparr>))"

definition add_rules :: "str \<Rightarrow> cosmetic \<Rightarrow> cosmetic" where
  "add_rules text c = fold insert_rule (List.map_filter parse_rule (lines text)) c"

definition add_text :: "str \<Rightarrow> cosmetic \<Rightarrow> cosmetic" where
  \<comment> \<open>one source that was read\<close>
  "add_text text c = (let c = add_rules text c in c\<lparr>cs_sources := cs_sources c + 1\<rparr>)"

definition load_cosmetic :: "str list \<Rightarrow> bool \<Rightarrow> nat \<Rightarrow> files \<Rightarrow> cosmetic" where
  "load_cosmetic paths generic_enabled now fs =
     fold add_text (List.map_filter (\<lambda>p. Option.bind (fs p) from_utf8) paths) (new_cosmetic generic_enabled now)"

definition cosmetic_selectors :: "str \<Rightarrow> cosmetic \<Rightarrow> str list" where
  "cosmetic_selectors host c =
     (if Mapping.is_empty (cs_hide c) \<and> Set.is_empty (cs_generic c) then []
      else
        (let names = parents (canon host);
             hidden = (if cs_generic_enabled c then cs_generic c else {});
             hidden = fold (\<lambda>d s. s \<union> hidden_set d (cs_hide c)) names hidden;
             hidden = fold (\<lambda>d s. s - hidden_set d (cs_unhide c)) names hidden
         in sorted_list_of_set hidden))"

definition rule_pairs :: "hidden_map \<Rightarrow> nat" where
  "rule_pairs m = (\<Sum>d \<in> Mapping.keys m. card (hidden_set d m))"

definition cosmetic_len :: "cosmetic \<Rightarrow> nat" where
  "cosmetic_len c = rule_pairs (cs_hide c) + rule_pairs (cs_unhide c) + card (cs_generic c)"

record cosmetic_status =
  cst_rules :: nat
  cst_sources :: nat
  cst_age :: nat

definition cosmetic_status_of :: "nat \<Rightarrow> cosmetic \<Rightarrow> cosmetic_status" where
  "cosmetic_status_of now c = \<lparr>cst_rules = cosmetic_len c, cst_sources = cs_sources c, cst_age = now - cs_built c\<rparr>"

definition same_rules :: "cosmetic \<Rightarrow> cosmetic \<Rightarrow> bool" where
  "same_rules a b \<longleftrightarrow> cs_hide a = cs_hide b \<and> cs_generic a = cs_generic b \<and> cs_unhide a = cs_unhide b"

section \<open>Building and refreshing\<close>

definition build_cosmetic :: "config \<Rightarrow> str list \<Rightarrow> nat \<Rightarrow> files \<Rightarrow> cosmetic" where
  "build_cosmetic c texts now fs =
     fold add_text texts
       (load_cosmetic (cosmetic_files (cosmetic_section c)) (cosmetic_generic (cosmetic_section c)) now fs)"

definition cosmetic_interval :: "config \<Rightarrow> nat option" where
  \<comment> \<open>seconds\<close>
  "cosmetic_interval c =
     (let hours = cosmetic_refresh_hours (cosmetic_section c) in
      if cosmetic_enabled (cosmetic_section c) \<and> hours > 0 then Some (hours * 3600) else None)"

definition shared_cosmetic :: "config \<Rightarrow> nat \<Rightarrow> files \<Rightarrow> cosmetic" where
  "shared_cosmetic c now fs = build_cosmetic c (cached COSMETIC_CACHE c (cosmetic_urls (cosmetic_section c)) fs) now fs"

definition refresh_cosmetic :: "io \<Rightarrow> bool \<Rightarrow> config \<Rightarrow> (str \<Rightarrow> headers \<Rightarrow> answer) \<Rightarrow> nat \<Rightarrow> cosmetic \<Rightarrow> files
    \<Rightarrow> bool \<times> cosmetic \<times> files" where
  \<comment> \<open>whether anything is said, the rules in force from now on, the files\<close>
  "refresh_cosmetic w made c origin now current fs =
     (let (texts, fs) = fetched COSMETIC_CACHE w made c origin (cosmetic_urls (cosmetic_section c)) fs;
          built = build_cosmetic c texts now fs
      in (\<not> same_rules built current, built, fs))"

section \<open>Which selectors a host hides\<close>

definition covered_by :: "str \<Rightarrow> str list \<Rightarrow> bool" where
  "covered_by host ds \<longleftrightarrow> list_ex (\<lambda>d. under (canon host) d) ds"

definition taken_back :: "rule list \<Rightarrow> str \<Rightarrow> str \<Rightarrow> bool" where
  "taken_back rs sel host \<longleftrightarrow>
     list_ex (\<lambda>r. r_selector r = sel \<and> covered_by host (if r_unhide r then r_domains r else r_except r)) rs"

definition asked_for :: "bool \<Rightarrow> rule list \<Rightarrow> str \<Rightarrow> str \<Rightarrow> bool" where
  "asked_for generic rs sel host \<longleftrightarrow>
     list_ex (\<lambda>r. r_selector r = sel \<and> \<not> r_unhide r
       \<and> (if r_domains r = [] then generic else covered_by host (r_domains r))) rs"

lemma hidden_set_record:
  "hidden_set d (fold (record_selector sel) ds m) = hidden_set d m \<union> (if d \<in> set ds then {sel} else {})"
  by (induction ds arbitrary: m) (auto simp: record_selector_def)

definition hides :: "hidden_map \<Rightarrow> str \<Rightarrow> str set" where
  "hides m host = (\<Union>d \<in> {d. under (canon host) d}. hidden_set d m)"

lemma hides_record:
  "hides (fold (record_selector sel) ds m) host = hides m host \<union> (if covered_by host ds then {sel} else {})"
  by (auto simp: hides_def hidden_set_record covered_by_def list_ex_iff split: if_splits)

lemma fold_union: "fold (\<lambda>d s. s \<union> f d) ds s = s \<union> (\<Union>d \<in> set ds. f d)"
  by (induction ds arbitrary: s) auto

lemma fold_minus: "fold (\<lambda>d s. s - f d) ds s = s - (\<Union>d \<in> set ds. f d)"
  by (induction ds arbitrary: s) auto

definition finite_rules :: "cosmetic \<Rightarrow> bool" where
  "finite_rules c \<longleftrightarrow> finite (cs_generic c) \<and> (\<forall>d. finite (hidden_set d (cs_hide c)))"

lemma set_selectors:
  assumes "finite_rules c"
  shows "set (cosmetic_selectors host c) =
    (if cs_generic_enabled c then cs_generic c else {}) \<union> hides (cs_hide c) host - hides (cs_unhide c) host"
proof -
  have names: "set (parents (canon host)) = {d. under (canon host) d}" by (auto simp: set_parents)
  have "finite (\<Union>d \<in> set (parents (canon host)). hidden_set d (cs_hide c))"
    using assms by (auto simp: finite_rules_def)
  moreover have "hides (cs_hide c) host = {}" if "Mapping.is_empty (cs_hide c)"
    using that by (auto simp: hides_def hidden_set_def Mapping.is_empty_def keys_dom_lookup)
  ultimately show ?thesis
    using assms
    by (auto simp: cosmetic_selectors_def fold_union fold_minus Let_def hides_def names finite_rules_def)
qed

lemma insert_rule_finite: "finite_rules c \<Longrightarrow> finite_rules (insert_rule r c)"
  by (auto simp: finite_rules_def insert_rule_def hidden_set_record Let_def)

lemma insert_rules:
  "finite_rules c \<Longrightarrow> (let c' = fold insert_rule rs c in
     finite_rules c' \<and> cs_generic_enabled c' = cs_generic_enabled c
     \<and> cs_generic c' = cs_generic c \<union> {sel. list_ex (\<lambda>r. r_selector r = sel \<and> \<not> r_unhide r \<and> r_domains r = []) rs}
     \<and> hides (cs_hide c') host = hides (cs_hide c) host
         \<union> {sel. list_ex (\<lambda>r. r_selector r = sel \<and> \<not> r_unhide r \<and> covered_by host (r_domains r)) rs}
     \<and> hides (cs_unhide c') host = hides (cs_unhide c) host \<union> {sel. taken_back rs sel host})"
proof (induction rs arbitrary: c)
  case Nil
  then show ?case by (simp add: taken_back_def)
next
  case (Cons r rs)
  have none: "\<not> covered_by host []" by (simp add: covered_by_def)
  from Cons.IH [OF insert_rule_finite [OF Cons.prems, of r]] show ?case
    by (auto simp: insert_rule_def Let_def hides_record taken_back_def none split: if_splits)
qed

definition cosmetic_rules_of :: "str \<Rightarrow> rule list" where
  "cosmetic_rules_of text = List.map_filter parse_rule (lines text)"

definition cosmetic_rules :: "config \<Rightarrow> str list \<Rightarrow> files \<Rightarrow> rule list" where
  \<comment> \<open>the rules of every file that could be read, then of the fetched texts\<close>
  "cosmetic_rules c texts fs =
     concat (map cosmetic_rules_of
       (List.map_filter (\<lambda>p. Option.bind (fs p) from_utf8) (cosmetic_files (cosmetic_section c)) @ texts))"

lemma insert_rule_sources: "insert_rule r (c\<lparr>cs_sources := n\<rparr>) = (insert_rule r c)\<lparr>cs_sources := n\<rparr>"
  by (simp add: insert_rule_def Let_def)

lemma insert_rules_sources: "fold insert_rule rs (c\<lparr>cs_sources := n\<rparr>) = (fold insert_rule rs c)\<lparr>cs_sources := n\<rparr>"
  by (induction rs arbitrary: c) (simp_all add: insert_rule_sources)

lemma add_texts:
  "\<exists>n. fold add_text texts c = (fold insert_rule (concat (map cosmetic_rules_of texts)) c)\<lparr>cs_sources := n\<rparr>"
proof (induction texts arbitrary: c)
  case Nil
  show ?case by (intro exI [of _ "cs_sources c"]) simp
next
  case (Cons t texts)
  have a: "add_text t c = (fold insert_rule (cosmetic_rules_of t) c)\<lparr>cs_sources := cs_sources (add_rules t c) + 1\<rparr>"
    by (simp add: add_text_def add_rules_def cosmetic_rules_of_def Let_def)
  from Cons.IH [of "add_text t c"] show ?case
    unfolding a insert_rules_sources by (auto simp: a)
qed

lemma built_rules:
  "\<exists>n. build_cosmetic c texts now fs =
     (fold insert_rule (cosmetic_rules c texts fs) (new_cosmetic (cosmetic_generic (cosmetic_section c)) now))\<lparr>cs_sources := n\<rparr>"
proof -
  let ?read = "List.map_filter (\<lambda>p. Option.bind (fs p) from_utf8) (cosmetic_files (cosmetic_section c))"
  obtain n where "fold add_text (?read @ texts) (new_cosmetic (cosmetic_generic (cosmetic_section c)) now)
      = (fold insert_rule (concat (map cosmetic_rules_of (?read @ texts))) (new_cosmetic (cosmetic_generic (cosmetic_section c)) now))\<lparr>cs_sources := n\<rparr>"
    using add_texts by blast
  then show ?thesis by (auto simp: build_cosmetic_def load_cosmetic_def cosmetic_rules_def)
qed

lemma built_selectors:
  "set (cosmetic_selectors host (build_cosmetic c texts now fs)) =
     {sel. asked_for (cosmetic_generic (cosmetic_section c)) (cosmetic_rules c texts fs) sel host}
     - {sel. taken_back (cosmetic_rules c texts fs) sel host}"
proof -
  let ?new = "new_cosmetic (cosmetic_generic (cosmetic_section c)) now" and ?rs = "cosmetic_rules c texts fs"
  obtain F where F: "F = fold insert_rule ?rs ?new" by blast
  then obtain n where b: "build_cosmetic c texts now fs = F\<lparr>cs_sources := n\<rparr>"
    using built_rules by blast
  have start: "finite_rules ?new" "cs_generic ?new = {}" "hides (cs_hide ?new) host = {}" "hides (cs_unhide ?new) host = {}"
    "cs_generic_enabled ?new = cosmetic_generic (cosmetic_section c)"
    by (simp_all add: finite_rules_def new_cosmetic_def hidden_set_def hides_def)
  note r = insert_rules [OF start(1), of ?rs host, unfolded Let_def, folded F, unfolded start Un_empty_left]
  from r have "finite_rules F" by blast
  then have "finite_rules (F\<lparr>cs_sources := n\<rparr>)" by (simp add: finite_rules_def)
  from set_selectors [OF this, of host] r
  have "set (cosmetic_selectors host (build_cosmetic c texts now fs)) =
      (if cosmetic_generic (cosmetic_section c)
       then {sel. list_ex (\<lambda>r. r_selector r = sel \<and> \<not> r_unhide r \<and> r_domains r = []) ?rs} else {})
      \<union> {sel. list_ex (\<lambda>r. r_selector r = sel \<and> \<not> r_unhide r \<and> covered_by host (r_domains r)) ?rs}
      - {sel. taken_back ?rs sel host}"
    by (simp add: b)
  moreover have "(if ds = [] then g else covered_by host ds) \<longleftrightarrow> g \<and> ds = [] \<or> covered_by host ds" for ds g
    by (auto simp: covered_by_def)
  ultimately show ?thesis by (auto simp: asked_for_def list_ex_iff)
qed

text \<open>
  C21: what a host hides is what the rules say, whatever order they come in and whichever list they are
  in: a selector is hidden when some rule asks for it, for the host or a domain above it or, if the
  generic rules are switched on, for everywhere, and no rule takes it back there.
\<close>

theorem cosmetic_hides_iff:
  "sel \<in> set (cosmetic_selectors host (build_cosmetic c texts now fs)) \<longleftrightarrow>
     asked_for (cosmetic_generic (cosmetic_section c)) (cosmetic_rules c texts fs) sel host
     \<and> \<not> taken_back (cosmetic_rules c texts fs) sel host"
  by (simp add: built_selectors)

lemma parsed_hideable: "parse_rule line = Some r \<Longrightarrow> hideable (r_selector r)"
  by (auto simp: parse_rule_def Let_def split: option.splits prod.splits if_splits)

lemma cosmetic_usable:
  assumes "sel \<in> set (cosmetic_selectors host (build_cosmetic c texts now fs))"
  shows "usable sel"
proof -
  from assms obtain r where "r \<in> set (cosmetic_rules c texts fs)" "r_selector r = sel"
    by (auto simp: built_selectors asked_for_def list_ex_iff)
  then have "hideable sel" using parsed_hideable by (fastforce simp: cosmetic_rules_def cosmetic_rules_of_def set_map_filter)
  then show ?thesis by (simp add: hideable_def)
qed

text \<open>
  A rule whose only domain cannot be read, but which excludes another, is taken for one that applies
  everywhere.
\<close>

lemma lost_domain_becomes_generic:
  "parse_rule ''localhost,~a.example##.ad'' =
     Some \<lparr>r_domains = [], r_except = [''a.example''], r_selector = ''.ad'', r_unhide = False\<rparr>"
  by code_simp

end
