(* ===== verification/Statuspage.thy ===== *)
theory Statuspage
  imports Hidden Cosmetic Blocklist Metrics Link Settings Interstitial
begin

text \<open>
  \<open>src/proxy/src/internal.rs\<close>, the status page: what it is told, every row of it, and the page. Text
  from outside (a host name, a selector a page stored, the file name of a plugin) reaches it only
  through \<^const>\<open>escape\<close>. A character beyond ASCII is the bytes of its UTF-8 form.
\<close>

section \<open>What the page is told\<close>

record snapshot =
  sn_uptime :: nat
  sn_counted :: metrics
  sn_plugins :: "(str \<times> plugin_stats) list"

definition take_snapshot :: "nat \<Rightarrow> metrics \<Rightarrow> snapshot" where
  \<comment> \<open>\<open>Metrics::snapshot\<close>, the plugins in the order of their names\<close>
  "take_snapshot up m =
     \<lparr>sn_uptime = up, sn_counted = m,
      sn_plugins = map (\<lambda>(name, t). (name, plugin_stats_of t)) (Mapping.ordered_entries (plugin_times m))\<rparr>"

datatype client_link = Link_off | Unknown | Measured estimate
datatype decryption = Decrypted | Learned_off | Configured_off

record page_data =
  pg_host :: str
  pg_counted :: snapshot
  pg_selectors :: "str list"
  pg_bypassed :: bool
  pg_list :: "list_status option"
  pg_rules :: "cosmetic_status option"
  pg_ephemeral :: bool
  pg_live :: settings
  pg_link :: client_link
  pg_decryption :: decryption

fun quality_name :: "quality \<Rightarrow> str" where
  "quality_name Auto = ''auto''"
| "quality_name High = ''high''"
| "quality_name Low = ''low''"
| "quality_name Off = ''off''"
| "quality_name NoImages = ''none''"

section \<open>The rows\<close>

definition middot :: str where "middot = [char_of (0xC2 :: nat), char_of (0xB7 :: nat)]"
definition em_dash :: str where "em_dash = [char_of (0xE2 :: nat), char_of (0x80 :: nat), char_of (0x94 :: nat)]"

definition many :: "counter \<Rightarrow> str" where
  "many n = thousands (unat n)"

definition lists_word :: "nat \<Rightarrow> str" where
  "lists_word n = (if n = 1 then ''list'' else ''lists'')"

definition blocked_row :: "metrics \<Rightarrow> list_status option \<Rightarrow> str" where
  \<open>blocked_row m found =
     (case found of
        Some l \<Rightarrow> ''<td>'' @ many (blocked_count m) @ '' <span class="note">of '' @ thousands (ls_domains l)
          @ '' domains, from '' @ show_nat (ls_sources l) @ '' '' @ lists_word (ls_sources l)
          @ '', refreshed '' @ uptime (ls_age l) @ '' ago</span></td>''
      | None \<Rightarrow> ''<td class="note">no blocklist loaded</td>'')\<close>

definition cosmetic_row :: "cosmetic_status option \<Rightarrow> str" where
  \<open>cosmetic_row found =
     (case found of
        Some r \<Rightarrow> ''<td>'' @ thousands (cst_rules r) @ '' <span class="note">from '' @ show_nat (cst_sources r)
          @ '' '' @ lists_word (cst_sources r) @ '', refreshed '' @ uptime (cst_age r) @ '' ago</span></td>''
      | None \<Rightarrow> ''<td class="note">no cosmetic lists loaded</td>'')\<close>

definition caching_row :: "metrics \<Rightarrow> str" where
  \<open>caching_row m =
     ''<td>'' @ share (unat (bytes_saved_by_images m)) (unat (without_mach5 m))
     @ '' <span class="note">from re-encoding '' @ middot @ '' ''
     @ share (unat (bytes_saved_by_origin_cache m)) (unat (bytes_from_origin m + bytes_saved_by_origin_cache m))
     @ '' not re-fetched '' @ middot @ '' '' @ many (origin_cache_hits m) @ '' served, ''
     @ many (origin_cache_revalidated m) @ '' revalidated''
     @ ''</span> <button data-post="/.mach5/cache/clear">empty it</button></td>''\<close>

definition families_row :: "metrics \<Rightarrow> str" where
  \<open>families_row m =
     (if lookups_ipv4_only m + lookups_ipv6_only m + lookups_dual m = 0
      then ''<td class="note">nothing looked up yet</td>''
      else ''<td>'' @ many (lookups_dual m) @ '' <span class="note">both '' @ middot @ '' '' @ many (lookups_ipv4_only m)
        @ '' IPv4 only '' @ middot @ '' '' @ many (lookups_ipv6_only m) @ '' IPv6 only</span></td>'')\<close>

definition plugin_cost_row :: "metrics \<Rightarrow> str" where
  \<open>plugin_cost_row m =
     (if not_cached_for_a_plugin m = 0 then []
      else ''<tr><th>Not cached for a plugin</th><td>'' @ many (not_cached_for_a_plugin m)
        @ '' <span class="note">responses left streaming so a plugin's chunk hooks could run</span></td></tr>'')\<close>

definition parked_row :: "metrics \<Rightarrow> str" where
  \<open>parked_row m =
     (if streams_parked m = 0
      then ''<td class="note">never '' @ em_dash @ '' no client has fallen behind an origin</td>''
      else ''<td>'' @ many (streams_parked m)
        @ '' <span class="note">times a fetch waited for a client to catch up</span></td>'')\<close>

fun decrypting_row :: "str \<Rightarrow> decryption \<Rightarrow> str" where
  \<comment> \<open>over the escaped host\<close>
  \<open>decrypting_row host Learned_off =
     ''<td>not decrypted <span class="note">'' @ middot @ '' learned, and expires on its own</span> ''
     @ ''<button data-post="/.mach5/passthrough/remove">decrypt it again</button></td>''\<close>
| \<open>decrypting_row host Configured_off =
     ''<td>not decrypted <span class="note">'' @ middot @ '' from the configured passthrough list, ''
     @ ''so not '' @ ''changeable from here</span></td>''\<close>
| \<open>decrypting_row host Decrypted =
     ''<td>decrypted <button data-post="/.mach5/passthrough">stop decrypting '' @ host @ ''</button></td>''\<close>

definition injection_row :: "settings \<Rightarrow> str" where
  \<open>injection_row live =
     (case injection live of
        On \<Rightarrow> ''<td>on <button data-set='{"image_quality":"'' @ quality_name (image_quality live)
          @ ''","inject":"off"}'>turn off</button></td>''
      | InjectionOff \<Rightarrow> ''<td class="note">off '' @ em_dash @ '' no panel on any page '' @ tabs 3
          @ ''<button data-set='{"image_quality":"'' @ quality_name (image_quality live)
          @ ''","inject":"on"}'>turn on</button></td>'')\<close>

fun client_link_row :: "client_link \<Rightarrow> str" where
  \<open>client_link_row Link_off = ''<td class="note">not measured &mdash; [link] enabled = false</td>''\<close>
| \<open>client_link_row Unknown = ''<td class="note">not measured yet &mdash; assuming a fast link until ''
     @ ''something has been carried</td>''\<close>
| \<open>client_link_row (Measured e) = ''<td>'' @ Link.label (e_tier e) @ '' <span class="note">'' @ middot @ '' ''
     @ speed (e_kbps e) @ '' '' @ middot @ '' measured '' @ uptime (e_age e div 1000) @ '' ago</span></td>''\<close>

definition to_client_cell :: "metrics \<Rightarrow> str" where
  \<open>to_client_cell m = byte_count (unat (bytes_to_client m)) @ '' <span class="note">of ''
     @ byte_count (unat (without_mach5 m)) @ '' without mach5</span>''\<close>

definition plugin_row :: "str \<times> plugin_stats \<Rightarrow> str" where
  \<open>plugin_row r =
     (case r of (name, stats) \<Rightarrow>
        ''<tr><th>'' @ escape name @ ''</th><td>'' @ many (s_calls stats) @ '' <span class="note">calls, ''
        @ duration (unat (s_mean_micros stats)) @ '' each</span>''
        @ (if s_skipped stats = 0 then []
           else '' <span class="warn">'' @ middot @ '' '' @ many (s_skipped stats)
             @ '' not shown: asked for chunks, but the '' @ tabs 5 @ ''response was buffered to be cached</span>'')
        @ ''</td></tr>'')\<close>

definition plugin_table :: "(str \<times> plugin_stats) list \<Rightarrow> str" where
  "plugin_table plugins =
     (if plugins = [] then []
      else ''<h2>Plugins</h2>'' @ [newline] @ ''  <table>'' @ concat (map plugin_row plugins) @ ''</table>'')"

definition selector_row :: "str \<Rightarrow> str" where
  \<open>selector_row raw =
     (let selector = escape raw
      in ''<li><code>'' @ selector @ ''</code><button data-selector="'' @ selector @ ''">Remove</button></li>'')\<close>

definition selector_list :: "str list \<Rightarrow> str" where
  \<open>selector_list selectors =
     (if selectors = [] then ''<p class="note">Nothing is hidden on this site.</p>''
      else ''<ul>'' @ concat (map selector_row selectors) @ ''</ul>'')\<close>

definition certificates_note :: "bool \<Rightarrow> str" where
  \<open>certificates_note bypassing =
     (if bypassing then ''<p>Certificate validation is <strong>bypassed</strong> for this site until ''
        @ ''the bypass expires.</p>''
      else ''<p class="note">This site&rsquo;s certificate is being validated normally.</p>'')\<close>

definition authority_note :: "bool \<Rightarrow> str" where
  "authority_note ephemeral =
     (if ephemeral then ''<strong>This is an ephemeral dev CA</strong>, regenerated every time mach5 ''
        @ ''restarts &mdash; installing it buys you one run.''
      else ''This is the configured root CA.'')"

definition CERTIFICATE :: str where "CERTIFICATE = ''/.mach5/ca.crt''"

definition certificate_note :: "bool \<Rightarrow> str" where
  \<open>certificate_note ephemeral =
     ''<p class="note"><a href="'' @ CERTIFICATE @ ''">Install the mach5 root certificate</a> on ''
     @ ''a device before anything else here works &mdash; on a phone it usually lands in ''
     @ ''Settings rather than in the browser. '' @ authority_note ephemeral @ ''</p>''\<close>

section \<open>The page\<close>

definition EXTRA :: str where
  \<open>EXTRA = paragraph_of [
      ''<style>'',
      ''body { align-items: flex-start; }'',
      ''table { border-collapse: collapse; width: 100%; margin: 0 0 1rem; }'',
      ''th, td { padding: .35rem 0; font-weight: 400; text-align: left; }'',
      ''td { text-align: right; font-variant-numeric: tabular-nums; }'',
      ''td .note { font-size: .8rem; }'',
      ''/* Only ever used for a plugin that is not seeing what it asked for, which is'',
      ''   the one thing on this page somebody is hunting for rather than reading. */'',
      ''td .warn { font-size: .8rem; font-weight: 500; }'',
      ''h2 { font-size: 1.1rem; font-weight: 500; margin: 2rem 0 .75rem; }'',
      ''ul { list-style: none; margin: 0; padding: 0; }'',
      ''li { display: flex; align-items: center; justify-content: space-between;'',
      ''  gap: 1rem; padding: .35rem 0; }'',
      ''li button { font-size: .8rem; padding: .3rem .7rem; }'',
      ''code { font-family: ui-monospace, SFMono-Regular, Menlo, monospace;'',
      ''  font-size: .85rem; word-break: break-all; }'',
      ''</style>'']\<close>

definition REMOVE :: str where
  \<open>REMOVE = paragraph_of [
      ''<script>'',
      ''addEventListener('click', (e) => {'',
      tabs 1 @ ''const control = e.target.closest('button[data-selector]');'',
      tabs 1 @ ''if (control) {'',
      tabs 2 @ ''fetch('/.mach5/hidden/remove', {'',
      tabs 3 @ ''method: 'POST','',
      tabs 3 @ ''headers: { 'content-type': 'application/json' },'',
      tabs 3 @ ''body: JSON.stringify({ selector: control.dataset.selector }),'',
      tabs 2 @ ''}).then(() => location.reload(), () => {});'',
      [],
      tabs 2 @ ''return;'',
      tabs 1 @ ''}'',
      [],
      tabs 1 @ ''const action = e.target.closest('button[data-post]');'',
      tabs 1 @ ''if (action) {'',
      tabs 2 @ ''fetch(action.dataset.post, { method: 'POST' }).then(() => location.reload(), () => {});'',
      [],
      tabs 2 @ ''return;'',
      tabs 1 @ ''}'',
      [],
      tabs 1 @ ''const setting = e.target.closest('button[data-set]');'',
      tabs 1 @ ''if (setting) {'',
      tabs 2 @ ''fetch('/.mach5/settings', {'',
      tabs 3 @ ''method: 'POST','',
      tabs 3 @ ''headers: { 'content-type': 'application/json' },'',
      tabs 3 @ ''body: setting.dataset.set,'',
      tabs 2 @ ''}).then(() => location.reload(), () => {});'',
      tabs 1 @ ''}'',
      ''});'',
      ''</script>'']\<close>

definition status_page :: "page_data \<Rightarrow> str" where
  \<open>status_page p =
     (let host = escape (pg_host p); m = sn_counted (pg_counted p)
      in paragraph_of [
      ''<!doctype html>'',
      ''<html lang="en">'',
      ''<head>'',
      ''<meta charset="utf-8">'',
      ''<meta name="viewport" content="width=device-width, initial-scale=1">'',
      ''<title>mach5</title>'',
      STYLE,
      EXTRA,
      ''</head>'',
      ''<body>'',
      ''<main>'',
      ''  <h1>mach5</h1>'',
      ''  <p class="lede">Running for '' @ uptime (sn_uptime (pg_counted p)) @ ''.</p>'',
      ''  '' @ certificate_note (pg_ephemeral p),
      ''  <table>'',
      ''    <tr><th>Requests</th><td>'' @ many (requests m) @ ''</td></tr>'',
      ''    <tr><th>Blocked</th>'' @ blocked_row m (pg_list p) @ ''</tr>'',
      ''    <tr><th>Cosmetic rules</th>'' @ cosmetic_row (pg_rules p) @ ''</tr>'',
      ''    <tr><th>mach5 endpoints</th><td>'' @ many (internal_count m) @ ''</td></tr>'',
      ''    <tr><th>Pages injected</th><td>'' @ many (injected m) @ ''</td></tr>'',
      ''    <tr><th>Passed through undecrypted</th><td>'' @ many (passed_through m) @ ''</td></tr>'',
      ''    <tr><th>Panel in pages</th>'' @ injection_row (pg_live p) @ ''</tr>'',
      ''    <tr><th>This host</th>'' @ decrypting_row host (pg_decryption p) @ ''</tr>'',
      ''    <tr><th>This client&rsquo;s link</th>'' @ client_link_row (pg_link p) @ ''</tr>'',
      ''    <tr><th>Origins reachable</th>'' @ families_row m @ ''</tr>'',
      ''    <tr><th>Cache</th>'' @ caching_row m @ ''</tr>'',
      ''    <tr><th>Fetched unvalidated</th><td>'' @ many (bypassed m) @ ''</td></tr>'',
      ''    <tr><th>Certificate failures</th><td>'' @ many (tls_failures m) @ ''</td></tr>'',
      ''    <tr><th>Other upstream failures</th><td>'' @ many (upstream_failures m) @ ''</td></tr>'',
      ''    <tr><th>Body bytes from origins</th><td>'' @ byte_count (unat (bytes_from_origin m)) @ ''</td></tr>'',
      ''    <tr><th>Body bytes to clients</th><td>'' @ to_client_cell m @ ''</td></tr>'',
      ''    <tr><th>Streams held back</th>'' @ parked_row m @ ''</tr>'',
      ''    <tr><th>Bytes saved compressing</th><td>'' @ share (unat (bytes_saved_by_compression m)) (unat (without_mach5 m)) @ ''</td></tr>'',
      ''    <tr><th>Saved by re-encoding images</th><td>'' @ share (unat (bytes_saved_by_images m)) (unat (without_mach5 m)) @ ''</td></tr>'',
      ''    '' @ plugin_cost_row m,
      ''  </table>'',
      ''  '' @ plugin_table (sn_plugins (pg_counted p)),
      ''  <h2>'' @ host @ ''</h2>'',
      ''  '' @ certificates_note (pg_bypassed p),
      ''  '' @ selector_list (pg_selectors p),
      ''</main>'',
      REMOVE,
      ''</body>'',
      ''</html>'',
      []])\<close>

section \<open>Outside text stays text\<close>

lemma concat_rows: "filter P (concat (map f xs)) = concat (map (\<lambda>x. filter P (f x)) xs)"
  by (induction xs) simp_all

lemma selector_row_markup:
  \<open>filter markup (selector_row s) =
   filter markup ''<li><code>'' @ filter markup ''</code><button data-selector="'' @ filter markup ''">Remove</button></li>''\<close>
  unfolding selector_row_def Let_def by (simp only: filter_append escape_no_markup append_Nil)

lemma plugin_row_markup: "filter markup (plugin_row (name, stats)) = filter markup (plugin_row ([], stats))"
  unfolding plugin_row_def prod.case by (simp only: filter_append escape_no_markup escape_Nil filter.simps(1))

lemma selector_list_markup:
  "filter markup (selector_list sels) = filter markup (selector_list (map (\<lambda>_. []) sels))"
proof -
  have "concat (map (\<lambda>s. filter markup (selector_row s)) sels)
      = concat (map (\<lambda>s. filter markup (selector_row s)) (map (\<lambda>_. []) sels))"
    unfolding selector_row_markup by (induction sels) simp_all
  then show ?thesis
    unfolding selector_list_def
    by (simp only: map_is_Nil_conv if_distrib [of "filter markup"] filter_append concat_rows)
qed

lemma plugin_rows_markup:
  "concat (map (\<lambda>r. filter markup (plugin_row r)) rows)
   = concat (map (\<lambda>r. filter markup (plugin_row r)) (map (\<lambda>(name, stats). ([], stats)) rows))"
proof (induction rows)
  case (Cons r rows)
  obtain name stats where "r = (name, stats)" by force
  with Cons show ?case by (simp only: list.map concat.simps prod.case plugin_row_markup [of name stats])
qed simp

lemma plugin_table_markup:
  "filter markup (plugin_table rows) = filter markup (plugin_table (map (\<lambda>(name, stats). ([], stats)) rows))"
  unfolding plugin_table_def
  by (simp only: map_is_Nil_conv if_distrib [of "filter markup"] filter_append concat_rows
      plugin_rows_markup [of rows])

lemma decrypting_row_markup: "filter markup (decrypting_row (escape h) d) = filter markup (decrypting_row [] d)"
  by (cases d) (simp_all only: decrypting_row.simps filter_append escape_no_markup append_Nil filter.simps(1))

text \<open>
  C26: text from outside is text on the status page. Whatever the host is called, whatever a page
  stored as a selector and whatever the file of a plugin is named, the characters of the page that
  can open or close a tag, an attribute value or a comment are the ones of the page with all these
  texts empty.
\<close>

theorem status_page_keeps_its_markup:
  "filter markup (status_page p) =
   filter markup (status_page (p\<lparr>pg_host := [], pg_selectors := map (\<lambda>_. []) (pg_selectors p),
     pg_counted := (pg_counted p)\<lparr>sn_plugins := map (\<lambda>(name, stats). ([], stats)) (sn_plugins (pg_counted p))\<rparr>\<rparr>))"
proof -
  let ?q = "p\<lparr>pg_host := [], pg_selectors := map (\<lambda>_. []) (pg_selectors p),
     pg_counted := (pg_counted p)\<lparr>sn_plugins := map (\<lambda>(name, stats). ([], stats)) (sn_plugins (pg_counted p))\<rparr>\<rparr>"
  have same: "pg_host ?q = []" "pg_selectors ?q = map (\<lambda>_. []) (pg_selectors p)"
      "sn_counted (pg_counted ?q) = sn_counted (pg_counted p)" "sn_uptime (pg_counted ?q) = sn_uptime (pg_counted p)"
      "sn_plugins (pg_counted ?q) = map (\<lambda>(name, stats). ([], stats)) (sn_plugins (pg_counted p))"
      "pg_bypassed ?q = pg_bypassed p" "pg_list ?q = pg_list p" "pg_rules ?q = pg_rules p"
      "pg_ephemeral ?q = pg_ephemeral p" "pg_live ?q = pg_live p" "pg_link ?q = pg_link p"
      "pg_decryption ?q = pg_decryption p"
    by simp_all
  show ?thesis
    unfolding status_page_def Let_def same
    by (simp only: filter_paragraph_of filter_append list.map concat.simps escape_no_markup escape_Nil
        append_Nil append_Nil2 filter.simps(1) decrypting_row_markup
        selector_list_markup [of "pg_selectors p"] plugin_table_markup [of "sn_plugins (pg_counted p)"])
qed

end
