(* ===== verification/Css.thy ===== *)
theory Css
  imports Prelude
begin

text \<open>
  How a browser cuts a stylesheet into rules, after the CSS Syntax specification: comments go, a string
  ends at its quote or at the end of the line, a backslash takes the next character with it, and what is
  open, by a bracket of any kind, has to be closed before a brace counts. It is what the stylesheet the
  proxy writes is read back with; there is no code of the proxy in this theory.
\<close>

datatype css_mode = Bare "char list" | In_comment "char list" | In_string char "char list"
  \<comment> \<open>with the brackets still to be closed\<close>

definition closing :: "char \<Rightarrow> char option" where
  "closing c =
     (if c = CHR ''('' then Some (CHR '')'') else if c = CHR ''['' then Some (CHR '']'')
      else if c = CHR ''{'' then Some (CHR ''}'') else None)"

definition reading :: "char \<Rightarrow> (str \<times> str) option \<Rightarrow> (str \<times> str) option" where
  "reading c r = map_option (\<lambda>(t, rest). (c # t, rest)) r"

definition css_turn :: "char list \<Rightarrow> char \<Rightarrow> css_mode" where
  \<comment> \<open>after a character that ends nothing\<close>
  "css_turn ks c =
     (if c = CHR 0x22 \<or> c = CHR 0x27 then In_string c ks
      else if ks \<noteq> [] \<and> c = hd ks then Bare (tl ks)
      else Bare ((case closing c of Some k \<Rightarrow> [k] | None \<Rightarrow> []) @ ks))"

function (sequential) css_upto :: "char \<Rightarrow> css_mode \<Rightarrow> str \<Rightarrow> (str \<times> str) option" where
  \<comment> \<open>what comes before the first \<open>stop\<close> that nothing encloses, without its comments, and what after\<close>
  "css_upto stop m [] = None"
| "css_upto stop (In_comment ks) (c # s) =
     (if c = CHR ''*'' \<and> starts_with s ''/'' then css_upto stop (Bare ks) (tl s) else css_upto stop (In_comment ks) s)"
| "css_upto stop (In_string q ks) (c # s) =
     (if c = CHR 0x5C then (case s of [] \<Rightarrow> None | d # s \<Rightarrow> reading c (reading d (css_upto stop (In_string q ks) s)))
      else reading c (css_upto stop (if c = q \<or> c = CHR 0x0A then Bare ks else In_string q ks) s))"
| "css_upto stop (Bare ks) (c # s) =
     (if c = CHR ''/'' \<and> starts_with s ''*'' then css_upto stop (In_comment ks) (tl s)
      else if ks = [] \<and> c = stop then Some ([], s)
      else if c = CHR 0x5C then (case s of [] \<Rightarrow> None | d # s \<Rightarrow> reading c (reading d (css_upto stop (Bare ks) s)))
      else reading c (css_upto stop (css_turn ks c) s))"
  by pat_completeness auto
termination
  by (relation "measure (\<lambda>(stop, m, s). length s)") (auto simp: less_Suc_eq_le)

declare css_upto.simps [simp del]

lemma reading_Some [simp]: "reading c r = Some (t, rest) \<longleftrightarrow> (\<exists>t'. t = c # t' \<and> r = Some (t', rest))"
  by (cases r) (auto simp: reading_def)

lemma begins_alike: "s \<noteq> [] \<Longrightarrow> starts_with (s @ rest) [c] = starts_with s [c]"
  by (cases s) simp_all

text \<open>
  What has been read does not depend on what comes after it, and something was.
\<close>

lemma css_upto_append:
  "css_upto stop m s = Some (t, rest) \<Longrightarrow> stop \<noteq> CHR ''/'' \<Longrightarrow>
     css_upto stop m (s @ more) = Some (t, rest @ more) \<and> length rest < length s"
proof (induction stop m s arbitrary: t rest rule: css_upto.induct)
  case (1 stop m)
  then show ?case by (simp add: css_upto.simps)
next
  case (2 stop ks c s)
  note step = css_upto.simps(2) [of stop ks c s] css_upto.simps(2) [of stop ks c "s @ more"]
  from 2(3) have "s \<noteq> []" by (cases s) (auto simp: css_upto.simps)
  then have "starts_with (s @ more) ''/'' = starts_with s ''/''" "tl (s @ more) = tl s @ more" "length (tl s) < length s"
    by (simp_all add: begins_alike)
  with 2 show ?case unfolding append_Cons step by (cases "c = CHR ''*'' \<and> starts_with s ''/''") fastforce+
next
  case (3 stop q ks c s)
  note step = css_upto.simps(3) [of stop q ks c s] css_upto.simps(3) [of stop q ks c "s @ more"]
  show ?case
  proof (cases "c = CHR 0x5C")
    case True
    with 3(3) obtain d s' where s: "s = d # s'" unfolding step by (cases s) auto
    with 3(1) [OF True s] 3(3,4) True show ?thesis unfolding append_Cons step by fastforce
  next
    case False
    with 3(2) [OF False] 3(3,4) show ?thesis unfolding append_Cons step by fastforce
  qed
next
  case (4 stop ks c s)
  note step = css_upto.simps(4) [of stop ks c s] css_upto.simps(4) [of stop ks c "s @ more"]
  consider "ks = [] \<and> c = stop" | "\<not> (ks = [] \<and> c = stop)" "s \<noteq> []"
    using 4(4) by (cases s) (auto simp: css_upto.simps split: if_splits)
  then show ?case
  proof cases
    case 1
    with 4(4,5) show ?thesis unfolding append_Cons step by simp
  next
    case goes_on: 2
    then have begins: "starts_with (s @ more) ''*'' = starts_with s ''*''" "tl (s @ more) = tl s @ more" "length (tl s) < length s"
      by (simp_all add: begins_alike)
    show ?thesis
    proof (cases "c = CHR ''/'' \<and> starts_with s ''*''")
      case True
      with 4(1) [OF True] 4(4,5) begins show ?thesis unfolding append_Cons step by fastforce
    next
      case no_comment: False
      show ?thesis
      proof (cases "c = CHR 0x5C")
        case True
        with goes_on(2) obtain d s' where s: "s = d # s'" by (cases s) auto
        with 4(2) [OF no_comment goes_on(1) True s] 4(4,5) True goes_on(1) show ?thesis unfolding append_Cons step by fastforce
      next
        case False
        with 4(3) [OF no_comment goes_on(1) False] 4(4,5) begins no_comment goes_on(1) show ?thesis
          unfolding append_Cons step by (simp only: if_False reading_Some) fastforce
      qed
    qed
  qed
qed

definition blank :: "char \<Rightarrow> bool" where
  "blank c \<longleftrightarrow> c \<in> {CHR '' '', CHR 0x09, CHR 0x0A, CHR 0x0C, CHR 0x0D}"

function read_sheet :: "str \<Rightarrow> (str \<times> str) list" where
  \<comment> \<open>the rules: what selects up to a brace, and what is declared up to the one that closes it\<close>
  "read_sheet s =
     (case css_upto (CHR ''{'') (Bare []) (dropWhile blank s) of
        None \<Rightarrow> []
      | Some (prelude, rest) \<Rightarrow>
          (case css_upto (CHR ''}'') (Bare []) rest of
             None \<Rightarrow> [(prelude, rest)]
           | Some (block, s) \<Rightarrow> (prelude, block) # read_sheet s))"
  by pat_completeness auto
termination
  by (relation "measure length") (auto dest!: css_upto_append [THEN conjunct2] intro: less_trans less_le_trans [OF _ length_dropWhile_le])

declare read_sheet.simps [simp del]

definition self_contained :: "str \<Rightarrow> bool" where
  \<comment> \<open>followed by a brace it is read up to that brace, and as it stands\<close>
  "self_contained s \<longleftrightarrow> (case s of [] \<Rightarrow> False | c # cs \<Rightarrow> \<not> blank c) \<and> css_upto (CHR ''{'') (Bare []) (s @ '' {'') = Some (s @ '' '', [])"

lemma read_blank: "blank c \<Longrightarrow> read_sheet (c # s) = read_sheet s"
  by (simp add: read_sheet.simps [of "c # s"] read_sheet.simps [of s])

lemma read_rule:
  assumes "self_contained s" and "css_upto (CHR ''}'') (Bare []) (block @ ''}'') = Some (block, [])"
  shows "read_sheet (s @ '' {'' @ block @ ''}'' @ more) = (s @ '' '', block) # read_sheet more"
proof -
  have "css_upto (CHR ''{'') (Bare []) ((s @ '' {'') @ block @ ''}'' @ more) = Some (s @ '' '', [] @ block @ ''}'' @ more)"
    using css_upto_append assms(1) unfolding self_contained_def by blast
  moreover have "css_upto (CHR ''}'') (Bare []) ((block @ ''}'') @ more) = Some (block, [] @ more)"
    using css_upto_append [OF assms(2)] by simp
  moreover have "dropWhile blank (s @ rest) = s @ rest" for rest
    using assms(1) by (cases s) (auto simp: self_contained_def)
  ultimately show ?thesis by (subst read_sheet.simps) simp
qed

text \<open>
  Attributes, quoted or not, and functions are self-contained; what opens a comment, a string or a
  bracket and does not close it is not.
\<close>

lemma self_contained_examples:
  "self_contained ''.ad'' \<and> self_contained ''a[href*=ads] > b:not(.x, .y)'' \<and> self_contained (''a[t='' @ [CHR 0x22] @ ''}{/*'' @ [CHR 0x22] @ '']'')"
  "\<not> self_contained ''.x/*'' \<and> \<not> self_contained ''.x('' \<and> \<not> self_contained (''.x'' @ [CHR 0x27]) \<and> \<not> self_contained ''.x/**/.y''"
  by code_simp+

end
