(* ===== verification/Internal.thy ===== *)
theory Internal
  imports Statuspage Passthrough Insecure Disk Interceptor Css
begin

text \<open>
  \<open>src/proxy/src/internal.rs\<close>: the endpoints under \<open>/.mach5/\<close> on every host: which requests are theirs,
  what each answers and what it changes. The JSON coders of \<open>serde_json\<close> are the fields of \<open>json\<close>,
  the readings of the clocks, the file-system calls that succeed and the embedded script those of
  \<open>moment\<close>. The state is the fields of \<open>Internal\<close> with what they point to, the files of the state
  directory and the listings of the two cache directories.
\<close>

section \<open>The state and the world\<close>

record stats =
  st_counted :: snapshot
  st_link_tier :: "tier option"
  st_link_kbps :: "nat option"
  st_link_clients :: nat

record json =
  js_hidden :: "hidden_map \<Rightarrow> bytes"
  js_learned :: "str list \<Rightarrow> bytes option"
  js_settings :: "settings \<Rightarrow> bytes option"
  js_read_hidden :: "bytes \<Rightarrow> hidden_map option"
  js_read_learned :: "bytes \<Rightarrow> str list option"
  js_settings_body :: "settings \<Rightarrow> bytes"
  js_selectors_body :: "str list \<Rightarrow> bytes"
  js_stats_body :: "stats \<Rightarrow> bytes"
  js_read_settings :: "bytes \<Rightarrow> settings option"
  js_read_token :: "bytes \<Rightarrow> str option"
  js_read_selector :: "bytes \<Rightarrow> str option"

record moment =
  at_nanos :: nat
  at_nanos_later :: nat
  at_millis :: nat
  at_secs :: nat
  at_secs_later :: nat
  at_uptime :: nat
  at_granted :: bool
  at_removable :: "str \<Rightarrow> bool"
  at_script :: bytes

record internal =
  it_store :: hidden_store
  it_settings :: Settings.store
  it_images :: "dirent option list option"
  it_origins :: "dirent option list option"
  it_bypasses :: bypasses
  it_learned :: "learned option"
  it_passthrough :: passthrough
  it_bypass_ttl :: "nat option"
  it_metrics :: metrics
  it_root :: bytes
  it_ephemeral :: bool
  it_blocklist :: "blocklist option"
  it_cosmetic :: "cosmetic option"
  it_links :: "links option"
  it_files :: files

definition shared_learned :: "json \<Rightarrow> config \<Rightarrow> nat \<Rightarrow> files \<Rightarrow> learned" where
  \<comment> \<open>\<open>passthrough::learned\<close>\<close>
  "shared_learned j c now fs = load_learned (js_read_learned j) (path_join (state_dir (paths_section c)) ''passthrough.json'') now fs"

definition shared_hidden :: "json \<Rightarrow> config \<Rightarrow> files \<Rightarrow> hidden_store" where
  "shared_hidden j c fs = load_hidden (js_read_hidden j) (path_join (state_dir (paths_section c)) ''hidden.json'') fs"

definition shared_settings :: "json \<Rightarrow> config \<Rightarrow> files \<Rightarrow> Settings.store" where
  "shared_settings j c fs =
     Settings.load (js_read_settings j)
       (case fs (path_join (state_dir (paths_section c)) ''settings.json'') of Some b \<Rightarrow> Content b | None \<Rightarrow> Missing)"

definition shared_blocklist :: "config \<Rightarrow> nat \<Rightarrow> files \<Rightarrow> blocklist" where
  "shared_blocklist c now fs =
     (let b = blocklist_section c
      in Blocklist.build now (\<lambda>p. Option.bind (fs p) from_utf8) b
           (cached \<lparr>lc_dir = ''blocklists'', lc_kind = ''blocklist''\<rparr> c (blocklist_urls b) fs))"

definition new_internal :: "json \<Rightarrow> config \<Rightarrow> bytes \<Rightarrow> bool \<Rightarrow> nat \<Rightarrow> dirent option list option \<Rightarrow> dirent option list option \<Rightarrow> files \<Rightarrow> internal" where
  \<comment> \<open>in a process that has just started, with its root certificate and whether that is a generated one\<close>
  "new_internal j c root ephemeral now images origins fs =
     \<lparr>it_store = shared_hidden j c fs, it_settings = shared_settings j c fs,
      it_images = images, it_origins = origins, it_bypasses = default_bypasses,
      it_learned = Some (shared_learned j c now fs), it_passthrough = new_passthrough c fs,
      it_bypass_ttl = map_option (\<lambda>phrase. bypass_ttl (tls_section c) * second) (bypass_phrase (tls_section c)),
      it_metrics = default_metrics, it_root = root, it_ephemeral = ephemeral,
      it_blocklist = (if blocklist_enabled (blocklist_section c) then Some (shared_blocklist c now fs) else None),
      it_cosmetic = (if cosmetic_enabled (cosmetic_section c) then Some (shared_cosmetic c now fs) else None),
      it_links = (if link_enabled (link_section c) then Some (Link.new (link_section c)) else None),
      it_files = fs\<rparr>"

section \<open>Requests and answers\<close>

definition PREFIX :: str where "PREFIX = ''/.mach5/''"
definition BYPASS :: str where "BYPASS = ''/.mach5/bypass''"
definition CERTIFICATE_ALIAS :: str where "CERTIFICATE_ALIAS = ''/.mach5/ca''"
definition CERTIFICATE_FILENAME :: str where "CERTIFICATE_FILENAME = ''mach5-root.crt''"

definition empty_answer :: "nat \<Rightarrow> proxy_response" where
  \<comment> \<open>\<open>empty\<close>\<close>
  "empty_answer status = \<lparr>rs_status = status, rs_headers = [(''cache-control'', ''no-store'')], rs_body = []\<rparr>"

definition answer_with :: "str \<Rightarrow> bytes \<Rightarrow> proxy_response" where
  \<comment> \<open>\<open>empty(200)\<close> with a type and a body\<close>
  "answer_with kind content =
     (let response = empty_answer 200
      in response\<lparr>rs_headers := rs_headers response @ [(''content-type'', kind)], rs_body := content\<rparr>)"

definition same_origin :: "headers \<Rightarrow> bool" where
  "same_origin hs \<longleftrightarrow>
     (case map_option (\<lambda>(n, v). trim v) (find (\<lambda>(n, v). eq_ci n ''sec-fetch-site'') hs) of
        Some site \<Rightarrow> eq_ci site ''same-origin'' \<or> eq_ci site ''none''
      | None \<Rightarrow> True)"

definition is_ours :: "str \<Rightarrow> bool" where
  "is_ours path \<longleftrightarrow> starts_with path PREFIX \<or> path = trim_end_matches (CHR ''/'') PREFIX"

definition path_of :: "str \<Rightarrow> str" where
  "path_of url =
     (let rest = (case split_scheme url of Some (scheme, rest) \<Rightarrow> rest | None \<Rightarrow> url) in
      case find_char (\<lambda>c. c = CHR ''/'') rest of
        None \<Rightarrow> ''/''
      | Some start \<Rightarrow> hd (split_on (\<lambda>c. c = CHR ''?'' \<or> c = CHR ''#'') (drop start rest)))"

section \<open>The endpoints\<close>

definition bypass :: "json \<Rightarrow> moment \<Rightarrow> str \<Rightarrow> bytes \<Rightarrow> nat \<Rightarrow> internal \<Rightarrow> proxy_response \<times> internal" where
  "bypass j w host body lasting it =
     (case js_read_token j body of
        None \<Rightarrow> (empty_answer 400, it)
      | Some tok \<Rightarrow>
          (case redeem host tok lasting (at_nanos w) (at_nanos_later w) (it_bypasses it) of
             (redeemed, b) \<Rightarrow> (empty_answer (if redeemed then 204 else 403), it\<lparr>it_bypasses := b\<rparr>)))"

definition estimate_for :: "moment \<Rightarrow> socket_addr option \<Rightarrow> internal \<Rightarrow> estimate option" where
  "estimate_for w peer it =
     Option.bind (it_links it) (\<lambda>l. Option.bind peer (\<lambda>p. estimate_at (fst p) (at_millis w) l))"

definition link_of :: "moment \<Rightarrow> socket_addr option \<Rightarrow> internal \<Rightarrow> client_link" where
  "link_of w peer it =
     (if it_links it = None then Link_off
      else (case estimate_for w peer it of Some e \<Rightarrow> Measured e | None \<Rightarrow> Unknown))"

definition decryption_of :: "moment \<Rightarrow> str \<Rightarrow> internal \<Rightarrow> decryption \<times> internal" where
  "decryption_of w host it =
     (let (held, l) = (case it_learned it of
            Some l \<Rightarrow> (case learned_holds (at_secs w) host l of (b, l) \<Rightarrow> (b, Some l))
          | None \<Rightarrow> (False, None))
      in (if held then Learned_off else if pt_covers (it_passthrough it) host then Configured_off else Decrypted,
          it\<lparr>it_learned := l\<rparr>))"

definition status :: "moment \<Rightarrow> str \<Rightarrow> socket_addr option \<Rightarrow> internal \<Rightarrow> proxy_response \<times> internal" where
  "status w host peer it =
     (let (dec, it) = decryption_of w host it;
          counted = take_snapshot (at_uptime w) (it_metrics it);
          (allowed, b) = allows host (at_nanos w) (it_bypasses it);
          it = it\<lparr>it_bypasses := b\<rparr>;
          content = status_page
            \<lparr>pg_host = host, pg_counted = counted, pg_selectors = hidden_selectors host (it_store it),
             pg_bypassed = allowed,
             pg_list = Option.bind (it_blocklist it) (\<lambda>l.
               let found = list_status_of (at_secs w) l in if ls_domains found > 0 then Some found else None),
             pg_rules = Option.bind (it_cosmetic it) (\<lambda>c.
               let found = cosmetic_status_of (at_secs w) c in if cst_rules found > 0 then Some found else None),
             pg_ephemeral = it_ephemeral it, pg_live = get (it_settings it), pg_link = link_of w peer it,
             pg_decryption = dec\<rparr>
      in (answer_with ''text/html; charset=utf-8'' (as_bytes content), it))"

definition certificate :: "internal \<Rightarrow> proxy_response" where
  \<open>certificate it =
     (let response = empty_answer 200
      in response\<lparr>rs_headers := rs_headers response @
           [(''content-type'', ''application/x-x509-ca-cert''),
            (''content-disposition'', ''attachment; filename="'' @ CERTIFICATE_FILENAME @ ''"'')],
         rs_body := it_root it\<rparr>)\<close>

definition stats_of :: "json \<Rightarrow> moment \<Rightarrow> socket_addr option \<Rightarrow> internal \<Rightarrow> proxy_response" where
  \<comment> \<open>\<open>stats\<close>\<close>
  "stats_of j w peer it =
     (let measured = estimate_for w peer it
      in answer_with ''application/json'' (js_stats_body j
           \<lparr>st_counted = take_snapshot (at_uptime w) (it_metrics it), st_link_tier = map_option e_tier measured,
            st_link_kbps = map_option e_kbps measured,
            st_link_clients = (case it_links it of None \<Rightarrow> 0 | Some l \<Rightarrow> tracked l)\<rparr>))"

definition settings_answer :: "json \<Rightarrow> internal \<Rightarrow> proxy_response" where
  "settings_answer j it = answer_with ''application/json'' (js_settings_body j (get (it_settings it)))"

definition change_settings :: "json \<Rightarrow> moment \<Rightarrow> bytes \<Rightarrow> internal \<Rightarrow> proxy_response \<times> internal" where
  "change_settings j w body it =
     (case js_read_settings j body of
        None \<Rightarrow> (empty_answer 400, it)
      | Some wanted \<Rightarrow>
          (let it = it\<lparr>it_settings := set_settings (js_settings j) (at_granted w) wanted (it_settings it)\<rparr>
           in (settings_answer j it, it)))"

definition emptied :: "(str \<Rightarrow> bool) \<Rightarrow> dirent option list option \<Rightarrow> dirent option list option" where
  \<comment> \<open>what \<open>disk::empty\<close> leaves of a directory\<close>
  "emptied can entries =
     map_option (filter (\<lambda>e. case e of None \<Rightarrow> True | Some d \<Rightarrow> \<not> can (d_path d))) entries"

definition clear_caches :: "moment \<Rightarrow> internal \<Rightarrow> proxy_response \<times> internal" where
  "clear_caches w it =
     (empty_answer 204, it\<lparr>it_images := emptied (at_removable w) (it_images it),
                           it_origins := emptied (at_removable w) (it_origins it)\<rparr>)"

definition hidden :: "json \<Rightarrow> str \<Rightarrow> internal \<Rightarrow> proxy_response" where
  "hidden j host it = answer_with ''application/json'' (js_selectors_body j (hidden_selectors host (it_store it)))"

definition stop_decrypting :: "json \<Rightarrow> moment \<Rightarrow> str \<Rightarrow> internal \<Rightarrow> proxy_response \<times> internal" where
  "stop_decrypting j w host it =
     (case it_learned it of
        None \<Rightarrow> (empty_answer 404, it)
      | Some l \<Rightarrow>
          (case learned_add (js_learned j) (at_granted w) (at_secs w) (at_secs_later w) host l (it_files it) of
             (is_new, l, fs) \<Rightarrow> (empty_answer 204, it\<lparr>it_learned := Some l, it_files := fs\<rparr>)))"

definition resume_decrypting :: "json \<Rightarrow> moment \<Rightarrow> str \<Rightarrow> internal \<Rightarrow> proxy_response \<times> internal" where
  "resume_decrypting j w host it =
     (case it_learned it of
        None \<Rightarrow> (empty_answer 404, it)
      | Some l \<Rightarrow>
          (case learned_remove (js_learned j) (at_granted w) (at_secs w) host l (it_files it) of
             (removed, l, fs) \<Rightarrow> (empty_answer 204, it\<lparr>it_learned := Some l, it_files := fs\<rparr>)))"

definition sheet_line :: "str \<Rightarrow> str" where
  "sheet_line selector = selector @ '' { display: none !important }'' @ [newline]"

definition sheet_selectors :: "str \<Rightarrow> internal \<Rightarrow> str list" where
  "sheet_selectors host it =
     (let picked = filter usable (hidden_selectors host (it_store it));
          listed = filter (\<lambda>s. s \<notin> set picked)
            (case it_cosmetic it of Some c \<Rightarrow> cosmetic_selectors host c | None \<Rightarrow> [])
      in picked @ listed)"

definition sheet :: "str list \<Rightarrow> str" where
  "sheet selectors = concat (map sheet_line selectors)"

definition stylesheet :: "str \<Rightarrow> internal \<Rightarrow> proxy_response" where
  "stylesheet host it = answer_with ''text/css; charset=utf-8'' (as_bytes (sheet (sheet_selectors host it)))"

definition hide :: "json \<Rightarrow> moment \<Rightarrow> str \<Rightarrow> bytes \<Rightarrow> internal \<Rightarrow> proxy_response \<times> internal" where
  "hide j w host body it =
     (case js_read_selector j body of
        None \<Rightarrow> (empty_answer 400, it)
      | Some raw \<Rightarrow>
          (let selector = trim raw in
           if selector = [] \<or> length selector > MAX_SELECTOR_BYTES then (empty_answer 400, it)
           else (case hidden_add (js_hidden j) (at_granted w) host selector (it_store it) (it_files it) of
                   (added, st, fs) \<Rightarrow>
                     (empty_answer (if added then 204 else 409), it\<lparr>it_store := st, it_files := fs\<rparr>))))"

definition unhide :: "json \<Rightarrow> moment \<Rightarrow> str \<Rightarrow> bytes \<Rightarrow> internal \<Rightarrow> proxy_response \<times> internal" where
  "unhide j w host body it =
     (case js_read_selector j body of
        None \<Rightarrow> (empty_answer 400, it)
      | Some raw \<Rightarrow>
          (case hidden_remove (js_hidden j) (at_granted w) host (trim raw) (it_store it) (it_files it) of
             (st, fs) \<Rightarrow> (empty_answer 204, it\<lparr>it_store := st, it_files := fs\<rparr>)))"

definition clear_hidden :: "json \<Rightarrow> moment \<Rightarrow> str \<Rightarrow> internal \<Rightarrow> proxy_response \<times> internal" where
  \<comment> \<open>the arm of \<open>/.mach5/hidden/clear\<close>\<close>
  "clear_hidden j w host it =
     (case hidden_clear (js_hidden j) (at_granted w) host (it_store it) (it_files it) of
        (st, fs) \<Rightarrow> (empty_answer 204, it\<lparr>it_store := st, it_files := fs\<rparr>))"

definition script :: "moment \<Rightarrow> proxy_response" where
  "script w =
     \<lparr>rs_status = 200,
      rs_headers = [(''content-type'', ''text/javascript; charset=utf-8''), (''cache-control'', ''max-age=300'')],
      rs_body = at_script w\<rparr>"

section \<open>The table\<close>

definition PATHS :: "str list" where
  \<comment> \<open>the paths of the last arm but one of \<open>route\<close>\<close>
  "PATHS = [''/.mach5'', ''/.mach5/'', ''/.mach5/cache/clear'', ''/.mach5/settings'', ''/.mach5/stats.json'',
     ''/.mach5/hidden'', ''/.mach5/hidden/remove'', ''/.mach5/hidden/clear'', ''/.mach5/passthrough'',
     ''/.mach5/passthrough/remove'', ''/.mach5/hidden.css'', ''/.mach5/mach5.js'', CERTIFICATE, CERTIFICATE_ALIAS]"

definition route :: "json \<Rightarrow> moment \<Rightarrow> str \<Rightarrow> socket_addr option \<Rightarrow> str \<Rightarrow> str \<Rightarrow> bytes \<Rightarrow> internal \<Rightarrow> proxy_response \<times> internal" where
  "route j w host peer meth path body it =
     (let get = (meth = ''GET''); post = (meth = ''POST'') in
      if path = BYPASS then
        (case it_bypass_ttl it of
           Some lasting \<Rightarrow> if post then bypass j w host body lasting it else (empty_answer 405, it)
         | None \<Rightarrow> (empty_answer 404, it))
      else if (path = ''/.mach5'' \<or> path = ''/.mach5/'') \<and> get then status w host peer it
      else if path = ''/.mach5/stats.json'' \<and> get then (stats_of j w peer it, it)
      else if path = ''/.mach5/hidden'' \<and> get then (hidden j host it, it)
      else if path = ''/.mach5/hidden'' \<and> post then hide j w host body it
      else if path = ''/.mach5/hidden/remove'' \<and> post then unhide j w host body it
      else if path = ''/.mach5/hidden/clear'' \<and> post then clear_hidden j w host it
      else if path = ''/.mach5/cache/clear'' \<and> post then clear_caches w it
      else if path = ''/.mach5/settings'' \<and> get then (settings_answer j it, it)
      else if path = ''/.mach5/settings'' \<and> post then change_settings j w body it
      else if path = ''/.mach5/passthrough'' \<and> post then stop_decrypting j w host it
      else if path = ''/.mach5/passthrough/remove'' \<and> post then resume_decrypting j w host it
      else if path = ''/.mach5/hidden.css'' \<and> get then (stylesheet host it, it)
      else if path = ''/.mach5/mach5.js'' \<and> get then (script w, it)
      else if (path = CERTIFICATE \<or> path = CERTIFICATE_ALIAS) \<and> get then (certificate it, it)
      else if path \<in> set PATHS then (empty_answer 405, it)
      else (empty_answer 404, it))"

definition count_internal :: "internal \<Rightarrow> internal" where
  "count_internal it = it\<lparr>it_metrics := (it_metrics it)\<lparr>internal_count := increment (internal_count (it_metrics it))\<rparr>\<rparr>"

definition internal_request :: "json \<Rightarrow> moment \<Rightarrow> proxy_request \<Rightarrow> internal \<Rightarrow> proxy_response option \<times> internal" where
  \<comment> \<open>\<open>on_request\<close>; the request is only read\<close>
  "internal_request j w req it =
     (let path = path_of (rq_url req) in
      if \<not> is_ours path then (None, it)
      else if rq_method req \<noteq> ''GET'' \<and> \<not> same_origin (rq_headers req) then
        (Some (empty_answer 403), count_internal it)
      else (case route j w (host_of (rq_url req)) (rq_peer req) (rq_method req) path (rq_body req) (count_internal it) of
              (response, it) \<Rightarrow> (Some response, it)))"

definition internal_hooks :: "json \<Rightarrow> moment \<Rightarrow> internal hooks" where
  "internal_hooks j w = default_hooks\<lparr>
     on_request_hook := \<lambda>req it. (case internal_request j w req it of (answer, it) \<Rightarrow> (answer, req, it)),
     wants_request_body_hook := \<lambda>req it. is_ours (path_of (rq_url req)),
     wants_body_hook := \<lambda>req head it. False\<rparr>"

section \<open>What a request changes\<close>

lemma if_eqE: "(if c then a else b) = r \<Longrightarrow> (c \<Longrightarrow> a = r \<Longrightarrow> thesis) \<Longrightarrow> (b = r \<Longrightarrow> thesis) \<Longrightarrow> thesis"
  by (simp split: if_splits)

lemma option_eqE:
  "(case x of None \<Rightarrow> a | Some y \<Rightarrow> f y) = r \<Longrightarrow> (x = None \<Longrightarrow> a = r \<Longrightarrow> thesis) \<Longrightarrow> (\<And>y. x = Some y \<Longrightarrow> f y = r \<Longrightarrow> thesis) \<Longrightarrow> thesis"
  by (cases x) simp_all

lemma route_cases [case_names Reads Status Bypass Hide Unhide Clear Caches Settings Stop Resume]:
  obtains r where "route j w host peer meth path body it = (r, it)"
  | "meth = ''GET''" "route j w host peer meth path body it = status w host peer it"
  | lasting where "path = BYPASS" "meth = ''POST''" "it_bypass_ttl it = Some lasting"
      "route j w host peer meth path body it = bypass j w host body lasting it"
  | "meth = ''POST''" "route j w host peer meth path body it = hide j w host body it"
  | "meth = ''POST''" "route j w host peer meth path body it = unhide j w host body it"
  | "meth = ''POST''" "route j w host peer meth path body it = clear_hidden j w host it"
  | "meth = ''POST''" "route j w host peer meth path body it = clear_caches w it"
  | "meth = ''POST''" "route j w host peer meth path body it = change_settings j w body it"
  | "meth = ''POST''" "route j w host peer meth path body it = stop_decrypting j w host it"
  | "meth = ''POST''" "route j w host peer meth path body it = resume_decrypting j w host it"
proof -
  note arms = that
  obtain r where r: "route j w host peer meth path body it = r" by blast
  then show thesis
    unfolding route_def Let_def
    by (elim if_eqE option_eqE conjE) ((erule arms [unfolded r, OF sym] | rule arms [unfolded r]; (assumption | erule sym)); fail)+
qed

definition seen_bypass :: "nat \<Rightarrow> str \<Rightarrow> internal \<Rightarrow> bool" where
  \<comment> \<open>whether the certificate of a host goes unchecked at a moment\<close>
  "seen_bypass t k it = fst (allows k t (it_bypasses it))"

definition seen_learned :: "nat \<Rightarrow> str \<Rightarrow> internal \<Rightarrow> bool" where
  "seen_learned t k it = (case it_learned it of Some l \<Rightarrow> fst (learned_holds t k l) | None \<Rightarrow> False)"

lemma allows_later: "now \<le> t \<Longrightarrow> fst (allows k t (snd (allows h now b))) = fst (allows k t b)"
  by (auto simp: allows_def Let_def retain_None retain_Some) 

lemma allows_redeemed:
  "key k \<noteq> key h \<Longrightarrow> fst (allows k t (snd (redeem h tok d now later b))) = fst (allows k t b)"
  by (auto simp: allows_def Let_def retain_def redeem_hosts)

lemma live_later: "now \<le> t \<Longrightarrow> live t (live now l) = live t l"
proof -
  assume "now \<le> t"
  then have "Mapping.filter (\<lambda>_ at. t - at < LEARNED_TTL) (Mapping.filter (\<lambda>_ at. now - at < LEARNED_TTL) m)
      = Mapping.filter (\<lambda>_ at. t - at < LEARNED_TTL) m" for m :: "(str, nat) mapping"
    by (intro mapping_eqI) (auto simp: lookup_filter split: option.split)
  then show ?thesis by (simp add: live_def)
qed

lemma holds_later: "now \<le> t \<Longrightarrow> fst (learned_holds t k (snd (learned_holds now h l))) = fst (learned_holds t k l)"
  by (auto simp: learned_holds_def live_later split: option.split)

lemma holds_live: "fst (learned_holds t k l) = (case normalize_host k of None \<Rightarrow> False | Some h \<Rightarrow> Mapping.lookup (ln_hosts (live t l)) h \<noteq> None)"
  by (simp add: learned_holds_def split: option.split)
lemma live_update:
  "h \<noteq> k \<Longrightarrow> Mapping.lookup (ln_hosts (live t (l\<lparr>ln_hosts := Mapping.update h v (ln_hosts m)\<rparr>))) k = Mapping.lookup (ln_hosts (live t m)) k"
  "h \<noteq> k \<Longrightarrow> Mapping.lookup (ln_hosts (live t (l\<lparr>ln_hosts := Mapping.delete h (ln_hosts m)\<rparr>))) k = Mapping.lookup (ln_hosts (live t m)) k"
  by (simp_all add: lookup_live lookup_update' lookup_without)

lemma holds_added:
  assumes "now \<le> t" "normalize_host k \<noteq> normalize_host h"
  shows "fst (learned_holds t k (fst (snd (learned_add enc granted now stamped h l fs)))) = fst (learned_holds t k l)"
  using assms by (auto simp: learned_add_def Let_def holds_live live_update live_later split: option.split)

lemma holds_removed:
  assumes "now \<le> t" "normalize_host k \<noteq> normalize_host h"
  shows "fst (learned_holds t k (fst (snd (learned_remove enc granted now h l fs)))) = fst (learned_holds t k l)"
  using assms by (auto simp: learned_remove_def Let_def holds_live live_update live_later split: option.split)

lemma hide_elsewhere:
  "k \<noteq> h \<Longrightarrow> hidden_selectors k (fst (snd (hidden_add enc g h sel st fs))) = hidden_selectors k st"
  "k \<noteq> h \<Longrightarrow> hidden_selectors k (fst (hidden_remove enc g h sel st fs)) = hidden_selectors k st"
  "k \<noteq> h \<Longrightarrow> hidden_selectors k (fst (hidden_clear enc g h st fs)) = hidden_selectors k st"
  using hs.apart [of h k enc g "Hide sel" "(st, fs)"] hs.apart [of h k enc g "Unhide sel" "(st, fs)"]
    hs.apart [of h k enc g Clear "(st, fs)"] by simp_all

definition fixed :: "internal \<Rightarrow> passthrough \<times> nat option \<times> bytes \<times> blocklist option \<times> cosmetic option" where
  \<comment> \<open>what no request can reach\<close>
  "fixed it = (it_passthrough it, it_bypass_ttl it, it_root it, it_blocklist it, it_cosmetic it)"

definition same_for :: "nat \<Rightarrow> nat \<Rightarrow> str \<Rightarrow> internal \<Rightarrow> internal \<Rightarrow> bool" where
  \<comment> \<open>what a host has and what is done for it, at these moments, and what no request can reach\<close>
  "same_for t u k it it' \<longleftrightarrow> hidden_selectors k (it_store it') = hidden_selectors k (it_store it)
     \<and> seen_bypass t k it' = seen_bypass t k it \<and> seen_learned u k it' = seen_learned u k it \<and> fixed it' = fixed it"

lemma same_for_refl [simp]: "same_for t u k it it"
  by (simp add: same_for_def)

lemma same_for_counted: "same_for t u k (count_internal it) it' = same_for t u k it it'"
  by (simp add: same_for_def count_internal_def seen_bypass_def seen_learned_def fixed_def)

lemma decryption_state:
  "snd (decryption_of w host it) = it\<lparr>it_learned := map_option (\<lambda>l. snd (learned_holds (at_secs w) host l)) (it_learned it)\<rparr>"
  by (cases "it_learned it") (simp_all add: decryption_of_def Let_def split_def)

lemma status_state:
  "snd (status w host peer it) =
     it\<lparr>it_learned := map_option (\<lambda>l. snd (learned_holds (at_secs w) host l)) (it_learned it),
        it_bypasses := snd (allows host (at_nanos w) (it_bypasses it))\<rparr>"
  unfolding status_def Let_def split_def snd_conv decryption_state by simp

lemma same_for_status:
  assumes "at_nanos w \<le> t" and "at_secs w \<le> u"
  shows "same_for t u k it (snd (status w host peer it))"
  using assms
  by (simp add: status_state same_for_def seen_bypass_def seen_learned_def fixed_def allows_later holds_later split: option.split)

lemma same_for_route:
  assumes "key k \<noteq> key host" and "normalize_host k \<noteq> normalize_host host"
    and "at_nanos w \<le> t" and "at_secs w \<le> u"
  shows "same_for t u k it (snd (route j w host peer meth path body it))"
proof -
  from assms(1) have apart: "k \<noteq> host" by blast
  note views = same_for_def seen_bypass_def seen_learned_def fixed_def
  show ?thesis
  proof (cases rule: route_cases [of j w host peer meth path body it])
    case Status
    with same_for_status [OF assms(3,4)] show ?thesis by simp
  next
    case (Bypass lasting)
    with assms(1) show ?thesis
      by (simp add: bypass_def views allows_redeemed split_def split: option.split)
  next
    case Hide
    with apart show ?thesis by (simp add: hide_def views hide_elsewhere Let_def split_def split: option.split)
  next
    case Unhide
    with apart show ?thesis by (simp add: unhide_def views hide_elsewhere split_def split: option.split)
  next
    case Clear
    with apart show ?thesis by (simp add: clear_hidden_def views hide_elsewhere split_def)
  next
    case Stop
    with assms(2,4) show ?thesis
      by (simp add: stop_decrypting_def views holds_added split_def split: option.split)
  next
    case Resume
    with assms(2,4) show ?thesis
      by (simp add: resume_decrypting_def views holds_removed split_def split: option.split)
  qed (simp_all add: clear_caches_def change_settings_def views Let_def split: option.split)
qed

lemma same_for_count [simp]: "same_for t u k it (count_internal it)"
  using same_for_counted [of t u k it] same_for_refl by blast

text \<open>
  C2: a page reaches its own site and no other. Whatever is sent to \<open>/.mach5/\<close> on one host, with whatever
  body, at every other host the same elements are hidden as before, the certificate is checked as
  before and the traffic is decrypted as before, at any later moment; and no request reaches the
  configured pass-through list, the length of a bypass, the root certificate or the filter lists.
\<close>

theorem page_reaches_its_own_site:
  assumes "key k \<noteq> key (host_of (rq_url req))" and "normalize_host k \<noteq> normalize_host (host_of (rq_url req))"
    and "at_nanos w \<le> t" and "at_secs w \<le> u"
  shows "same_for t u k it (snd (internal_request j w req it))"
  using same_for_route [OF assms, of "count_internal it" j "rq_peer req" "rq_method req"]
  by (simp add: internal_request_def Let_def split_def same_for_counted)

definition no_json :: json where
  \<comment> \<open>an example: every body is read as one selector, one token and the default settings\<close>
  "no_json = \<lparr>js_hidden = \<lambda>_. [], js_learned = \<lambda>_. Some [], js_settings = \<lambda>_. Some [], js_read_hidden = \<lambda>_. None,
     js_read_learned = \<lambda>_. None, js_settings_body = \<lambda>_. [], js_selectors_body = \<lambda>_. [], js_stats_body = \<lambda>_. [],
     js_read_settings = \<lambda>_. Some default_settings, js_read_token = \<lambda>_. Some ''00'', js_read_selector = \<lambda>_. Some '' .ad ''\<rparr>"

definition noon :: moment where
  "noon = \<lparr>at_nanos = 0, at_nanos_later = 0, at_millis = 0, at_secs = 0, at_secs_later = 0, at_uptime = 0,
     at_granted = True, at_removable = \<lambda>_. True, at_script = []\<rparr>"

definition fresh_internal :: internal where
  "fresh_internal = new_internal no_json (default_config bare) [] False 0 None None Map.empty"

definition post_to :: "str \<Rightarrow> proxy_request" where
  "post_to url = simple_request\<lparr>rq_method := ''POST'', rq_url := url\<rparr>"

theorem page_reaches_its_own_site_witness:
  "same_for 5 5 ''b.example'' fresh_internal
     (snd (internal_request no_json noon (post_to ''https://a.example/.mach5/hidden'') fresh_internal))"
  by (rule page_reaches_its_own_site) code_simp+

section \<open>Reading changes nothing, and a write comes from the site itself\<close>

definition kept :: "internal \<Rightarrow> hidden_store \<times> Settings.store \<times> dirent option list option \<times> dirent option list option \<times> files" where
  "kept it = (it_store it, it_settings it, it_images it, it_origins it, it_files it)"

lemma route_reads:
  assumes "at_nanos w \<le> t" and "at_secs w \<le> u"
  shows "kept (snd (route j w host peer ''GET'' path body it)) = kept it
    \<and> same_for t u k it (snd (route j w host peer ''GET'' path body it))
    \<and> offered (it_bypasses (snd (route j w host peer ''GET'' path body it))) = offered (it_bypasses it)"
proof (cases rule: route_cases [of j w host peer "''GET''" path body it])
  case Status
  with same_for_status [OF assms, of k it host peer] show ?thesis
    by (simp add: status_state kept_def allows_def Let_def)
qed simp_all

lemma counted_kept [simp]: "kept (count_internal it) = kept it" "it_bypasses (count_internal it) = it_bypasses it"
  by (simp_all add: kept_def count_internal_def)

text \<open>
  A request that only reads changes nothing that is kept: not the stores, not the caches, not a
  file, not a token that was offered, and at no later moment is any host hidden from, trusted or
  decrypted otherwise than before.
\<close>

theorem reading_changes_nothing:
  assumes "rq_method req = ''GET''" and "at_nanos w \<le> t" and "at_secs w \<le> u"
    and "it' = snd (internal_request j w req it)"
  shows "kept it' = kept it \<and> same_for t u k it it' \<and> offered (it_bypasses it') = offered (it_bypasses it)"
  using assms(1,4) route_reads [OF assms(2,3), of j "host_of (rq_url req)" "rq_peer req" "path_of (rq_url req)" "rq_body req" "count_internal it" k]
  by (simp add: internal_request_def Let_def split_def same_for_counted)

theorem reading_changes_nothing_witness:
  "kept (snd (internal_request no_json noon simple_request fresh_internal)) = kept fresh_internal"
  using reading_changes_nothing [of simple_request noon 0 0 "snd (internal_request no_json noon simple_request fresh_internal)" no_json fresh_internal]
  by (simp add: simple_request_def noon_def)

lemma find_after: "list_all (\<lambda>x. \<not> P x) before \<Longrightarrow> P x \<Longrightarrow> find P (before @ x # after) = Some x"
  by (induction before) auto

text \<open>
  C30: no page can make a browser write to another site. A request that is not a \<open>GET\<close> and that the
  browser says came from another site is answered 403, its body is not looked at, and nothing but a
  counter changes.
\<close>

theorem cross_site_writes_nothing:
  assumes "rq_method req \<noteq> ''GET''" and "is_ours (path_of (rq_url req))"
    and "rq_headers req = before @ (name, site) # after" and "eq_ci name ''sec-fetch-site''"
    and "list_all (\<lambda>x. \<not> (case x of (n, v) \<Rightarrow> eq_ci n ''sec-fetch-site'')) before"
    and "\<not> eq_ci (trim site) ''same-origin''" and "\<not> eq_ci (trim site) ''none''"
  shows "internal_request j w req it = (Some (empty_answer 403), count_internal it)"
proof -
  have "find (\<lambda>(n, v). eq_ci n ''sec-fetch-site'') (rq_headers req) = Some (name, site)"
    unfolding assms(3) using assms(4,5) by (intro find_after) auto
  then have "\<not> same_origin (rq_headers req)"
    using assms(6,7) by (simp only: same_origin_def option.map option.case prod.case simp_thms)
  with assms(1,2) show ?thesis by (simp add: internal_request_def)
qed

theorem cross_site_writes_nothing_witness:
  "internal_request no_json noon ((post_to ''https://a.example/.mach5/bypass'')\<lparr>rq_headers := [(''Sec-Fetch-Site'', '' cross-site'')]\<rparr>) fresh_internal
     = (Some (empty_answer 403), count_internal fresh_internal)"
  by (rule cross_site_writes_nothing [of _ "[]" "''Sec-Fetch-Site''" "'' cross-site''" "[]"]) code_simp+

section \<open>Every answer\<close>

definition no_store :: "nat set \<Rightarrow> proxy_response \<Rightarrow> bool" where
  \<comment> \<open>one of these statuses, kept by no cache and readable by no other site\<close>
  "no_store statuses r \<longleftrightarrow> rs_status r \<in> statuses \<and> take 1 (rs_headers r) = [(''cache-control'', ''no-store'')]
     \<and> list_all (\<lambda>(n, v). n \<in> {''content-type'', ''content-disposition''}) (drop 1 (rs_headers r))"

lemma no_store_empty [simp]: "no_store ss (empty_answer n) \<longleftrightarrow> n \<in> ss"
  by (simp add: no_store_def empty_answer_def)

lemma no_store_with [simp]: "no_store ss (answer_with k c) \<longleftrightarrow> 200 \<in> ss"
  by (simp add: no_store_def answer_with_def empty_answer_def Let_def)

definition STATUSES :: "nat set" where "STATUSES = {200, 204, 400, 403, 404, 405, 409}"

lemma arms_answer:
  "no_store STATUSES (fst (status w host peer it))"
  "no_store STATUSES (fst (bypass j w host body lasting it))"
  "no_store STATUSES (fst (hide j w host body it))"
  "no_store STATUSES (fst (unhide j w host body it))"
  "no_store STATUSES (fst (clear_hidden j w host it))"
  "no_store STATUSES (fst (clear_caches w it))"
  "no_store STATUSES (fst (change_settings j w body it))"
  "no_store STATUSES (fst (stop_decrypting j w host it))"
  "no_store STATUSES (fst (resume_decrypting j w host it))"
  "no_store STATUSES (certificate it)"
  "no_store STATUSES (stats_of j w peer it)" "no_store STATUSES (hidden j host it)"
  "no_store STATUSES (settings_answer j it)" "no_store STATUSES (stylesheet host it)"
            apply (unfold status_def Let_def split_def fst_conv no_store_with)
            apply (simp_all add: STATUSES_def bypass_def hide_def unhide_def clear_hidden_def clear_caches_def change_settings_def
     stop_decrypting_def resume_decrypting_def certificate_def stats_of_def hidden_def settings_answer_def stylesheet_def
     Let_def split_def no_store_def empty_answer_def answer_with_def split: option.split)
  done

lemma route_answers:
  assumes "route j w host peer meth path body it = (r, it')" and "r \<noteq> script w"
  shows "no_store STATUSES r"
proof -
  have given: "f = (r, it') \<Longrightarrow> no_store STATUSES (fst f) \<Longrightarrow> no_store STATUSES r" for f by simp
  have plain_answers: "no_store STATUSES (empty_answer 404)" "no_store STATUSES (empty_answer 405)"
    by (simp_all add: STATUSES_def)
  from assms show ?thesis unfolding route_def Let_def
    by (elim if_eqE option_eqE conjE) ((erule given, simp only: arms_answer fst_conv plain_answers; fail) | simp; fail)+
qed

lemma script_only_there:
  assumes "route j w host peer meth path body it = (script w, it')"
  shows "path = ''/.mach5/mach5.js'' \<and> meth = ''GET''"
proof -
  have never: "no_store STATUSES (script w) \<Longrightarrow> thesis" for thesis by (simp add: no_store_def script_def)
  have given: "f = (script w, it') \<Longrightarrow> no_store STATUSES (fst f) \<Longrightarrow> thesis" for f thesis using never by simp
  have plain_answers: "no_store STATUSES (empty_answer 404)" "no_store STATUSES (empty_answer 405)"
    by (simp_all add: STATUSES_def)
  from assms show ?thesis unfolding route_def Let_def
    by (elim if_eqE option_eqE conjE) ((erule given, simp only: arms_answer fst_conv plain_answers; fail) | (intro conjI; assumption; fail))+
qed

text \<open>
  The proxy answers its own paths, all of them and no others, and what it answers stays with the
  asking site: the answer to anything under \<open>/.mach5\<close> has one of seven statuses, is kept by no cache
  and carries no header that would let another site read it; the one exception is the script, which
  is the same for every host. Everything else goes on untouched.
\<close>

theorem answers_only_its_own:
  "case internal_request j w req it of
     (None, it') \<Rightarrow> \<not> is_ours (path_of (rq_url req)) \<and> it' = it
   | (Some r, it') \<Rightarrow> is_ours (path_of (rq_url req))
       \<and> (if r = script w then path_of (rq_url req) = ''/.mach5/mach5.js'' \<and> rq_method req = ''GET'' else no_store STATUSES r)"
proof -
  have forbidden: "no_store STATUSES (empty_answer 403)" "empty_answer 403 \<noteq> script w"
    by (simp add: STATUSES_def) (simp add: empty_answer_def script_def)
  obtain r it' where r: "route j w (host_of (rq_url req)) (rq_peer req) (rq_method req) (path_of (rq_url req)) (rq_body req)
      (count_internal it) = (r, it')" by force
  have "r = script w \<Longrightarrow> path_of (rq_url req) = ''/.mach5/mach5.js'' \<and> rq_method req = ''GET''"
    using script_only_there r by blast
  then show ?thesis
    using route_answers [OF r] forbidden
    by (auto simp only: internal_request_def Let_def r prod.case option.case split: if_split)
qed

section \<open>The stylesheet\<close>

lemma read_sheet_all:
  "list_all self_contained sels \<Longrightarrow> read_sheet (sheet sels) = map (\<lambda>s. (s @ '' '', '' display: none !important '')) sels"
proof (induction sels)
  case Nil
  show ?case by (simp add: sheet_def read_sheet.simps css_upto.simps)
next
  case (Cons s sels)
  have "css_upto (CHR ''}'') (Bare []) ('' display: none !important '' @ ''}'') = Some ('' display: none !important '', [])"
    by code_simp
  moreover have "sheet (s # sels) = s @ '' {'' @ '' display: none !important '' @ ''}'' @ newline # sheet sels"
    by (simp add: sheet_def sheet_line_def)
  moreover have "read_sheet (newline # sheet sels) = read_sheet (sheet sels)" by (rule read_blank) code_simp
  ultimately show ?case using read_rule [of s "'' display: none !important ''" "newline # sheet sels"] Cons by simp
qed


text \<open>
  Nothing sees to it that a selector is self-contained: a picked one that begins a comment, or opens a
  string or a bracket, is stored, and takes the rules after it, the picked ones and those of the filter
  lists, off the page.
\<close>

lemma comment_takes_the_rest:
  "usable ''.x/*'' \<and> read_sheet (sheet [''.x/*'', ''.ad'', ''.banner'']) = []"
  "usable ''.x('' \<and> read_sheet (sheet [''.x('', ''.ad'', ''.banner'']) = []"
  by code_simp+

section \<open>Hiding\<close>

text \<open>
  What was hidden stays hidden: when a page's request to hide is answered 204, its selector, trimmed,
  is listed for that host, was not empty and not longer than 128 bytes, and unless it has a character
  that could leave its rule it is in the stylesheet of that host from then on.
\<close>

theorem hidden_when_told_so:
  assumes "hidden_ok (hs_hidden (it_store it))" and "js_read_selector j body = Some raw"
    and "hide j w host body it = (r, it')" and "rs_status r = 204"
  shows "0 < length (trim raw) \<and> length (trim raw) \<le> MAX_SELECTOR_BYTES
    \<and> trim raw \<in> set (hidden_selectors host (it_store it'))
    \<and> list_all (\<lambda>s. s \<in> set (sheet_selectors host it')) (filter usable [trim raw])"
proof -
  obtain added st fs where add: "hidden_add (js_hidden j) (at_granted w) host (trim raw) (it_store it) (it_files it) = (added, st, fs)"
    by (metis prod_cases3)
  with assms(2-4) have short: "trim raw \<noteq> []" "length (trim raw) \<le> MAX_SELECTOR_BYTES" and "added" and it': "it_store it' = st"
    by (auto simp: hide_def Let_def empty_answer_def split: if_splits)
  have "trim raw \<in> set (hidden_selectors host st)"
    using assms(1)
  proof (cases rule: hidden_add_cases [where host = host and sel = "trim raw" and enc = "js_hidden j"
        and granted = "at_granted w" and fs = "it_files it"])
    case Known
    with add assms(1) finite_hidden selectors_listed show ?thesis by fastforce
  next
    case New
    with add assms(1) \<open>added\<close> finite_hidden selectors_listed show ?thesis by (auto simp: Let_def)
  qed (use add \<open>added\<close> in simp_all)
  with short it' show ?thesis by (simp add: sheet_selectors_def Let_def)
qed

definition one_hidden :: internal where
  "one_hidden = snd (hide no_json noon ''a.example'' [] fresh_internal)"

lemma fresh_hidden_ok: "hidden_ok (hs_hidden (it_store fresh_internal))"
  by (simp add: fresh_internal_def new_internal_def shared_hidden_def load_hidden_def hidden_ok_empty)

theorem hidden_when_told_so_witness:
  "''.ad'' \<in> set (hidden_selectors ''a.example'' (it_store (snd (hide no_json noon ''a.example'' [] fresh_internal))))"
proof -
  obtain r it' where h: "hide no_json noon ''a.example'' [] fresh_internal = (r, it')" by force
  moreover have "rs_status (fst (hide no_json noon ''a.example'' [] fresh_internal)) = 204" by code_simp
  moreover have "trim '' .ad '' = ''.ad''" by code_simp
  ultimately show ?thesis
    using hidden_when_told_so [OF fresh_hidden_ok, of no_json "[]" "'' .ad ''" noon "''a.example''" r it']
    by (simp add: no_json_def)
qed

definition banner_list :: cosmetic where
  "banner_list = build_cosmetic (default_config bare) [''a.example##a[href*=ads]''] 0 Map.empty"


section \<open>Bypasses\<close>

text \<open>
  C3: a certificate is only let pass for the token of its own warning page. If a host's certificate goes
  unchecked after a request and did not before, that request was a \<open>POST\<close> to the bypass path on that
  very host which no other site sent, bypasses are switched on, and its body holds the token that was
  offered for that host and has not expired; and that token is spent.
\<close>

theorem bypass_needs_the_token:
  assumes "seen_bypass t k (snd (internal_request j w req it))" and "\<not> seen_bypass t k it" and "at_nanos w \<le> t"
  shows "rq_method req = ''POST'' \<and> path_of (rq_url req) = BYPASS \<and> key (host_of (rq_url req)) = key k
    \<and> same_origin (rq_headers req) \<and> it_bypass_ttl it \<noteq> None
    \<and> (\<exists>tok e. js_read_token j (rq_body req) = Some tok \<and> tok \<noteq> []
         \<and> offered (it_bypasses it) (key k) = Some (tok, e) \<and> at_nanos w < e)
    \<and> offered (it_bypasses (snd (internal_request j w req it))) (key k) = None"
proof -
  let ?it = "count_internal it" and ?host = "host_of (rq_url req)"
  have site: "rq_method req = ''GET'' \<or> same_origin (rq_headers req)"
    and routed: "snd (internal_request j w req it)
      = snd (route j w ?host (rq_peer req) (rq_method req) (path_of (rq_url req)) (rq_body req) ?it)"
    using assms(1,2) by (auto simp: internal_request_def Let_def split_def seen_bypass_def split: if_splits)
  show ?thesis
  proof (cases rule: route_cases [of j w ?host "rq_peer req" "rq_method req" "path_of (rq_url req)" "rq_body req" ?it])
    case Status
    with assms routed show ?thesis by (simp add: status_state seen_bypass_def allows_later)
  next
    case (Bypass lasting)
    note post = Bypass
    then obtain tok where tok: "js_read_token j (rq_body req) = Some tok"
      using assms routed by (fastforce simp: bypass_def seen_bypass_def split: option.splits)
    define b where "b = snd (redeem ?host tok lasting (at_nanos w) (at_nanos_later w) (it_bypasses it))"
    have state: "it_bypasses (snd (internal_request j w req it)) = b"
      using routed post tok by (simp add: bypass_def b_def split_def)
    have "fst (redeem ?host tok lasting (at_nanos w) (at_nanos_later w) (it_bypasses it)) \<and> key ?host = key k"
      using assms(1,2) state unfolding b_def
      by (auto simp: seen_bypass_def allows_def Let_def retain_def redeem_hosts split: if_splits)
    moreover from this have "offered b (key k) = None"
      using redeem_offered [of ?host tok lasting "at_nanos w" "at_nanos_later w" "it_bypasses it" "key k"]
      unfolding b_def by (metis not_Some_eq)
    moreover have "it_bypass_ttl it \<noteq> None" using post(3) by (simp add: count_internal_def)
    ultimately show ?thesis
      using post(1,2) site tok state by (auto simp: redeem_True_iff)
  qed (use assms routed in \<open>auto simp: seen_bypass_def hide_def unhide_def clear_hidden_def clear_caches_def change_settings_def
     stop_decrypting_def resume_decrypting_def Let_def split_def split: option.splits\<close>)
qed

definition warned :: internal where
  "warned = fresh_internal\<lparr>it_bypasses := snd (offer ''a.example'' (Some [0]) 0 default_bypasses)\<rparr>"

theorem bypass_needs_the_token_witness:
  "seen_bypass 9 ''a.example'' (snd (internal_request no_json noon (post_to ''https://a.example/.mach5/bypass'') warned))
   \<and> offered (it_bypasses (snd (internal_request no_json noon (post_to ''https://a.example/.mach5/bypass'') warned))) ''a.example'' = None"
proof -
  have "seen_bypass 9 ''a.example'' (snd (internal_request no_json noon (post_to ''https://a.example/.mach5/bypass'') warned))"
    and "\<not> seen_bypass 9 ''a.example'' warned" and "at_nanos noon \<le> 9" and "key ''a.example'' = ''a.example''"
    by code_simp+
  with bypass_needs_the_token [of 9 "''a.example''" no_json noon "post_to ''https://a.example/.mach5/bypass''" warned]
  show ?thesis by simp
qed

end
