(* ===== verification/Tcp.thy ===== *)
theory Tcp
  imports Upstream Inject Link Insecure
begin

text \<open>
  \<open>src/proxy/src/tcp.rs\<close>: from a request of hyper's to the answer it sends. \<open>front\<close> holds what both
  front ends share: the configuration, a chain of interceptors over a world \<open>'w\<close> that holds the
  agents, the links and the injector, the origin, the coders, and how reads and writes come out. A body
  read in pieces and what the client takes of an answer are observations: \<open>ft_pieces\<close> is one way to
  read the bytes, \<open>ft_takes n\<close> whether the client takes the \<open>n\<close>th piece sent, \<open>ft_queue n\<close> how full the
  channel was before it, the time, and how full after it.
\<close>

section \<open>The environment\<close>

record ('w, 'enc, 'el, 'h, 'd, 'e) front =
  ft_config :: config
  ft_chain :: "'w hooks list"
  ft_pool :: bool
  ft_agents :: "'w \<Rightarrow> agents"
  ft_keep :: "agents \<Rightarrow> 'w \<Rightarrow> 'w"
  ft_links :: "'w \<Rightarrow> links"
  ft_keep_links :: "links \<Rightarrow> 'w \<Rightarrow> 'w"
  ft_inject :: "'w \<Rightarrow> inject"
  ft_outer :: outer
  ft_via :: str
  ft_origin :: "sent_request \<Rightarrow> str + origin_response"
  ft_json :: "str \<Rightarrow> str option"
  ft_random :: "bytes option"
  ft_now :: nat
  ft_inflate :: inflater
  ft_deflate :: deflater
  ft_encodings :: "'enc encodings"
  ft_elements :: "'el elements"
  ft_html :: "('enc, 'el, 'h) html"
  ft_coders :: "('d, 'e) coders"
  ft_pieces :: "bytes \<Rightarrow> bytes list"
  ft_takes :: "nat \<Rightarrow> bool"
  ft_queue :: "nat \<Rightarrow> nat \<times> nat \<times> nat"

definition metered :: "('w, 'enc, 'el, 'h, 'd, 'e) front \<Rightarrow> (metrics \<Rightarrow> metrics) \<Rightarrow> 'w \<Rightarrow> 'w" where
  "metered F f w = (let ag = ft_agents F w in ft_keep F (ag\<lparr>ag_metrics := f (ag_metrics ag)\<rparr>) w)"

definition to_client :: "nat \<Rightarrow> metrics \<Rightarrow> metrics" where
  "to_client n m = m\<lparr>bytes_to_client := add_count n (bytes_to_client m)\<rparr>"

definition from_origin :: "nat \<Rightarrow> metrics \<Rightarrow> metrics" where
  "from_origin n m = m\<lparr>bytes_from_origin := add_count n (bytes_from_origin m)\<rparr>"

definition count_request :: "metrics \<Rightarrow> metrics" where
  "count_request m = m\<lparr>requests := increment (requests m)\<rparr>"

definition saved_compressing :: "nat \<Rightarrow> metrics \<Rightarrow> metrics" where
  "saved_compressing n m = m\<lparr>bytes_saved_by_compression := add_count n (bytes_saved_by_compression m)\<rparr>"

section \<open>Requests\<close>

record incoming =
  ic_method :: str
  ic_authority :: "str option"
  ic_path :: "str option"
    \<comment> \<open>\<open>path_and_query\<close>\<close>
  ic_headers :: headers

definition to_str :: "str \<Rightarrow> str option" where
  \<comment> \<open>\<open>HeaderValue::to_str\<close>: visible ASCII, spaces and tabs\<close>
  "to_str v = (if list_all (\<lambda>c. 32 \<le> byte c \<and> byte c < 127 \<or> byte c = 9) v then Some v else None)"

definition host_line :: "headers \<Rightarrow> str option" where
  \<comment> \<open>the last \<open>host\<close> whose value is text\<close>
  "host_line hs = fold (\<lambda>(n, v) host. if to_lower n = ''host'' \<and> to_str v \<noteq> None then Some v else host) hs None"

definition kept_lines :: "headers \<Rightarrow> headers" where
  "kept_lines hs =
     List.map_filter (\<lambda>(n, v).
       let name = to_lower n in
       if to_str v = None \<or> name = ''host'' \<or> is_hop_by_hop name then None else Some (name, v)) hs"

definition to_proxy_request :: "str option \<Rightarrow> socket_addr \<Rightarrow> incoming \<Rightarrow> nat + proxy_request \<times> nat option" where
  "to_proxy_request sni peer req =
     (let declared = Option.bind (header (ic_headers req) ''content-length'') (\<lambda>v. Option.bind (to_str v) parse_u64);
          authority = (case sni of Some name \<Rightarrow> Some name
            | None \<Rightarrow> (case ic_authority req of Some a \<Rightarrow> Some a | None \<Rightarrow> host_line (ic_headers req)));
          path = (case ic_path req of Some p \<Rightarrow> p | None \<Rightarrow> ''/'')
      in case authority of
           None \<Rightarrow> Inl 400
         | Some authority \<Rightarrow>
             Inr (\<lparr>rq_method = ic_method req, rq_url = ''https://'' @ authority_host authority @ path,
                   rq_headers = kept_lines (ic_headers req), rq_body = [], rq_peer = Some peer\<rparr>, declared))"

datatype frame = Data bytes | Trailers | Broken

fun pump_frames :: "frame list \<Rightarrow> bytes list \<times> bool" where
  \<comment> \<open>what the upload task puts into the channel, and whether it says the upload was cut\<close>
  "pump_frames [] = ([], False)"
| "pump_frames (Broken # fs) = ([], True)"
| "pump_frames (Trailers # fs) = pump_frames fs"
| "pump_frames (Data bs # fs) =
     (case pump_frames fs of (cs, ab) \<Rightarrow> (if bs = [] then cs else bs # cs, ab))"

definition upload_of :: "nat option \<Rightarrow> bool \<Rightarrow> frame list \<Rightarrow> (bytes list \<times> bool \<times> nat option) option" where
  "upload_of len end_stream fs =
     (if \<not> end_stream \<and> len \<noteq> Some 0 then (case pump_frames fs of (cs, ab) \<Rightarrow> Some (cs, ab, len)) else None)"

section \<open>Measuring the link\<close>

definition LINK_SAMPLE_EVERY :: nat where "LINK_SAMPLE_EVERY = 500"

record drain =
  dr_started :: "nat option"
  dr_pushed :: nat
  dr_chunks :: nat
  dr_backlog :: nat

definition default_drain :: drain where
  "default_drain = \<lparr>dr_started = None, dr_pushed = 0, dr_chunks = 0, dr_backlog = 0\<rparr>"

definition drain_push :: "nat \<Rightarrow> nat \<Rightarrow> nat \<Rightarrow> drain \<Rightarrow> drain" where
  "drain_push n backlog now d =
     (if backlog = 0 then default_drain
      else
        (let d = (if dr_started d = None then d\<lparr>dr_started := Some now, dr_backlog := backlog\<rparr> else d)
         in d\<lparr>dr_pushed := dr_pushed d + n, dr_chunks := dr_chunks d + 1\<rparr>))"

definition drain_rate :: "nat \<Rightarrow> nat \<Rightarrow> drain \<Rightarrow> nat option" where
  \<comment> \<open>the signed sums stay far inside \<open>i64\<close>\<close>
  "drain_rate backlog now d =
     (case dr_started d of
        None \<Rightarrow> None
      | Some started \<Rightarrow>
          (let elapsed = now - started in
           if elapsed < LINK_SAMPLE_EVERY \<or> dr_chunks d = 0 then None
           else
             (let mean = int (dr_pushed d div dr_chunks d);
                  queued = (int backlog - int (dr_backlog d)) * mean;
                  drained = nat (max (int (dr_pushed d) - queued) 0)
              in from_drain drained elapsed)))"

definition record_link :: "('w, 'enc, 'el, 'h, 'd, 'e) front \<Rightarrow> proxy_request \<Rightarrow> nat \<Rightarrow> nat \<Rightarrow> 'w \<Rightarrow> 'w" where
  "record_link F req rate now w =
     (case rq_peer req of
        None \<Rightarrow> w
      | Some peer \<Rightarrow> ft_keep_links F (record_at (fst peer) rate now (ft_links F w)) w)"

section \<open>Answers\<close>

datatype answer_out = Buffered_out proxy_response | Streaming_out response_head "bytes list"

definition error_body :: "nat \<Rightarrow> str \<Rightarrow> proxy_response" where
  "error_body status message =
     \<lparr>rs_status = status, rs_headers = [(''content-type'', ''text/plain'')], rs_body = as_bytes message\<rparr>"

definition declare_length :: "headers \<Rightarrow> nat \<Rightarrow> headers" where
  "declare_length hs n = without ''content-length'' hs @ [(''content-length'', show_nat n)]"

definition apply_alt_svc :: "config \<Rightarrow> headers \<Rightarrow> headers" where
  "apply_alt_svc c hs =
     (let hs = without ''alt-svc'' hs
      in if alt_svc (http_section c) \<noteq> [] then hs @ [(''alt-svc'', alt_svc (http_section c))] else hs)"

definition failure_page :: "('w, 'enc, 'el, 'h, 'd, 'e) front \<Rightarrow> proxy_request \<Rightarrow> fetch_error \<Rightarrow> 'w \<Rightarrow> proxy_response \<times> 'w" where
  "failure_page F req failed w =
     (let host = host_of (rq_url req) in
      case failed of
        Tls detail \<Rightarrow>
          (case bypass_phrase (tls_section (ft_config F)) of
             None \<Rightarrow> (certificate_error (ft_json F) host detail None, w)
           | Some phrase \<Rightarrow>
               (case offer host (ft_random F) (ft_now F) (ag_bypasses (ft_agents F w)) of
                  (tok, b) \<Rightarrow> (certificate_error (ft_json F) host detail (Some (phrase, tok)),
                               ft_keep F ((ft_agents F w)\<lparr>ag_bypasses := b\<rparr>) w)))
      | Other_failure detail \<Rightarrow> (upstream_error host detail, w))"

definition compressed :: "('w, 'enc, 'el, 'h, 'd, 'e) front \<Rightarrow> proxy_request \<Rightarrow> coding option \<Rightarrow> proxy_response \<Rightarrow> 'w \<Rightarrow> proxy_response \<times> 'w" where
  \<comment> \<open>the block both ends of a whole response begin with\<close>
  "compressed F req coding r w =
     (if \<not> compress (http_section (ft_config F)) then (r, w)
      else
        (case ensure_compressed (ft_deflate F) (rq_headers req) (rs_status r) (rs_headers r) (rs_body r) coding of
           (hs, body) \<Rightarrow> (r\<lparr>rs_headers := hs, rs_body := body\<rparr>,
                          metered F (saved_compressing (length (rs_body r) - length body)) w)))"

definition finish_buffered :: "('w, 'enc, 'el, 'h, 'd, 'e) front \<Rightarrow> proxy_request \<Rightarrow> proxy_response \<Rightarrow> 'w \<Rightarrow> answer_out \<times> 'w" where
  "finish_buffered F req r w =
     (let (r, w) = compressed F req None r w;
          r = r\<lparr>rs_headers := apply_alt_svc (ft_config F) (rs_headers r)\<rparr>
      in (Buffered_out r, metered F (to_client (length (rs_body r))) w))"

definition short_circuit :: "('w, 'enc, 'el, 'h, 'd, 'e) front \<Rightarrow> proxy_request \<Rightarrow> proxy_response \<Rightarrow> 'w \<Rightarrow> answer_out \<times> 'w" where
  "short_circuit F req r w =
     (let (r, w) = compressed F req None r w;
          r = r\<lparr>rs_headers := apply_alt_svc (ft_config F) (rs_headers r)\<rparr>
      in (Buffered_out r, metered F (to_client (length (rs_body r))) w))"

definition through_interceptors :: "('w, 'enc, 'el, 'h, 'd, 'e) front \<Rightarrow> proxy_request \<Rightarrow> nat \<Rightarrow> headers \<Rightarrow> bytes \<Rightarrow> 'w
    \<Rightarrow> proxy_response \<times> coding option \<times> 'w" where
  \<comment> \<open>a whole body decoded, shown to the interceptors and coded again\<close>
  "through_interceptors F req status hs body w =
     (let (hs, body, coding) = decode (ft_inflate F) hs body (max_response_body (limits_section (ft_config F)));
          (r, w) = Interceptor.on_response (ft_chain F) req \<lparr>rs_status = status, rs_headers = hs, rs_body = body\<rparr> w;
          (hs, body) = encode (ft_deflate F) (rs_headers r) (rs_body r) coding
      in (r\<lparr>rs_headers := hs, rs_body := body\<rparr>, coding, w))"

section \<open>Relaying a body\<close>

type_synonym ('w, 'd, 'e, 'h) relaying = "('d, 'e, 'h) streamer option \<times> drain \<times> bytes list \<times> 'w"

definition rewritten_chunk :: "('w, 'enc, 'el, 'h, 'd, 'e) front \<Rightarrow> bytes \<Rightarrow> ('d, 'e, 'h) streamer option
    \<Rightarrow> bytes \<times> ('d, 'e, 'h) streamer option" where
  "rewritten_chunk F chunk s =
     (case s of
        None \<Rightarrow> (chunk, None)
      | Some st \<Rightarrow>
          (case push_page (ft_html F) (ft_coders F) (stream_element (ft_elements F) (lazy_for (ft_config F))) chunk st of
             (out, st) \<Rightarrow> (out, Some st)))"

definition counted_injection :: "('w, 'enc, 'el, 'h, 'd, 'e) front \<Rightarrow> ('d, 'e, 'h) streamer option \<Rightarrow> 'w \<Rightarrow> 'w" where
  \<comment> \<open>the streamer counts in the process's own counter\<close>
  "counted_injection F s w =
     (case s of None \<Rightarrow> w | Some st \<Rightarrow> metered F (\<lambda>m. m\<lparr>injected := injected (page_metrics (st_page st))\<rparr>) w)"

fun relay_loop :: "('w, 'enc, 'el, 'h, 'd, 'e) front \<Rightarrow> proxy_request \<Rightarrow> bool \<Rightarrow> bytes list \<Rightarrow> nat
    \<Rightarrow> ('w, 'd, 'e, 'h) relaying \<Rightarrow> nat \<times> ('w, 'd, 'e, 'h) relaying" where
  \<comment> \<open>\<open>n\<close> pieces have been taken; what is left of an empty chunk is not sent\<close>
  "relay_loop F req chunky [] n st = (n, st)"
| "relay_loop F req chunky (p # ps) n (s, win, gone, w) =
     (let w = metered F (from_origin (length p)) w;
          (chunk, w) = (if chunky then Interceptor.on_response_chunk (ft_chain F) req p w else (p, w))
      in if chunky \<and> chunk = [] then relay_loop F req chunky ps n (s, win, gone, w)
         else
           (let (chunk, s') = rewritten_chunk F chunk s; w = counted_injection F s' w
            in if s \<noteq> None \<and> chunk = [] then relay_loop F req chunky ps n (s', win, gone, w)
               else
                 (let w = metered F (to_client (length chunk)) w
                  in if \<not> ft_takes F n then (n, s', win, gone, w)
                     else
                       (let (before, now, after) = ft_queue F n;
                            win = drain_push (length chunk) before now win;
                            (win, w) = (case drain_rate after now win of
                                          None \<Rightarrow> (win, w)
                                        | Some rate \<Rightarrow> (default_drain, record_link F req rate now w))
                        in relay_loop F req chunky ps (Suc n) (s', win, gone @ [chunk], w)))))"

definition relay_tail :: "('w, 'enc, 'el, 'h, 'd, 'e) front \<Rightarrow> proxy_request \<Rightarrow> bool \<Rightarrow> ('d, 'e, 'h) streamer option \<Rightarrow> 'w
    \<Rightarrow> bytes \<times> 'w" where
  "relay_tail F req chunky s w =
     (let (kept, w) = (if chunky then Interceptor.on_response_end (ft_chain F) req w else (None, w));
          tail = (case kept of Some bs \<Rightarrow> bs | None \<Rightarrow> [])
      in case s of
           None \<Rightarrow> (tail, w)
         | Some st \<Rightarrow>
             (let h = stream_element (ft_elements F) (lazy_for (ft_config F));
                  (through, st) = (if tail = [] then ([], st) else push_page (ft_html F) (ft_coders F) h tail st)
              in (through @ finish_page (ft_html F) (ft_coders F) h st, counted_injection F (Some st) w)))"

definition relay :: "('w, 'enc, 'el, 'h, 'd, 'e) front \<Rightarrow> proxy_request \<Rightarrow> bool \<Rightarrow> nat option \<Rightarrow> response_head \<Rightarrow> bytes list \<Rightarrow> 'w
    \<Rightarrow> answer_out \<times> 'w" where
  \<comment> \<open>the rest of \<open>fetch_blocking\<close>, once nothing wants the body whole\<close>
  "relay F req chunky declared head pieces w =
     (let (head, w) = Interceptor.on_response_head (ft_chain F) req head w;
          head = head\<lparr>hd_headers := apply_alt_svc (ft_config F) (hd_headers head)\<rparr>
      in if eq_ci (rq_method req) ''HEAD'' then
           (Streaming_out (case declared of Some n \<Rightarrow> head\<lparr>hd_headers := declare_length (hd_headers head) n\<rparr> | None \<Rightarrow> head) [], w)
         else
           (let (s, head) = streamer_for (ft_encodings F) (ft_html F) (ft_coders F) (ft_config F) (ft_inject F w) req head;
                (n, s, win, gone, w) = relay_loop F req chunky pieces 0 (s, default_drain, [], w);
                (tail, w) = relay_tail F req chunky s w
            in if tail = [] then (Streaming_out head gone, w)
               else (Streaming_out head (if ft_takes F n then gone @ [tail] else gone), metered F (to_client (length tail)) w)))"

section \<open>A fetch\<close>

definition serve_live :: "('w, 'enc, 'el, 'h, 'd, 'e) front \<Rightarrow> proxy_request \<Rightarrow> origin_response \<Rightarrow> 'w \<Rightarrow> answer_out \<times> 'w" where
  "serve_live F req resp w =
     (let declared = declared_length (or_lines resp);
          head = \<lparr>hd_status = or_status resp, hd_headers = response_headers (or_lines resp)\<rparr>;
          (chunky, w) = Interceptor.wants_chunks (ft_chain F) req head w;
          storable = should_store (ft_config F) req (hd_status head) (hd_headers head) declared (ft_agents F w);
          w = (if storable \<and> chunky
               then metered F (\<lambda>m. m\<lparr>not_cached_for_a_plugin := increment (not_cached_for_a_plugin m)\<rparr>) w else w);
          body = fst (or_body resp)
      in if Interceptor.wants_body (ft_chain F) req head w \<or> storable \<and> \<not> chunky then
           (case read_body (or_body resp) (max_response_body (limits_section (ft_config F))) of
              Truncated \<Rightarrow> (Buffered_out (error_body 502 TRUNCATED), w)
            | TooBig bs \<Rightarrow> relay F req chunky declared head (ft_pieces F bs @ ft_pieces F (drop (length bs) body)) w
            | Whole bs \<Rightarrow>
                (let w = metered F (from_origin (length bs)) w;
                     w = ft_keep F (store (ft_outer F) req (hd_status head) (hd_headers head) bs (ft_agents F w)) w;
                     (r, coding, w) = through_interceptors F req (hd_status head) (hd_headers head) bs w
                 in finish_buffered F req r w))
         else relay F req chunky declared head (ft_pieces F body) w)"

definition forward :: "('w, 'enc, 'el, 'h, 'd, 'e) front \<Rightarrow> proxy_request \<Rightarrow> request_body \<Rightarrow> 'w \<Rightarrow> answer_out \<times> 'w" where
  "forward F req body w =
     (case call (ft_outer F) (ft_via F) (ft_origin F) req body (ft_agents F w) of
        (fetch, ag) \<Rightarrow>
          (let w = ft_keep F ag w in
           case fetch of
             Inl failed \<Rightarrow>
               (let (page, w) = failure_page F req failed w
                in (Buffered_out page, metered F (to_client (length (rs_body page))) w))
           | Inr (Stored r) \<Rightarrow>
               (let (r, coding, w) = through_interceptors F req (rs_status r) (rs_headers r) (rs_body r) w
                in finish_buffered F req r w)
           | Inr (Live resp) \<Rightarrow> serve_live F req resp w))"

definition fetch_blocking :: "('w, 'enc, 'el, 'h, 'd, 'e) front \<Rightarrow> proxy_request \<Rightarrow> (bytes list \<times> bool \<times> nat option) option \<Rightarrow> 'w
    \<Rightarrow> answer_out \<times> 'w" where
  "fetch_blocking F req upload w =
     (let w = metered F count_request w in
      if \<not> ft_pool F then (Buffered_out (error_body 502 ''interceptor pool unavailable''), w)
      else
        (case before_body (ft_chain F) req w of
           (Answered response, req, w) \<Rightarrow> short_circuit F req response w
         | (Resume i, req, w) \<Rightarrow>
             (case take_body (limits_section (ft_config F)) (i < length (ft_chain F)) req upload of
                (Inl rejected, req) \<Rightarrow> (Buffered_out (error_body (rj_status rejected) (rj_message rejected)), w)
              | (Inr body, req) \<Rightarrow>
                  (case Interceptor.on_request_from (ft_chain F) i req w of
                     (Some response, req, w) \<Rightarrow> short_circuit F req response w
                   | (None, req, w) \<Rightarrow> forward F req body w))))"

definition answer_of :: "(nat \<Rightarrow> headers \<Rightarrow> bool) \<Rightarrow> bool \<Rightarrow> answer_out \<Rightarrow> proxy_response" where
  \<comment> \<open>the end of \<open>handle\<close>; \<open>ok\<close> is whether hyper takes a status and headers\<close>
  "answer_of ok head_only out =
     (let malformed = error_body 502 (''mach5: malformed upstream headers'' @ [newline]) in
      case out of
        Buffered_out r \<Rightarrow>
          (let r = (if head_only then r\<lparr>rs_headers := declare_length (rs_headers r) (length (rs_body r)), rs_body := []\<rparr> else r)
           in if ok (rs_status r) (rs_headers r) then r else malformed)
      | Streaming_out head gone \<Rightarrow>
          if ok (hd_status head) (hd_headers head)
          then \<lparr>rs_status = hd_status head, rs_headers = hd_headers head, rs_body = (if head_only then [] else concat gone)\<rparr>
          else malformed)"

definition handle :: "('w, 'enc, 'el, 'h, 'd, 'e) front \<Rightarrow> (nat \<Rightarrow> headers \<Rightarrow> bool) \<Rightarrow> str option \<Rightarrow> socket_addr \<Rightarrow> incoming
    \<Rightarrow> bool \<Rightarrow> frame list \<Rightarrow> 'w \<Rightarrow> proxy_response \<times> 'w" where
  "handle F ok sni peer req end_stream fs w =
     (case to_proxy_request sni peer req of
        Inl status \<Rightarrow> (error_body status (''mach5: malformed request'' @ [newline]), w)
      | Inr (request, len) \<Rightarrow>
          (case fetch_blocking F request (upload_of len end_stream fs) w of
             (out, w) \<Rightarrow> (answer_of ok (eq_ci (rq_method request) ''HEAD'') out, w)))"

section \<open>The name of the handshake\<close>

definition host_char :: "char \<Rightarrow> bool" where
  "host_char c \<longleftrightarrow> is_alnum c \<or> c = dot \<or> c = CHR ''-''"

lemma host_char_not:
  "host_char c \<Longrightarrow> c \<noteq> CHR ''/'' \<and> c \<noteq> CHR ''?'' \<and> c \<noteq> CHR ''#'' \<and> c \<noteq> CHR '':'' \<and> c \<noteq> CHR ''[''"
  by (auto simp: host_char_def is_alnum_def is_alpha_def is_digit_def is_upper_def is_lower_def)

lemma authority_host_plain:
  assumes "list_all host_char name"
  shows "authority_host name = name"
proof -
  have plain: "CHR '':'' \<notin> set name" "CHR ''['' \<notin> set name" using assms host_char_not by (auto simp: list_all_iff)
  have "split_once CHR '':'' name = None" using plain(1) by (simp only: split_once_None_iff not_False_eq_True)
  moreover have "\<not> starts_with name ''[''" using plain(2) by (cases name) auto
  ultimately show ?thesis by (simp only: authority_host_def if_False option.case)
qed

lemma split_scheme_first: "CHR '':'' \<notin> set scheme \<Longrightarrow> split_scheme (scheme @ ''://'' @ rest) = Some (scheme, rest)"
proof -
  assume "CHR '':'' \<notin> set scheme"
  then have "find_sub ''://'' (scheme @ ''://'' @ rest) = Some (length scheme)" by (induction scheme) auto
  then show ?thesis by (simp add: split_scheme_def)
qed

lemma host_of_url:
  assumes "list_all host_char name" and "CHR '':'' \<notin> set scheme" and "starts_with path ''/''"
  shows "host_of (scheme @ ''://'' @ name @ path) = name"
proof -
  obtain rest where path: "path = CHR ''/'' # rest" using assms(3) by (cases path) auto
  have "split_scheme (scheme @ ''://'' @ name @ path) = Some (scheme, name @ path)"
    by (rule split_scheme_first [OF assms(2)])
  moreover have "hd (split_on (\<lambda>c. c = CHR ''/'' \<or> c = CHR ''?'' \<or> c = CHR ''#'') (name @ CHR ''/'' # rest)) = name"
  proof -
    have "split_on (\<lambda>c. c = CHR ''/'' \<or> c = CHR ''?'' \<or> c = CHR ''#'') name = [name]"
      using assms(1) host_char_not by (intro split_on_id) (auto simp: list_all_iff)
    then show ?thesis by (subst split_on_append) simp_all
  qed
  ultimately show ?thesis using authority_host_plain [OF assms(1)] by (simp add: host_of_def path)
qed

lemma tcp_host:
  assumes "list_all host_char name" and "starts_with (case ic_path req of Some p \<Rightarrow> p | None \<Rightarrow> ''/'') ''/''"
    and "to_proxy_request (Some name) peer req = Inr (r, len)"
  shows "host_of (rq_url r) = name"
  using assms(3) host_of_url [OF assms(1) _ assms(2), of "''https''"] authority_host_plain [OF assms(1)]
  by (auto simp: to_proxy_request_def Let_def)

section \<open>Refusing early\<close>

text \<open>
  What can be refused without its body is refused without it: when an interceptor answers before the
  body is asked for, the answer and everything that is counted and changed are the same whatever was
  uploaded, however much of it, and whether it ever ended.
\<close>

theorem early_answer_reads_no_body:
  assumes "before_body (ft_chain F) req (metered F count_request w) = (Answered r, req', w')"
  shows "fetch_blocking F req upload w = fetch_blocking F req None w"
  using assms by (simp add: fetch_blocking_def Let_def)

definition unit_elements :: "unit elements" where
  "unit_elements = \<lparr>tag_name = \<lambda>_. [], get_attribute = \<lambda>_ _. None, set_attribute = \<lambda>e _ _. e,
     append_content = \<lambda>e _. e, prepend_content = \<lambda>e _. e\<rparr>"

definition sample_front :: "(agents \<times> links, unit, unit, unit, unit, bool) front" where
  \<comment> \<open>an example: a chain that answers nothing, an origin of two bytes, a client that takes everything\<close>
  "sample_front = \<lparr>ft_config = default_config bare, ft_chain = [default_hooks], ft_pool = True, ft_agents = fst,
     ft_keep = \<lambda>ag w. (ag, snd w), ft_links = snd, ft_keep_links = \<lambda>l w. (fst w, l), ft_inject = \<lambda>_. some_inject,
     ft_outer = sample_env, ft_via = ''1'', ft_origin = \<lambda>_. Inr \<lparr>or_status = 200, or_lines = [], or_body = ([1, 2], False)\<rparr>,
     ft_json = Some, ft_random = None, ft_now = 0, ft_inflate = toy_inflate, ft_deflate = toy_deflate,
     ft_encodings = toy_encodings, ft_elements = unit_elements, ft_html = toy_html, ft_coders = toy_coders,
     ft_pieces = \<lambda>b. [b], ft_takes = \<lambda>_. True, ft_queue = \<lambda>_. (0, 0, 0)\<rparr>"

definition sample_world :: "agents \<times> links" where
  "sample_world = (\<lparr>ag_bypasses = default_bypasses, ag_cache = None, ag_metrics = default_metrics\<rparr>, Link.new default_link)"

definition refusing :: "'w hooks" where
  "refusing = default_hooks\<lparr>on_request_hook := \<lambda>req w. (Some \<lparr>rs_status = 204, rs_headers = [], rs_body = []\<rparr>, req, w)\<rparr>"

theorem early_answer_reads_no_body_witness:
  "fetch_blocking (sample_front\<lparr>ft_chain := [refusing]\<rparr>) simple_request (Some ([[1], [2]], True, None)) sample_world
     = fetch_blocking (sample_front\<lparr>ft_chain := [refusing]\<rparr>) simple_request None sample_world"
  by (rule early_answer_reads_no_body)
    (simp add: sample_front_def before_body_def refusing_def default_hooks_def)

section \<open>HEAD\<close>

lemma header_without: "header (without n hs) n = None"
  by (induction hs) (auto simp: header_def without_def)

lemma declared [simp]: "header (declare_length hs n) ''content-length'' = Some (show_nat n)"
proof -
  have "header [(''content-length'', show_nat n)] ''content-length'' = Some (show_nat n)" by (simp add: header_def)
  then show ?thesis by (simp only: declare_length_def header_append header_without option.case)
qed

text \<open>
  A \<open>HEAD\<close> is answered without a body, and when the answer was made here with the length its body
  would have had.
\<close>

theorem head_has_no_body:
  "rs_body (answer_of (\<lambda>_ _. True) True out) = []
    \<and> rs_status (answer_of (\<lambda>_ _. True) True out) = rs_status (answer_of (\<lambda>_ _. True) False out)
    \<and> (case out of Buffered_out r \<Rightarrow> header (rs_headers (answer_of (\<lambda>_ _. True) True out)) ''content-length'' = Some (show_nat (length (rs_body r)))
        | Streaming_out head frames \<Rightarrow> rs_headers (answer_of (\<lambda>_ _. True) True out) = hd_headers head)"
  by (cases out) (simp_all add: answer_of_def Let_def)

section \<open>The window\<close>

definition since_empty :: "(nat \<times> nat \<times> nat) list \<Rightarrow> (nat \<times> nat \<times> nat) list" where
  \<comment> \<open>the pushes since the queue was last found empty, newest first\<close>
  "since_empty ps = takeWhile (\<lambda>(n, backlog, now). backlog > 0) (rev ps)"

definition window_of :: "(nat \<times> nat \<times> nat) list \<Rightarrow> drain" where
  "window_of ps = fold (\<lambda>(n, backlog, now). drain_push n backlog now) ps default_drain"

lemma window_since_empty:
  "window_of ps =
     (let new = since_empty ps in
      if new = [] then default_drain
      else \<lparr>dr_started = Some (snd (snd (last new))), dr_pushed = sum_list (map fst new), dr_chunks = length new,
            dr_backlog = fst (snd (last new))\<rparr>)"
proof (induction ps rule: rev_induct)
  case Nil
  show ?case by (simp add: window_of_def since_empty_def)
next
  case (snoc p ps)
  obtain n backlog now where p: "p = (n, backlog, now)" by (cases p)
  have step: "window_of (ps @ [p]) = drain_push n backlog now (window_of ps)" by (simp add: window_of_def p)
  show ?case
  proof (cases "backlog = 0")
    case True
    then show ?thesis unfolding step by (simp add: drain_push_def since_empty_def p)
  next
    case False
    then have new: "since_empty (ps @ [p]) = p # since_empty ps" by (simp add: since_empty_def p)
    show ?thesis
      using False snoc.IH unfolding step new
      by (cases "since_empty ps = []") (simp_all add: drain_push_def default_drain_def Let_def p)
  qed
qed

text \<open>
  What is measured is the client. A rate is only reported for a window in which the queue was never
  found empty, that is at least half a second long, and it is of the bytes handed over in that window
  less what the queue grew by; a client that takes everything at once is never measured.
\<close>

theorem rate_is_the_clients:
  assumes "drain_rate backlog now (window_of ps) = Some rate"
  shows "since_empty ps \<noteq> [] \<and> now - snd (snd (last (since_empty ps))) \<ge> LINK_SAMPLE_EVERY
    \<and> (let pushed = sum_list (map fst (since_empty ps));
           grown = int backlog - int (fst (snd (last (since_empty ps))))
       in from_drain (nat (max (int pushed - grown * int (pushed div length (since_empty ps))) 0))
            (now - snd (snd (last (since_empty ps)))) = Some rate)"
  using assms
  by (cases "since_empty ps = []")
    (auto simp: drain_rate_def window_since_empty Let_def default_drain_def split: if_splits)

theorem rate_is_the_clients_witness:
  "since_empty [(65536, 0, 0), (65536, 4, 10), (65536, 4, 300)] \<noteq> [] \<and> 510 - 10 \<ge> LINK_SAMPLE_EVERY"
proof -
  have "drain_rate 4 510 (window_of [(65536, 0, 0), (65536, 4, 10), (65536, 4, 300)]) = Some 2097"
    by code_simp
  from rate_is_the_clients [OF this] show ?thesis by (simp add: since_empty_def)
qed

section \<open>A body cut short\<close>

text \<open>
  A body that is relayed as it comes and breaks off is passed on as one that ended: nothing of the
  answer or the state tells them apart.
\<close>

lemma cut_short_is_not_told:
  assumes "\<not> Interceptor.wants_body (ft_chain F) req \<lparr>hd_status = or_status resp, hd_headers = response_headers (or_lines resp)\<rparr>
      (snd (Interceptor.wants_chunks (ft_chain F) req \<lparr>hd_status = or_status resp, hd_headers = response_headers (or_lines resp)\<rparr> w))"
    and "declared_length (or_lines resp) = None"
  shows "serve_live F req (resp\<lparr>or_body := (bs, True)\<rparr>) w = serve_live F req (resp\<lparr>or_body := (bs, False)\<rparr>) w"
proof -
  define head where "head = \<lparr>hd_status = or_status resp, hd_headers = response_headers (or_lines resp)\<rparr>"
  obtain chunky w' where chunks_wanted: "Interceptor.wants_chunks (ft_chain F) req head w = (chunky, w')" by force
  with assms(1) have "\<not> Interceptor.wants_body (ft_chain F) req head w'" by (simp add: head_def)
  moreover have "\<not> should_store c req st hs None ag" for c st hs ag by (simp add: should_store_def)
  ultimately show ?thesis using chunks_wanted assms(2) by (simp add: serve_live_def head_def)
qed

end
