(* ===== verification/H3.thy ===== *)
theory H3
  imports Tcp Passthrough
begin

text \<open>
  \<open>src/proxy/src/main.rs\<close>, the HTTP/3 front end around a fetch: the request made of a header list, the
  worker that turns it into the pieces of an answer (\<open>front\<close> is as in \<open>Tcp\<close>; here \<open>ft_takes n\<close> is
  whether the \<open>n\<close>th claim of room is granted), the event loop that files the pieces under connection
  and stream, and the writing of an answer on a stream that takes as much as it likes. What quiche
  answers to a write is an observation, and what it was handed is a record of its own.
\<close>

section \<open>Requests\<close>

record h3_fields =
  hf_method :: "str option"
  hf_authority :: "str option"
  hf_path :: "str option"
  hf_scheme :: "str option"
  hf_length :: "nat option"
  hf_headers :: headers

definition no_fields :: h3_fields where
  "no_fields = \<lparr>hf_method = None, hf_authority = None, hf_path = None, hf_scheme = None, hf_length = None, hf_headers = []\<rparr>"

definition read_field :: "str \<times> str \<Rightarrow> h3_fields \<Rightarrow> h3_fields" where
  \<comment> \<open>one turn of the loop of \<open>build_request\<close>, over the bytes of a name and a value\<close>
  "read_field h f =
     (case h of (name, v) \<Rightarrow>
       (let v = lossy (as_bytes v);
            f = (if eq_ci name ''content-length'' then f\<lparr>hf_length := parse_u64 v\<rparr> else f)
        in if name = '':method'' then f\<lparr>hf_method := Some v\<rparr>
           else if name = '':authority'' then f\<lparr>hf_authority := Some v\<rparr>
           else if name = '':path'' then f\<lparr>hf_path := Some v\<rparr>
           else if name = '':scheme'' then f\<lparr>hf_scheme := Some v\<rparr>
           else if starts_with name '':'' then f
           else if is_hop_by_hop (lossy (as_bytes name)) then f
           else if name = ''host'' then f
           else f\<lparr>hf_headers := hf_headers f @ [(lossy (as_bytes name), v)]\<rparr>))"

definition build_request :: "str option \<Rightarrow> socket_addr \<Rightarrow> headers \<Rightarrow> (proxy_request \<times> nat option) option" where
  "build_request sni peer hs =
     (let f = fold read_field hs no_fields;
          scheme = (case hf_scheme f of Some s \<Rightarrow> s | None \<Rightarrow> ''https'')
      in case (case sni of Some name \<Rightarrow> Some name | None \<Rightarrow> hf_authority f) of
           None \<Rightarrow> None
         | Some authority \<Rightarrow>
             (case (hf_path f, hf_method f) of
                (Some path, Some m) \<Rightarrow>
                  Some (\<lparr>rq_method = m, rq_url = scheme @ ''://'' @ authority_host authority @ path,
                         rq_headers = hf_headers f, rq_body = [], rq_peer = Some peer\<rparr>, hf_length f)
              | _ \<Rightarrow> None))"

datatype on_headers = Ignored | Dispatched proxy_request "nat option option"
  \<comment> \<open>with the declared length of a body that follows\<close>

definition headers_event :: "str option \<Rightarrow> socket_addr \<Rightarrow> bool \<Rightarrow> headers \<Rightarrow> bool \<Rightarrow> on_headers" where
  \<comment> \<open>the first arm of \<open>poll_requests\<close>; \<open>uploading\<close> is whether the stream has an upload\<close>
  "headers_event sni peer uploading hs more_frames =
     (if uploading then Ignored
      else (case build_request sni peer hs of
              None \<Rightarrow> Ignored
            | Some (req, len) \<Rightarrow> Dispatched req (if more_frames then Some len else None)))"

definition quic_sni :: "nat \<Rightarrow> passthrough \<Rightarrow> str option \<Rightarrow> learned \<Rightarrow> bool \<times> learned" where
  \<comment> \<open>the server name callback of \<open>build_quic_config\<close>: whether the handshake goes on\<close>
  "quic_sni now p sni l =
     (case sni of
        None \<Rightarrow> (True, l)
      | Some name \<Rightarrow> (case never_decrypt now p name l of (b, l) \<Rightarrow> (\<not> b, l)))"

section \<open>The worker\<close>

datatype h3_payload = Full_part proxy_response | Head_part response_head | Chunk_part bytes | End_part

fun bodyless :: "h3_payload \<Rightarrow> h3_payload" where
  "bodyless (Full_part r) =
     Full_part (r\<lparr>rs_headers := declare_length (rs_headers r) (length (rs_body r)), rs_body := []\<rparr>)"
| "bodyless (Chunk_part bs) = Chunk_part []"
| "bodyless part = part"

fun claiming :: "h3_payload \<Rightarrow> nat" where
  "claiming (Full_part r) = length (rs_body r)"
| "claiming (Chunk_part bs) = length bs"
| "claiming part = 0"

type_synonym handed = "nat \<times> h3_payload list"
  \<comment> \<open>claims made, parts handed over\<close>

definition hand_over :: "('w, 'enc, 'el, 'h, 'd, 'e) front \<Rightarrow> bool \<Rightarrow> h3_payload \<Rightarrow> handed \<Rightarrow> bool \<times> handed" where
  \<comment> \<open>the closure \<open>send\<close>: False is \<open>Gone::Stream\<close>\<close>
  "hand_over F head_only part h =
     (case h of (n, parts) \<Rightarrow>
       (let part = (if head_only then bodyless part else part) in
        if claiming part > 0
        then (if ft_takes F n then (True, Suc n, parts @ [part]) else (False, Suc n, parts))
        else (True, n, parts @ [part])))"

definition send_full :: "('w, 'enc, 'el, 'h, 'd, 'e) front \<Rightarrow> proxy_request \<Rightarrow> proxy_response \<Rightarrow> handed \<Rightarrow> bool \<times> handed" where
  "send_full F req r h =
     (let part = (if eq_ci (rq_method req) ''HEAD'' then bodyless (Full_part r) else Full_part r) in
      case h of (n, parts) \<Rightarrow>
        (if claiming part > 0
         then (if ft_takes F n then (True, Suc n, parts @ [part]) else (False, Suc n, parts))
         else (True, n, parts @ [part])))"

definition compress_own :: "('w, 'enc, 'el, 'h, 'd, 'e) front \<Rightarrow> proxy_request \<Rightarrow> proxy_response \<Rightarrow> 'w \<Rightarrow> proxy_response \<times> 'w" where
  "compress_own F req r w = compressed F req None r w"

definition error_response_body :: "nat \<Rightarrow> str \<Rightarrow> proxy_response" where
  "error_response_body status message =
     \<lparr>rs_status = status, rs_headers = [(''content-type'', ''text/plain'')],
      rs_body = as_bytes (''mach5: '' @ message @ [newline])\<rparr>"

definition whole_answer :: "('w, 'enc, 'el, 'h, 'd, 'e) front \<Rightarrow> bool \<Rightarrow> proxy_response \<Rightarrow> 'w \<Rightarrow> (bool \<times> handed) \<times> 'w" where
  \<comment> \<open>counted, and sent as one part\<close>
  "whole_answer F head_only r w =
     (hand_over F head_only (Full_part r) (0, []), metered F (to_client (length (rs_body r))) w)"

fun h3_loop :: "('w, 'enc, 'el, 'h, 'd, 'e) front \<Rightarrow> proxy_request \<Rightarrow> bool \<Rightarrow> bytes list
    \<Rightarrow> handed \<times> ('d, 'e, 'h) streamer option \<times> 'w \<Rightarrow> bool \<times> handed \<times> ('d, 'e, 'h) streamer option \<times> 'w" where
  "h3_loop F req chunky [] st = (True, st)"
| "h3_loop F req chunky (p # ps) (h, s, w) =
     (let w = metered F (from_origin (length p)) w;
          (chunk, w) = (if chunky then Interceptor.on_response_chunk (ft_chain F) req p w else (p, w))
      in if chunky \<and> chunk = [] then h3_loop F req chunky ps (h, s, w)
         else
           (let (chunk, s') = rewritten_chunk F chunk s; w = counted_injection F s' w
            in if s \<noteq> None \<and> chunk = [] then h3_loop F req chunky ps (h, s', w)
               else
                 (let w = metered F (to_client (length chunk)) w
                  in case hand_over F False (Chunk_part chunk) h of
                       (False, h) \<Rightarrow> (False, h, s', w)
                     | (True, h) \<Rightarrow> h3_loop F req chunky ps (h, s', w))))"

definition h3_relay :: "('w, 'enc, 'el, 'h, 'd, 'e) front \<Rightarrow> proxy_request \<Rightarrow> bool \<Rightarrow> nat option \<Rightarrow> response_head \<Rightarrow> bytes list \<Rightarrow> 'w
    \<Rightarrow> (bool \<times> handed) \<times> 'w" where
  "h3_relay F req chunky declared head pieces w =
     (let (head, w) = Interceptor.on_response_head (ft_chain F) req head w in
      if eq_ci (rq_method req) ''HEAD'' then
        (let head = (case declared of Some n \<Rightarrow> head\<lparr>hd_headers := declare_length (hd_headers head) n\<rparr> | None \<Rightarrow> head)
         in ((True, 0, [Head_part head, End_part]), w))
      else
        (let (s, head) = streamer_for (ft_encodings F) (ft_html F) (ft_coders F) (ft_config F) (ft_inject F w) req head
         in case h3_loop F req chunky pieces ((0, [Head_part head]), s, w) of
              (False, h, s, w) \<Rightarrow> ((False, h), w)
            | (True, h, s, w) \<Rightarrow>
                (let (tail, w) = relay_tail F req chunky s w in
                 if tail = [] then (hand_over F False End_part h, w)
                 else
                   (let w = metered F (to_client (length tail)) w
                    in case hand_over F False (Chunk_part tail) h of
                         (False, h) \<Rightarrow> ((False, h), w)
                       | (True, h) \<Rightarrow> (hand_over F False End_part h, w)))))"

definition h3_live :: "('w, 'enc, 'el, 'h, 'd, 'e) front \<Rightarrow> proxy_request \<Rightarrow> origin_response \<Rightarrow> 'w \<Rightarrow> (bool \<times> handed) \<times> 'w" where
  "h3_live F req resp w =
     (let head_only = eq_ci (rq_method req) ''HEAD'';
          declared = declared_length (or_lines resp);
          head = \<lparr>hd_status = or_status resp, hd_headers = response_headers (or_lines resp)\<rparr>;
          (chunky, w) = Interceptor.wants_chunks (ft_chain F) req head w;
          storable = should_store (ft_config F) req (hd_status head) (hd_headers head) declared (ft_agents F w);
          w = (if storable \<and> chunky
               then metered F (\<lambda>m. m\<lparr>not_cached_for_a_plugin := increment (not_cached_for_a_plugin m)\<rparr>) w else w);
          body = fst (or_body resp)
      in if Interceptor.wants_body (ft_chain F) req head w \<or> storable \<and> \<not> chunky then
           (case read_body (or_body resp) (max_response_body (limits_section (ft_config F))) of
              Truncated \<Rightarrow> (hand_over F head_only (Full_part (error_body 502 TRUNCATED)) (0, []), w)
            | TooBig bs \<Rightarrow> h3_relay F req chunky declared head (ft_pieces F bs @ ft_pieces F (drop (length bs) body)) w
            | Whole bs \<Rightarrow>
                (let w = metered F (from_origin (length bs)) w;
                     w = ft_keep F (store (ft_outer F) req (hd_status head) (hd_headers head) bs (ft_agents F w)) w;
                     (r, coding, w) = through_interceptors F req (hd_status head) (hd_headers head) bs w;
                     (r, w) = compressed F req coding r w
                 in whole_answer F head_only r w))
         else h3_relay F req chunky declared head (ft_pieces F body) w)"

definition h3_forward :: "('w, 'enc, 'el, 'h, 'd, 'e) front \<Rightarrow> proxy_request \<Rightarrow> request_body \<Rightarrow> 'w \<Rightarrow> (bool \<times> handed) \<times> 'w" where
  "h3_forward F req body w =
     (let head_only = eq_ci (rq_method req) ''HEAD'' in
      case call (ft_outer F) (ft_via F) (ft_origin F) req body (ft_agents F w) of
        (got, ag) \<Rightarrow>
          (let w = ft_keep F ag w in
           case got of
             Inl failed \<Rightarrow> (case failure_page F req failed w of (r, w) \<Rightarrow> whole_answer F head_only r w)
           | Inr (Stored r) \<Rightarrow>
               (let (r, coding, w) = through_interceptors F req (rs_status r) (rs_headers r) (rs_body r) w;
                    (r, w) = compress_own F req r w
                in whole_answer F head_only r w)
           | Inr (Live resp) \<Rightarrow> h3_live F req resp w))"

definition handle_job :: "('w, 'enc, 'el, 'h, 'd, 'e) front \<Rightarrow> proxy_request \<Rightarrow> (bytes list \<times> bool \<times> nat option) option \<Rightarrow> 'w
    \<Rightarrow> (bool \<times> handed) \<times> 'w" where
  "handle_job F req upload w =
     (let w = metered F count_request w in
      case before_body (ft_chain F) req w of
        (Interceptor.Answered r, req, w) \<Rightarrow>
          (let (r, w) = compress_own F req r w
           in (send_full F req r (0, []), metered F (to_client (length (rs_body r))) w))
      | (Resume i, req, w) \<Rightarrow>
          (case take_body (limits_section (ft_config F)) (i < length (ft_chain F)) req upload of
             (Inl rejected, req) \<Rightarrow>
               (hand_over F (eq_ci (rq_method req) ''HEAD'')
                  (Full_part (error_response_body (rj_status rejected) (rj_message rejected))) (0, []), w)
           | (Inr body, req) \<Rightarrow>
               (case Interceptor.on_request_from (ft_chain F) i req w of
                  (Some r, req, w) \<Rightarrow>
                    (let (r, w) = compress_own F req r w in whole_answer F (eq_ci (rq_method req) ''HEAD'') r w)
                | (None, req, w) \<Rightarrow> h3_forward F req body w)))"

section \<open>The event loop\<close>

record pending =
  pd_stream :: nat
  pd_status :: nat
  pd_headers :: headers
  pd_headers_sent :: bool
  pd_chunks :: "bytes list"
  pd_offset :: nat
  pd_complete :: bool
  pd_fin_sent :: bool

definition is_finished :: "pending \<Rightarrow> bool" where
  "is_finished p \<longleftrightarrow> pd_headers_sent p \<and> pd_fin_sent p"

fun pending_of :: "nat \<Rightarrow> h3_payload \<Rightarrow> pending option" where
  \<comment> \<open>what a first part is filed as\<close>
  "pending_of stream (Full_part r) =
     Some \<lparr>pd_stream = stream, pd_status = rs_status r, pd_headers = rs_headers r, pd_headers_sent = False,
           pd_chunks = [rs_body r], pd_offset = 0, pd_complete = True, pd_fin_sent = False\<rparr>"
| "pending_of stream (Head_part head) =
     Some \<lparr>pd_stream = stream, pd_status = hd_status head, pd_headers = hd_headers head, pd_headers_sent = False,
           pd_chunks = [], pd_offset = 0, pd_complete = False, pd_fin_sent = False\<rparr>"
| "pending_of stream part = None"

fun find_pending :: "nat \<Rightarrow> pending list \<Rightarrow> pending option" where
  "find_pending stream [] = None"
| "find_pending stream (p # ps) = (if pd_stream p = stream then Some p else find_pending stream ps)"

fun amend :: "nat \<Rightarrow> (pending \<Rightarrow> pending) \<Rightarrow> pending list \<Rightarrow> pending list" where
  \<comment> \<open>through the reference \<open>find_pending\<close> gives\<close>
  "amend stream f [] = []"
| "amend stream f (p # ps) = (if pd_stream p = stream then f p # ps else p # amend stream f ps)"

definition drain_one :: "nat \<Rightarrow> h3_payload \<Rightarrow> pending list \<Rightarrow> bool \<times> pending list" where
  \<comment> \<open>one result for a connection that is there; False is that the budget of its job is closed\<close>
  "drain_one stream part ps =
     (case pending_of stream part of
        Some p \<Rightarrow> (if find_pending stream ps \<noteq> None then (False, ps) else (True, ps @ [p]))
      | None \<Rightarrow>
          (case part of
             Chunk_part bs \<Rightarrow>
               (if find_pending stream ps = None then (False, ps)
                else (True, amend stream (\<lambda>p. p\<lparr>pd_chunks := pd_chunks p @ [bs]\<rparr>) ps))
           | _ \<Rightarrow> (True, amend stream (\<lambda>p. p\<lparr>pd_complete := True\<rparr>) ps)))"

fun drain_results :: "('k \<times> nat \<times> h3_payload) list \<Rightarrow> ('k \<rightharpoonup> pending list) \<Rightarrow> ('k \<rightharpoonup> pending list) \<times> bool list" where
  \<comment> \<open>with, per result, whether its budget stays open\<close>
  "drain_results [] cs = (cs, [])"
| "drain_results ((conn, stream, part) # rs) cs =
     (case cs conn of
        None \<Rightarrow> (case drain_results rs cs of (cs, kept) \<Rightarrow> (cs, False # kept))
      | Some ps \<Rightarrow>
          (case drain_one stream part ps of
             (b, ps) \<Rightarrow> (case drain_results rs (cs(conn \<mapsto> ps)) of (cs, kept) \<Rightarrow> (cs, b # kept))))"

section \<open>Writing an answer\<close>

record on_stream =
  os_head :: "(nat \<times> headers) option"
  os_body :: bytes
  os_fin :: bool

definition new_stream :: on_stream where
  "new_stream = \<lparr>os_head = None, os_body = [], os_fin = False\<rparr>"

datatype opened = Opened | Not_now | Broken_stream
datatype wrote = Wrote nat | Would_block | Write_failed

definition body_len :: "pending \<Rightarrow> nat" where
  "body_len p = sum_list (map length (pd_chunks p))"

definition declares_length :: "headers \<Rightarrow> bool" where
  "declares_length hs \<longleftrightarrow> list_ex (\<lambda>(n, v). eq_ci n ''content-length'') hs"

definition head_lines :: "pending \<Rightarrow> headers" where
  "head_lines p =
     (if pd_complete p \<and> pd_status p \<notin> {204, 304} \<and> pd_status p \<ge> 200 \<and> \<not> declares_length (pd_headers p)
      then [(''content-length'', show_nat (body_len p))] else []) @ pd_headers p"

fun write_chunks :: "wrote list \<Rightarrow> pending \<Rightarrow> on_stream \<Rightarrow> bool \<times> wrote list \<times> nat list \<times> pending \<times> on_stream" where
  \<comment> \<open>the loop of \<open>send_pending\<close> with the answers of \<open>send_body\<close>, none left being \<open>Done\<close>: whether it went
    on, the answers left, and what was given back to the budget\<close>
  "write_chunks [] p s = (True, [], [], p, s)"
| "write_chunks (a # as) p s =
     (case pd_chunks p of
        [] \<Rightarrow> (True, a # as, [], p, s)
      | c # cs \<Rightarrow>
          (let last = pd_complete p \<and> cs = []; rest = drop (pd_offset p) c in
           case a of
             Would_block \<Rightarrow> (True, as, [], p, s)
           | Write_failed \<Rightarrow> (False, as, [], p, s)
           | Wrote n \<Rightarrow>
               if n = 0 then (True, as, [], p, s)
               else
                 (let s = s\<lparr>os_body := os_body s @ take n rest, os_fin := (last \<and> n \<ge> length rest)\<rparr>;
                      p = p\<lparr>pd_offset := pd_offset p + n\<rparr>
                  in if pd_offset p \<ge> length c then
                       (case write_chunks as (p\<lparr>pd_chunks := cs, pd_offset := 0, pd_fin_sent := last\<rparr>) s of
                          (ok, as, given, p, s) \<Rightarrow> (ok, as, length c # given, p, s))
                     else write_chunks as p s)))"

definition finish_stream :: "wrote list \<Rightarrow> pending \<Rightarrow> on_stream \<Rightarrow> bool \<times> pending \<times> on_stream" where
  \<comment> \<open>the last block of \<open>send_pending\<close>\<close>
  "finish_stream as p s =
     (if pd_complete p \<and> pd_chunks p = [] \<and> \<not> pd_fin_sent p then
        (case as of
           Wrote n # _ \<Rightarrow> (True, p\<lparr>pd_fin_sent := True\<rparr>, s\<lparr>os_fin := True\<rparr>)
         | Write_failed # _ \<Rightarrow> (False, p, s)
         | _ \<Rightarrow> (True, p, s))
      else (True, p, s))"

datatype sending = Done_sending | Still_sending | Failed_sending

definition send_body_part :: "wrote list \<Rightarrow> pending \<Rightarrow> on_stream \<Rightarrow> sending \<times> nat list \<times> pending \<times> on_stream" where
  \<comment> \<open>once the head is out\<close>
  "send_body_part as p s =
     (case write_chunks as p s of
        (False, as, given, p, s) \<Rightarrow> (Failed_sending, given, p, s)
      | (True, as, given, p, s) \<Rightarrow>
          (case finish_stream as p s of
             (False, p, s) \<Rightarrow> (Failed_sending, given, p, s)
           | (True, p, s) \<Rightarrow> (if is_finished p then Done_sending else Still_sending, given, p, s)))"

definition send_pending :: "opened \<Rightarrow> wrote list \<Rightarrow> pending \<Rightarrow> on_stream \<Rightarrow> sending \<times> nat list \<times> pending \<times> on_stream" where
  "send_pending op as p s =
     (if pd_headers_sent p then send_body_part as p s
      else
        (case op of
           Not_now \<Rightarrow> (Still_sending, [], p, s)
         | Broken_stream \<Rightarrow> (Failed_sending, [], p, s)
         | Opened \<Rightarrow>
             (let fin = (pd_complete p \<and> body_len p = 0);
                  s = s\<lparr>os_head := Some (pd_status p, head_lines p), os_fin := fin\<rparr>;
                  p = p\<lparr>pd_headers_sent := True, pd_fin_sent := fin\<rparr>
              in if fin then (Done_sending, [], p, s) else send_body_part as p s)))"

definition pump_responses :: "(pending \<Rightarrow> opened \<times> wrote list) \<Rightarrow> (pending \<times> on_stream) list \<Rightarrow> (pending \<times> on_stream) list" where
  \<comment> \<open>those neither done nor failed stay\<close>
  "pump_responses answers ps =
     List.map_filter (\<lambda>(p, s).
       case send_pending (fst (answers p)) (snd (answers p)) p s of
         (Still_sending, given, p, s) \<Rightarrow> Some (p, s)
       | _ \<Rightarrow> None) ps"

section \<open>What a stream carries\<close>

datatype stream_event = Arrives h3_payload | Writes opened "wrote list"

fun happens :: "stream_event \<Rightarrow> pending list \<times> on_stream \<Rightarrow> pending list \<times> on_stream" where
  \<comment> \<open>one turn of the event loop, for one stream\<close>
  "happens (Arrives part) (ps, s) = (case ps of [] \<Rightarrow> ([], s) | p # qs \<Rightarrow> (snd (drain_one (pd_stream p) part ps), s))"
| "happens (Writes op as) (ps, s) =
     (case ps of
        [p] \<Rightarrow> (case send_pending op as p s of
                  (Still_sending, given, p, s) \<Rightarrow> ([p], s)
                | (_, given, p, s) \<Rightarrow> ([], s))
      | _ \<Rightarrow> (ps, s))"

fun arrived :: "stream_event list \<Rightarrow> bytes list" where
  "arrived [] = []"
| "arrived (Arrives (Chunk_part bs) # es) = bs # arrived es"
| "arrived (e # es) = arrived es"

fun ended :: "stream_event list \<Rightarrow> bool" where
  "ended [] = False"
| "ended (Arrives End_part # es) = True"
| "ended (e # es) = ended es"

fun in_order :: "bool \<Rightarrow> stream_event list \<Rightarrow> bool" where
  \<comment> \<open>the parts of one job after its first: chunks, and nothing once it is complete\<close>
  "in_order whole [] = True"
| "in_order whole (Writes op as # es) = in_order whole es"
| "in_order whole (Arrives (Chunk_part bs) # es) = (\<not> whole \<and> in_order whole es)"
| "in_order whole (Arrives End_part # es) = (\<not> whole \<and> in_order True es)"
| "in_order whole (Arrives part # es) = False"

definition body_left :: "pending \<Rightarrow> bytes" where
  "body_left p = drop (pd_offset p) (concat (pd_chunks p))"

definition offset_ok :: "pending \<Rightarrow> bool" where
  "offset_ok p \<longleftrightarrow> (case pd_chunks p of [] \<Rightarrow> pd_offset p = 0 | c # cs \<Rightarrow> pd_offset p \<le> length c)"

definition stream_inv :: "bytes \<Rightarrow> pending \<Rightarrow> on_stream \<Rightarrow> bool" where
  \<comment> \<open>\<open>b\<close> is the body that has arrived\<close>
  "stream_inv b p s \<longleftrightarrow> offset_ok p \<and> os_body s @ body_left p = b
     \<and> (os_head s \<noteq> None) = pd_headers_sent p \<and> (\<not> pd_headers_sent p \<longrightarrow> os_body s = [] \<and> pd_offset p = 0)
     \<and> (os_fin s \<longrightarrow> pd_complete p \<and> body_left p = []) \<and> pd_fin_sent p = os_fin s"

lemma write_stuck:
  "pd_chunks p = [] \<Longrightarrow> write_chunks as p s = (True, as, [], p, s)"
  "pd_chunks p = c # cs \<Longrightarrow> write_chunks (Would_block # as) p s = (True, as, [], p, s)"
  "pd_chunks p = c # cs \<Longrightarrow> write_chunks (Write_failed # as) p s = (False, as, [], p, s)"
  "pd_chunks p = c # cs \<Longrightarrow> write_chunks (Wrote 0 # as) p s = (True, as, [], p, s)"
  by (cases as; simp)+

lemma write_some:
  assumes "pd_chunks p = c # cs" and "0 < n" and "pd_offset p + n < length c"
  shows "write_chunks (Wrote n # as) p s =
    write_chunks as (p\<lparr>pd_offset := pd_offset p + n\<rparr>)
      (s\<lparr>os_body := os_body s @ take n (drop (pd_offset p) c), os_fin := False\<rparr>)"
proof -
  have "(length (drop (pd_offset p) c) \<le> n) = False" using assms(3) by simp
  with assms show ?thesis by (simp add: Let_def del: length_drop)
qed

lemma write_all:
  assumes "pd_chunks p = c # cs" and "0 < n" and "length c \<le> pd_offset p + n" and "pd_offset p \<le> length c"
  shows "write_chunks (Wrote n # as) p s =
    (case write_chunks as (p\<lparr>pd_chunks := cs, pd_offset := 0, pd_fin_sent := (pd_complete p \<and> cs = [])\<rparr>)
       (s\<lparr>os_body := os_body s @ drop (pd_offset p) c, os_fin := (pd_complete p \<and> cs = [])\<rparr>) of
       (ok, as, given, p, s) \<Rightarrow> (ok, as, length c # given, p, s))"
proof -
  have "take n (drop (pd_offset p) c) = drop (pd_offset p) c" "length (drop (pd_offset p) c) \<le> n" using assms(3) by simp_all
  with assms show ?thesis by (simp add: Let_def split_def)
qed

lemma body_left_some:
  "pd_chunks p = c # cs \<Longrightarrow> pd_offset p + n \<le> length c \<Longrightarrow>
     take n (drop (pd_offset p) c) @ body_left (p\<lparr>pd_offset := pd_offset p + n\<rparr>) = body_left p"
  by (simp add: body_left_def) (metis append.assoc append_take_drop_id drop_drop add.commute)

lemma body_left_all:
  "pd_chunks p = c # cs \<Longrightarrow> pd_offset p \<le> length c \<Longrightarrow>
     drop (pd_offset p) c @ body_left (p\<lparr>pd_chunks := cs, pd_offset := 0, pd_fin_sent := b\<rparr>) = body_left p"
  by (simp add: body_left_def)

definition same_pending :: "pending \<Rightarrow> pending \<Rightarrow> bool" where
  "same_pending p q \<longleftrightarrow> pd_stream q = pd_stream p \<and> pd_status q = pd_status p \<and> pd_headers q = pd_headers p
     \<and> pd_headers_sent q = pd_headers_sent p \<and> pd_complete q = pd_complete p"

lemma same_pending_refl [simp]: "same_pending p p"
  by (simp add: same_pending_def)

lemma same_pending_trans: "same_pending p q \<Longrightarrow> same_pending q r \<Longrightarrow> same_pending p r"
  by (simp add: same_pending_def)

lemma write_chunks_inv:
  assumes "write_chunks as p s = (ok, as', given, p', s')" and "stream_inv b p s" and "pd_headers_sent p" and "\<not> os_fin s"
  shows "stream_inv b p' s' \<and> same_pending p p' \<and> os_head s' = os_head s"
  using assms
proof (induction as arbitrary: p s ok as' given p' s')
  case Nil
  then show ?case by simp
next
  case (Cons a as)
  show ?case
  proof (cases "pd_chunks p")
    case Nil
    with Cons.prems write_stuck(1) show ?thesis by simp
  next
    case chunks: (Cons c cs)
    have left: "pd_offset p \<le> length c" using Cons.prems(2) chunks by (simp add: stream_inv_def offset_ok_def)
    consider (stuck) "a \<in> {Would_block, Write_failed, Wrote 0}"
      | (some) n where "a = Wrote n" "0 < n" "pd_offset p + n < length c"
      | (all) n where "a = Wrote n" "0 < n" "length c \<le> pd_offset p + n"
      by (cases a) (auto, metis gr0I not_less)
    then show ?thesis
    proof cases
      case stuck
      with Cons.prems write_stuck(2-4) [OF chunks] show ?thesis by auto
    next
      case some
      let ?p = "p\<lparr>pd_offset := pd_offset p + n\<rparr>"
      let ?s = "s\<lparr>os_body := os_body s @ take n (drop (pd_offset p) c), os_fin := False\<rparr>"
      have inv: "stream_inv b ?p ?s"
        using Cons.prems(2-4) some(3) chunks body_left_some [OF chunks, of n] by (simp add: stream_inv_def offset_ok_def)
      have "write_chunks as ?p ?s = (ok, as', given, p', s')"
        using Cons.prems(1) write_some [OF chunks some(2,3)] some(1) by simp
      from Cons.IH [OF this inv] Cons.prems(3) show ?thesis by (simp add: same_pending_def)
    next
      case all
      let ?last = "pd_complete p \<and> cs = []"
      let ?p = "p\<lparr>pd_chunks := cs, pd_offset := 0, pd_fin_sent := ?last\<rparr>"
      let ?s = "s\<lparr>os_body := os_body s @ drop (pd_offset p) c, os_fin := ?last\<rparr>"
      have inv: "stream_inv b ?p ?s"
        using Cons.prems(2-4) body_left_all [OF chunks left, of ?last]
        by (auto simp: stream_inv_def offset_ok_def body_left_def [of "p\<lparr>pd_chunks := [], pd_offset := 0, pd_fin_sent := True\<rparr>"] split: list.split)
      obtain ok1 as1 given1 p1 s1 where rest: "write_chunks as ?p ?s = (ok1, as1, given1, p1, s1)"
        by (metis prod_cases5)
      have "stream_inv b p1 s1 \<and> same_pending ?p p1 \<and> os_head s1 = os_head ?s"
      proof (cases ?last)
        case True
        then have "write_chunks as ?p ?s = (True, as, [], ?p, ?s)" by (simp add: write_stuck(1))
        with rest inv show ?thesis by simp
      next
        case False
        with Cons.IH [OF rest inv] Cons.prems(3) show ?thesis by (simp add: same_pending_def)
      qed
      moreover have "p' = p1" "s' = s1"
        using Cons.prems(1) write_all [OF chunks all(2,3) left, of as s] rest all(1) by simp_all
      ultimately show ?thesis by (simp add: same_pending_def)
    qed
  qed
qed

lemma stream_fin: "stream_inv b p s \<Longrightarrow> os_fin s \<Longrightarrow> pd_complete p \<and> os_body s = b"
  by (auto simp: stream_inv_def)

lemma finish_stream_inv:
  assumes "finish_stream as p s = (ok, p', s')" and "stream_inv b p s" and "pd_headers_sent p"
  shows "stream_inv b p' s' \<and> same_pending p p' \<and> os_head s' = os_head s"
  using assms unfolding finish_stream_def
  by (auto simp: stream_inv_def offset_ok_def body_left_def same_pending_def split: if_splits list.splits wrote.splits)

lemma send_body_inv:
  assumes "send_body_part as p s = (r, given, p', s')" and "stream_inv b p s" and "pd_headers_sent p" and "\<not> os_fin s"
  shows "stream_inv b p' s' \<and> same_pending p p' \<and> os_head s' = os_head s \<and> (r = Still_sending \<longrightarrow> \<not> os_fin s') \<and> (r = Done_sending \<longrightarrow> os_fin s')"
proof -
  obtain ok1 as1 given1 p1 s1 where w: "write_chunks as p s = (ok1, as1, given1, p1, s1)" by (metis prod_cases5)
  obtain ok2 p2 s2 where f: "finish_stream as1 p1 s1 = (ok2, p2, s2)" by (metis prod_cases3)
  from write_chunks_inv [OF w assms(2-4)] have 1: "stream_inv b p1 s1" "same_pending p p1" "os_head s1 = os_head s" by auto
  with assms(3) have "pd_headers_sent p1" by (simp add: same_pending_def)
  from finish_stream_inv [OF f 1(1) this] have 2: "stream_inv b p2 s2" "same_pending p1 p2" "os_head s2 = os_head s1" by auto
  have sent2: "pd_headers_sent p2" using 1(2) 2(2) assms(3) by (simp add: same_pending_def)
  show ?thesis
  proof (cases ok1)
    case False
    with assms(1) w 1 show ?thesis by (auto simp: send_body_part_def)
  next
    case True
    with assms(1) w f have "p' = p2" "s' = s2" "r = (if ok2 then if is_finished p2 then Done_sending else Still_sending else Failed_sending)"
      by (auto simp: send_body_part_def split: bool.splits)
    moreover have "is_finished p2 = os_fin s2" using sent2 2(1) by (simp add: is_finished_def stream_inv_def)
    ultimately show ?thesis using 1 2 same_pending_trans by auto
  qed
qed

definition head_inv :: "bytes \<Rightarrow> pending \<Rightarrow> on_stream \<Rightarrow> bool" where
  \<comment> \<open>a length that was added is the length of the whole body\<close>
  "head_inv b p s \<longleftrightarrow>
     (case os_head s of
        None \<Rightarrow> True
      | Some (st, hs) \<Rightarrow> st = pd_status p
          \<and> (hs = pd_headers p
             \<or> hs = (''content-length'', show_nat (length b)) # pd_headers p \<and> pd_complete p \<and> st \<notin> {204, 304}))"

lemma head_lines_ok:
  assumes "stream_inv b p s" and "\<not> pd_headers_sent p"
  shows "head_lines p = pd_headers p
    \<or> head_lines p = (''content-length'', show_nat (length b)) # pd_headers p \<and> pd_complete p \<and> pd_status p \<notin> {204, 304}"
proof -
  have "os_body s @ body_left p = b" "os_body s = []" "pd_offset p = 0" using assms by (auto simp: stream_inv_def)
  then have "b = concat (pd_chunks p)" by (simp add: body_left_def)
  then have "body_len p = length b" by (simp add: body_len_def length_concat)
  then show ?thesis by (simp add: head_lines_def)
qed

lemma head_out [simp]:
  "offset_ok (p\<lparr>pd_headers_sent := b, pd_fin_sent := c\<rparr>) = offset_ok p"
  "body_left (p\<lparr>pd_headers_sent := b, pd_fin_sent := c\<rparr>) = body_left p"
  by (simp_all add: offset_ok_def body_left_def split: list.split)

lemma head_inv_same:
  "head_inv b p s \<Longrightarrow> pd_status p' = pd_status p \<Longrightarrow> pd_headers p' = pd_headers p \<Longrightarrow> pd_complete p' = pd_complete p
     \<Longrightarrow> os_head s' = os_head s \<Longrightarrow> head_inv b p' s'"
  unfolding head_inv_def by (simp only:)

lemma send_pending_inv:
  assumes "send_pending op as p s = (r, given, p', s')" and "stream_inv b p s" and "head_inv b p s" and "\<not> os_fin s"
  shows "stream_inv b p' s' \<and> head_inv b p' s' \<and> pd_status p' = pd_status p \<and> pd_headers p' = pd_headers p
    \<and> pd_complete p' = pd_complete p \<and> pd_stream p' = pd_stream p \<and> (r = Still_sending \<longrightarrow> \<not> os_fin s') \<and> (r = Done_sending \<longrightarrow> os_fin s')"
proof (cases "pd_headers_sent p")
  case True
  with assms(1) have "send_body_part as p s = (r, given, p', s')" by (simp add: send_pending_def)
  from send_body_inv [OF this assms(2) True assms(4)] head_inv_same [OF assms(3)] show ?thesis
    by (simp add: same_pending_def)
next
  case False
  let ?fin = "pd_complete p \<and> body_len p = 0"
  let ?s = "s\<lparr>os_head := Some (pd_status p, head_lines p), os_fin := ?fin\<rparr>"
  let ?p = "p\<lparr>pd_headers_sent := True, pd_fin_sent := ?fin\<rparr>"
  show ?thesis
  proof (cases "op = Opened")
    case False
    with \<open>\<not> pd_headers_sent p\<close> assms show ?thesis
      by (cases op) (auto simp: send_pending_def)
  next
    case True
    have empty: "os_body s = []" "pd_offset p = 0" using assms(2) False by (simp_all add: stream_inv_def)
    have head: "head_inv b ?p ?s" using head_lines_ok [OF assms(2) False] by (auto simp: head_inv_def)
    show ?thesis
    proof (cases ?fin)
      case fin: True
      then have "concat (pd_chunks p) = []" by (simp add: body_len_def)
      then have "body_left p = []" by (simp only: body_left_def drop_Nil)
      then have "stream_inv b ?p ?s" using assms(2) fin by (simp add: stream_inv_def)
      moreover have "r = Done_sending \<and> p' = ?p \<and> s' = ?s"
        using assms(1) True False fin by (simp add: send_pending_def Let_def)
      ultimately show ?thesis using head fin by simp
    next
      case fin: False
      have inv: "stream_inv b ?p ?s"
        using assms(2,4) False fin by (auto simp: stream_inv_def)
      have "send_body_part as ?p ?s = (r, given, p', s')"
        using assms(1) unfolding send_pending_def Let_def True using False fin by (simp only: opened.case if_False)
      from send_body_inv [OF this inv] fin head_inv_same [OF head] show ?thesis
        by (simp add: same_pending_def)
    qed
  qed
qed

lemma nothing_after_end: "in_order True es \<Longrightarrow> arrived es = []"
  by (induction es rule: arrived.induct) auto

lemma gone_stays: "fold happens es ([], s) = ([], s)"
proof (induction es)
  case (Cons e es)
  then show ?case by (cases e) simp_all
qed simp

lemma chunk_arrives:
  assumes "stream_inv b p s" and "head_inv b p s" and "\<not> pd_complete p"
  shows "stream_inv (b @ bs) (p\<lparr>pd_chunks := pd_chunks p @ [bs]\<rparr>) s" and "head_inv (b @ bs) (p\<lparr>pd_chunks := pd_chunks p @ [bs]\<rparr>) s"
proof -
  have "pd_offset p \<le> length (concat (pd_chunks p))" and "offset_ok (p\<lparr>pd_chunks := pd_chunks p @ [bs]\<rparr>)"
    using assms(1) by (auto simp: stream_inv_def offset_ok_def split: list.splits)
  moreover from this(1) have "body_left (p\<lparr>pd_chunks := pd_chunks p @ [bs]\<rparr>) = body_left p @ bs"
    by (simp add: body_left_def)
  ultimately show "stream_inv (b @ bs) (p\<lparr>pd_chunks := pd_chunks p @ [bs]\<rparr>) s"
    using assms(1,3) by (auto simp: stream_inv_def)
  show "head_inv (b @ bs) (p\<lparr>pd_chunks := pd_chunks p @ [bs]\<rparr>) s"
    using assms(2,3) by (auto simp: head_inv_def split: option.splits)
qed

lemma end_arrives:
  assumes "stream_inv b p s" and "head_inv b p s" and "\<not> pd_complete p"
  shows "stream_inv b (p\<lparr>pd_complete := True\<rparr>) s" and "head_inv b (p\<lparr>pd_complete := True\<rparr>) s"
proof -
  have "offset_ok (p\<lparr>pd_complete := True\<rparr>) = offset_ok p" "body_left (p\<lparr>pd_complete := True\<rparr>) = body_left p"
    by (simp_all add: offset_ok_def body_left_def split: list.split)
  with assms(1,3) show "stream_inv b (p\<lparr>pd_complete := True\<rparr>) s" by (auto simp: stream_inv_def)
  from assms(2,3) show "head_inv b (p\<lparr>pd_complete := True\<rparr>) s" by (auto simp: head_inv_def split: option.splits)
qed

definition carried_well :: "pending \<Rightarrow> bytes \<Rightarrow> bool \<Rightarrow> on_stream \<Rightarrow> bool" where
  \<comment> \<open>over the answer as it was filed, its whole body and whether that is complete: what quiche was handed
    is a part of it from its start, ended only when it is whole, under its own head, with no length
    but the right one added\<close>
  "carried_well p b whole s \<longleftrightarrow> (\<exists>rest. os_body s @ rest = b) \<and> (os_fin s \<longrightarrow> whole \<and> os_body s = b)
     \<and> (case os_head s of
          None \<Rightarrow> os_body s = []
        | Some (st, hs) \<Rightarrow> st = pd_status p
            \<and> (hs = pd_headers p \<or> hs = (''content-length'', show_nat (length b)) # pd_headers p \<and> st \<notin> {204, 304}))"

lemma carried_well_same:
  "pd_status p = pd_status q \<Longrightarrow> pd_headers p = pd_headers q \<Longrightarrow> carried_well p b whole s = carried_well q b whole s"
  unfolding carried_well_def by (simp only:)

lemma carried_now:
  assumes "stream_inv b p s" and "head_inv b p s" and "pd_complete p \<longrightarrow> whole" and "pd_complete p \<longrightarrow> b' = b" and "\<exists>r. b' = b @ r"
    and "os_fin s \<longrightarrow> pd_complete p" and "pd_status p0 = pd_status p" and "pd_headers p0 = pd_headers p"
  shows "carried_well p0 b' whole s"
proof -
  have "\<exists>rest. os_body s @ rest = b'" using assms(1,5) by (auto simp: stream_inv_def)
  moreover have "os_fin s \<longrightarrow> whole \<and> os_body s = b'" using stream_fin [OF assms(1)] assms(3,4) by simp
  moreover have "os_head s = None \<longrightarrow> os_body s = []" using assms(1) by (auto simp: stream_inv_def)
  ultimately show ?thesis using assms(2,4,7,8) by (auto simp: carried_well_def head_inv_def split: option.splits)
qed

lemma stream_life:
  assumes "in_order (pd_complete p) es" and "stream_inv b p s" and "head_inv b p s" and "\<not> os_fin s"
    and "fold happens es ([p], s) = (ps, s')"
  shows "carried_well p (b @ concat (arrived es)) (pd_complete p \<or> ended es) s'"
  using assms
proof (induction es arbitrary: p b s)
  case Nil
  then show ?case by (auto intro: carried_now)
next
  case (Cons e es)
  show ?case
  proof (cases e)
    case (Writes op as)
    obtain r given p1 s1 where w: "send_pending op as p s = (r, given, p1, s1)" by (metis prod_cases4)
    note inv = send_pending_inv [OF w Cons.prems(2-4)]
    have order: "in_order (pd_complete p1) es" using Cons.prems(1) Writes inv by simp
    have same: "pd_status p = pd_status p1" "pd_headers p = pd_headers p1" using inv by simp_all
    show ?thesis
    proof (cases "r = Still_sending")
      case True
      then have "fold happens es ([p1], s1) = (ps, s')" using Cons.prems(5) Writes w by simp
      from Cons.IH [OF order _ _ _ this, of b] inv True have "carried_well p1 (b @ concat (arrived es)) (pd_complete p1 \<or> ended es) s'"
        by simp
      then show ?thesis using inv Writes carried_well_same [OF same] by simp
    next
      case False
      then have "s' = s1" using Cons.prems(5) Writes w gone_stays by (cases r) auto
      moreover have "pd_complete p1 \<longrightarrow> b @ concat (arrived es) = b" using nothing_after_end order by auto
      ultimately show ?thesis
        using inv same Writes stream_fin [of b p1 s1] by (auto intro!: carried_now [of b p1 s1])
    qed
  next
    case (Arrives part)
    show ?thesis
    proof (cases part)
      case (Chunk_part bs)
      let ?p = "p\<lparr>pd_chunks := pd_chunks p @ [bs]\<rparr>"
      from Cons.prems(1) Arrives Chunk_part have open_still: "\<not> pd_complete p" "in_order (pd_complete ?p) es" by auto
      moreover have "fold happens es ([?p], s) = (ps, s')"
        using Cons.prems(5) Arrives Chunk_part by (simp add: drain_one_def)
      ultimately have "carried_well ?p ((b @ bs) @ concat (arrived es)) (pd_complete ?p \<or> ended es) s'"
        using Cons.IH chunk_arrives [OF Cons.prems(2,3)] Cons.prems(4) by blast
      then show ?thesis using Arrives Chunk_part carried_well_same [of ?p p] by simp
    next
      case End_part
      let ?p = "p\<lparr>pd_complete := True\<rparr>"
      from Cons.prems(1) Arrives End_part have open_still: "\<not> pd_complete p" "in_order (pd_complete ?p) es" by auto
      moreover have "fold happens es ([?p], s) = (ps, s')"
        using Cons.prems(5) Arrives End_part by (simp add: drain_one_def)
      ultimately have "carried_well ?p (b @ concat (arrived es)) (pd_complete ?p \<or> ended es) s'"
        using Cons.IH end_arrives [OF Cons.prems(2,3)] Cons.prems(4) by blast
      then show ?thesis using Arrives End_part carried_well_same [of ?p p] by simp
    qed (use Cons.prems(1) Arrives in auto)
  qed
qed


definition sample_head :: response_head where
  "sample_head = \<lparr>hd_status = 200, hd_headers = []\<rparr>"

definition sample_life :: "stream_event list" where
  "sample_life = [Arrives (Chunk_part [1, 2]), Writes Opened [Wrote 1], Arrives (Chunk_part [3]), Writes Not_now [Wrote 1, Would_block],
     Arrives End_part, Writes Not_now [Wrote 1, Wrote 1]]"


section \<open>What a stream takes is enough\<close>

fun taking :: "nat list \<Rightarrow> nat \<Rightarrow> bytes list \<Rightarrow> wrote list" where
  \<comment> \<open>what \<open>send_body\<close> answers on a stream with this room at each write: as much as is offered, or as there is
    room for; the offer of nothing that ends a stream is taken\<close>
  "taking rooms off [] = [Wrote 0]"
| "taking [] off (c # cs) = []"
| "taking (k # ks) off (c # cs) =
     (let n = min k (length c - off)
      in Wrote n # (if off + n \<ge> length c then taking ks 0 cs else taking ks (off + n) (c # cs)))"

lemma write_chunks_all:
  assumes "list_all (\<lambda>c. c \<noteq> []) (pd_chunks p)" and "pd_chunks p \<noteq> [] \<longrightarrow> pd_offset p < length (hd (pd_chunks p))"
    and "list_all (\<lambda>k. 0 < k) rooms" and "length (body_left p) \<le> length rooms"
  shows "\<exists>p' s'. write_chunks (taking rooms (pd_offset p) (pd_chunks p)) p s = (True, [Wrote 0], map length (pd_chunks p), p', s')
    \<and> pd_chunks p' = [] \<and> os_body s' = os_body s @ body_left p \<and> os_head s' = os_head s \<and> same_pending p p'
    \<and> (pd_chunks p \<noteq> [] \<longrightarrow> os_fin s' = pd_complete p \<and> pd_fin_sent p' = pd_complete p)
    \<and> (pd_chunks p = [] \<longrightarrow> p' = p \<and> s' = s)"
  using assms
proof (induction rooms arbitrary: p s)
  case Nil
  then have "pd_chunks p = []" by (cases "pd_chunks p") (auto simp: body_left_def)
  then show ?case using write_stuck(1) [of p "[Wrote 0]" s] by (simp add: body_left_def)
next
  case (Cons k ks)
  show ?case
  proof (cases "pd_chunks p")
    case Nil
    then show ?thesis using write_stuck(1) [of p "[Wrote 0]" s] by (simp add: body_left_def)
  next
    case chunks: (Cons c cs)
    let ?n = "min k (length c - pd_offset p)"
    have off: "pd_offset p < length c" "pd_offset p \<le> length c" and n: "0 < ?n" "pd_offset p + ?n \<le> length c"
      using Cons.prems chunks by auto
    have left: "length (body_left p) = length c - pd_offset p + length (concat cs)"
      using off(2) by (simp add: body_left_def chunks)
    show ?thesis
    proof (cases "length c \<le> pd_offset p + ?n")
      case True
      let ?last = "pd_complete p \<and> cs = []"
      let ?p = "p\<lparr>pd_chunks := cs, pd_offset := 0, pd_fin_sent := ?last\<rparr>"
      let ?s = "s\<lparr>os_body := os_body s @ drop (pd_offset p) c, os_fin := ?last\<rparr>"
      have later: "list_all (\<lambda>c. c \<noteq> []) (pd_chunks ?p)" "pd_chunks ?p \<noteq> [] \<longrightarrow> pd_offset ?p < length (hd (pd_chunks ?p))"
          "list_all (\<lambda>k. 0 < k) ks" "length (body_left ?p) \<le> length ks"
        using Cons.prems chunks left off by (auto simp: list_all_iff body_left_def)
      from Cons.IH [OF this, of ?s] obtain p' s' where rest:
          "write_chunks (taking ks 0 cs) ?p ?s = (True, [Wrote 0], map length cs, p', s')"
          "pd_chunks p' = []" "os_body s' = os_body ?s @ body_left ?p" "os_head s' = os_head ?s" "same_pending ?p p'"
          "cs \<noteq> [] \<longrightarrow> os_fin s' = pd_complete p \<and> pd_fin_sent p' = pd_complete p" "cs = [] \<longrightarrow> p' = ?p \<and> s' = ?s"
        by auto
      have "write_chunks (taking (k # ks) (pd_offset p) (pd_chunks p)) p s = (True, [Wrote 0], map length (pd_chunks p), p', s')"
      proof -
        have "taking (k # ks) (pd_offset p) (pd_chunks p) = Wrote ?n # taking ks 0 cs"
          using True unfolding chunks taking.simps(3) Let_def by (simp only: if_True)
        then show ?thesis using write_all [OF chunks n(1) True off(2), of "taking ks 0 cs" s] rest(1) chunks
          by (simp del: write_chunks.simps)
      qed
      moreover have "os_body s' = os_body s @ body_left p"
        using rest(3) body_left_all [OF chunks off(2), of ?last] by simp
      moreover have "os_head s' = os_head s" "same_pending p p'" using rest(4,5) by (simp_all add: same_pending_def)
      moreover have "os_fin s' = pd_complete p \<and> pd_fin_sent p' = pd_complete p"
        using rest(6,7) by (cases "cs = []") auto
      moreover have "pd_chunks p \<noteq> []" using chunks by simp
      ultimately show ?thesis using rest(2) by blast
    next
      case False
      then have some: "pd_offset p + ?n < length c" by simp
      let ?p = "p\<lparr>pd_offset := pd_offset p + ?n\<rparr>"
      let ?s = "s\<lparr>os_body := os_body s @ take ?n (drop (pd_offset p) c), os_fin := False\<rparr>"
      have later: "list_all (\<lambda>c. c \<noteq> []) (pd_chunks ?p)" "pd_chunks ?p \<noteq> [] \<longrightarrow> pd_offset ?p < length (hd (pd_chunks ?p))"
          "list_all (\<lambda>k. 0 < k) ks" "length (body_left ?p) \<le> length ks"
        using Cons.prems chunks left some n by (auto simp: list_all_iff body_left_def)
      from Cons.IH [OF this, of ?s] obtain p' s' where rest:
          "write_chunks (taking ks (pd_offset p + ?n) (pd_chunks p)) ?p ?s = (True, [Wrote 0], map length (pd_chunks p), p', s')"
          "pd_chunks p' = []" "os_body s' = os_body ?s @ body_left ?p" "os_head s' = os_head ?s" "same_pending ?p p'"
          "pd_chunks p \<noteq> [] \<longrightarrow> os_fin s' = pd_complete p \<and> pd_fin_sent p' = pd_complete p"
        by auto
      have "write_chunks (taking (k # ks) (pd_offset p) (pd_chunks p)) p s = (True, [Wrote 0], map length (pd_chunks p), p', s')"
      proof -
        have "taking (k # ks) (pd_offset p) (pd_chunks p) = Wrote ?n # taking ks (pd_offset p + ?n) (pd_chunks p)"
          using False unfolding chunks taking.simps(3) Let_def by (simp only: if_False)
        then show ?thesis using write_some [OF chunks n(1) some, of "taking ks (pd_offset p + ?n) (pd_chunks p)" s] rest(1) chunks
          by (simp del: write_chunks.simps)
      qed
      moreover have "os_body s' = os_body s @ body_left p"
        using rest(3) body_left_some [OF chunks n(2)] by simp
      moreover have "os_head s' = os_head s" "same_pending p p'" using rest(4,5) by (simp_all add: same_pending_def)
      moreover have "pd_chunks p \<noteq> []" using chunks by simp
      ultimately show ?thesis using rest(2,6) by blast
    qed
  qed
qed



section \<open>The name of the handshake\<close>

definition plain_target :: "h3_fields \<Rightarrow> bool" where
  \<comment> \<open>the scheme has no colon and the path begins as a path, so that neither can name a host\<close>
  "plain_target f \<longleftrightarrow>
     (case hf_scheme f of Some scheme \<Rightarrow> CHR '':'' \<notin> set scheme | None \<Rightarrow> True)
     \<and> (case hf_path f of Some path \<Rightarrow> starts_with path ''/'' | None \<Rightarrow> True)"

lemma h3_host:
  assumes "list_all host_char name" and "build_request (Some name) peer hs = Some (r, len)" and "plain_target (fold read_field hs no_fields)"
  shows "host_of (rq_url r) = name"
proof -
  let ?f = "fold read_field hs no_fields"
  obtain path m where path: "hf_path ?f = Some path" and "hf_method ?f = Some m"
    using assms(2) by (auto simp: build_request_def Let_def split: option.splits)
  moreover from this have slash: "starts_with path ''/''" using assms(3) by (simp add: plain_target_def)
  moreover define scheme where "scheme = (case hf_scheme ?f of Some s \<Rightarrow> s | None \<Rightarrow> ''https'')"
  ultimately have "rq_url r = scheme @ ''://'' @ authority_host name @ path"
    using assms(2) by (auto simp: build_request_def Let_def)
  moreover have "CHR '':'' \<notin> set scheme" using assms(3) by (auto simp: scheme_def plain_target_def split: option.splits)
  ultimately show ?thesis using host_of_url [OF assms(1) _ slash, of scheme] authority_host_plain [OF assms(1)] by simp
qed


definition sample_fields :: "str \<Rightarrow> str \<Rightarrow> headers" where
  "sample_fields scheme path = [('':method'', ''GET''), ('':authority'', ''b.example''), ('':scheme'', scheme), ('':path'', path)]"

definition sample_incoming :: incoming where
  "sample_incoming = \<lparr>ic_method = ''GET'', ic_authority = Some ''b.example'', ic_path = Some ''/x'', ic_headers = [(''Host'', ''c.example'')]\<rparr>"


text \<open>
  Nothing checks the scheme or the path of an HTTP/3 request, and either can name another host than
  the handshake did.
\<close>

lemma scheme_overrides_sni:
  "map_option (\<lambda>(r, len). (rq_url r, host_of (rq_url r))) (build_request (Some ''a.example'') (V4 1, 9) (sample_fields ''https://bank.example/?'' ''/''))
     = Some (''https://bank.example/?://a.example/'', ''bank.example'')"
  by code_simp

lemma path_overrides_sni:
  "map_option (\<lambda>(r, len). (rq_url r, host_of (rq_url r))) (build_request (Some ''a.example'') (V4 1, 9) (sample_fields ''https'' ''.bank.example/''))
     = Some (''https://a.example.bank.example/'', ''a.example.bank.example'')"
  by code_simp

section \<open>Answers that are not what they should be\<close>

text \<open>
  Of a second answer on a stream only the first part is refused: a chunk of it that was under way is
  put into the body of the first answer.
\<close>

lemma second_answer_mixes:
  "map_option (map pd_chunks) (fst (drain_results [(''c'', 0, Head_part sample_head), (''c'', 0, Chunk_part [1]), (''c'', 0, Head_part sample_head), (''c'', 0, Chunk_part [9])]
     [''c'' \<mapsto> []]) ''c'') = Some [[[1], [9]]]"
  by code_simp

text \<open>
  The answer to a \<open>HEAD\<close> of a document whose length the origin does not declare is given the length 0
  when its end is there before its head is written, and a 204 to a \<open>HEAD\<close> always has a length.
\<close>

lemma head_of_unknown_length:
  "let p = (the (pending_of 0 (Head_part sample_head))); ps = snd (drain_one 0 End_part [p])
   in map head_lines ps = [[(''content-length'', ''0'')]]"
  by code_simp

lemma no_content_has_length:
  "bodyless (Full_part \<lparr>rs_status = 204, rs_headers = [], rs_body = []\<rparr>)
     = Full_part \<lparr>rs_status = 204, rs_headers = [(''content-length'', ''0'')], rs_body = []\<rparr>"
  by code_simp

end
