(* ===== verification/Fronts.thy ===== *)
theory Fronts
  imports H3
begin

text \<open>
  The two front ends of the proxy side by side: \<open>fetch_blocking\<close> of \<open>src/proxy/src/tcp.rs\<close> and
  \<open>handle_job\<close> of \<open>src/proxy/src/main.rs\<close> are two copies of the same work, and this theory shows that
  the forwarding part of both gives the same answer and leaves the same state.
\<close>

section \<open>Both front ends give the same answer\<close>

definition similar :: "headers \<Rightarrow> headers \<Rightarrow> bool" where
  \<comment> \<open>but for what they say of other protocols\<close>
  "similar hs hs' \<longleftrightarrow> without ''alt-svc'' hs = without ''alt-svc'' hs'"

lemma eq_ci_alt: "\<not> eq_ci ''alt-svc'' ''content-encoding''" "\<not> eq_ci ''alt-svc'' ''content-type''" "\<not> eq_ci ''alt-svc'' ''vary''"
  by code_simp+

lemma apart: "\<not> eq_ci a n \<Longrightarrow> eq_ci m n \<Longrightarrow> \<not> eq_ci m a"
  using eq_ci_sym eq_ci_trans by blast

lemma header_but: "\<not> eq_ci a n \<Longrightarrow> header (without a hs) n = header hs n"
proof (induction hs)
  case (Cons h hs)
  obtain m v where h: "h = (m, v)" by force
  show ?case
  proof (cases "eq_ci m n")
    case True
    with apart [OF Cons.prems True] show ?thesis by (simp add: header_def without_def h)
  next
    case False
    with Cons show ?thesis by (simp add: header_def without_def h)
  qed
qed (simp add: header_def without_def)

lemma similar_header: "similar hs hs' \<Longrightarrow> \<not> eq_ci ''alt-svc'' n \<Longrightarrow> header hs n = header hs' n"
  unfolding similar_def by (subst (1 2) header_but [of "''alt-svc''" n, symmetric]) (assumption | simp only:)+

lemma list_ex_but:
  assumes "\<And>m v. P (m, v) \<Longrightarrow> eq_ci m n" and "\<not> eq_ci a n"
  shows "list_ex P (without a hs) = list_ex P hs"
proof (induction hs)
  case (Cons h hs)
  obtain m v where h: "h = (m, v)" by force
  have "P (m, v) \<Longrightarrow> \<not> eq_ci m a" using assms apart by blast
  with Cons show ?case by (cases "eq_ci m a") (auto simp: without_def h)
qed (simp add: without_def)

lemma similar_list_ex:
  assumes "similar hs hs'" and "\<And>m v. P (m, v) \<Longrightarrow> eq_ci m n" and "\<not> eq_ci ''alt-svc'' n"
  shows "list_ex P hs = list_ex P hs'"
  using list_ex_but [of P n "''alt-svc''" hs, OF assms(2,3)] list_ex_but [of P n "''alt-svc''" hs', OF assms(2,3)] assms(1)
  by (simp only: similar_def)

lemma vary_but:
  assumes "\<not> eq_ci a ''vary''"
  shows "vary_on name (without a hs) = without a (vary_on name hs)"
proof (induction hs)
  case Nil
  have "\<not> eq_ci ''vary'' a" using assms eq_ci_sym by blast
  then show ?case by (simp add: without_def)
next
  case (Cons h hs)
  obtain m v where h: "h = (m, v)" by force
  show ?case
  proof (cases "eq_ci m ''vary''")
    case True
    with apart [OF assms True] show ?thesis by (simp add: without_def h)
  next
    case False
    with Cons show ?thesis by (cases "eq_ci m a") (simp_all add: without_def h)
  qed
qed

lemma without_without: "without a (without b hs) = without b (without a hs)"
  by (simp add: without_def conj_commute)

lemma similar_declare: "similar hs hs' \<Longrightarrow> similar (declare_coding hs c) (declare_coding hs' c)"
proof -
  assume "similar hs hs'"
  then have "without ''content-encoding'' (without ''alt-svc'' hs) = without ''content-encoding'' (without ''alt-svc'' hs')"
    by (simp add: similar_def)
  then have "without ''alt-svc'' (without ''content-encoding'' hs @ [(''content-encoding'', token c)])
      = without ''alt-svc'' (without ''content-encoding'' hs' @ [(''content-encoding'', token c)])"
    unfolding without_without [of "''content-encoding''" "''alt-svc''"] by (simp add: without_def)
  then show ?thesis
    unfolding similar_def declare_coding_def vary_on_accept_encoding_def
    by (simp only: vary_but [OF eq_ci_alt(3), symmetric])
qed

lemma similar_alt: "similar (apply_alt_svc c hs) hs"
proof -
  have "eq_ci ''alt-svc'' ''alt-svc''" by simp
  then show ?thesis by (simp add: similar_def apply_alt_svc_def Let_def without_def)
qed

lemma similar_streamer:
  assumes "similar (hd_headers a) (hd_headers b)" and "hd_status a = hd_status b"
    and "streamer_for encs lol co c i req a = (s, a')"
  shows "\<exists>b'. streamer_for encs lol co c i req b = (s, b') \<and> hd_status b' = hd_status a' \<and> similar (hd_headers a') (hd_headers b')"
proof -
  note alt = similar_header [OF assms(1)]
  have h: "header (hd_headers a) ''content-encoding'' = header (hd_headers b) ''content-encoding''"
    "header (hd_headers a) ''content-type'' = header (hd_headers b) ''content-type''"
    using alt eq_ci_alt by blast+
  have "is_html (hd_headers a) = is_html (hd_headers b)"
    unfolding is_html_def by (rule similar_list_ex [OF assms(1), of _ "''content-type''"]) (use eq_ci_alt(2) in auto)
  moreover have "has_content_encoding (hd_headers a) = has_content_encoding (hd_headers b)"
    unfolding has_content_encoding_def has_header_def
    by (rule similar_list_ex [OF assms(1), of _ "''content-encoding''"]) (use eq_ci_alt(1) in auto)
  moreover have "coding_of (hd_headers a) = coding_of (hd_headers b)" "compressible (hd_headers a) = compressible (hd_headers b)"
    "charset (hd_headers a) = charset (hd_headers b)"
    by (simp_all only: coding_of_def compressible_def charset_def h)
  ultimately show ?thesis
    using assms similar_declare [OF assms(1)]
    unfolding streamer_for_def claims_page_def streaming_coding_def new_streamer_def Let_def
    by (auto split: option.splits if_splits)
qed

lemma similar_length: "similar hs hs' \<Longrightarrow> similar (declare_length hs n) (declare_length hs' n)"
proof -
  assume "similar hs hs'"
  then have "without ''content-length'' (without ''alt-svc'' hs) = without ''content-length'' (without ''alt-svc'' hs')"
    by (simp add: similar_def)
  then show ?thesis
    unfolding similar_def declare_length_def without_without [of "''content-length''" "''alt-svc''"] by (simp add: without_def)
qed

lemma takes_any:
  "\<forall>n. ft_takes F n \<Longrightarrow> \<exists>k'. hand_over F head_only part (k, parts) = (True, k', parts @ [if head_only then bodyless part else part])"
  by (auto simp: hand_over_def Let_def)

lemma takes_hand_over: "\<forall>n. ft_takes F n \<Longrightarrow> \<exists>k'. hand_over F False part (k, parts) = (True, k', parts @ [part])"
  using takes_any [of F False part k parts] by simp

lemma whole_handed:
  assumes "\<forall>n. ft_takes F n"
  obtains k where "whole_answer F head_only r w = ((True, k, [if head_only then bodyless (Full_part r) else Full_part r]),
    metered F (to_client (length (rs_body r))) w)"
proof -
  obtain k where "hand_over F head_only (Full_part r) (0, []) = (True, k, [] @ [if head_only then bodyless (Full_part r) else Full_part r])"
    using takes_any [OF assms(1)] by blast
  then show ?thesis by (intro that) (simp add: whole_answer_def)
qed

lemma kept_up: "drain_push n 0 now d = default_drain" "drain_rate after now default_drain = None"
  by (simp_all add: drain_push_def drain_rate_def default_drain_def)

lemma loops_agree:
  assumes "\<forall>n. ft_takes F n" and "\<forall>n. fst (ft_queue F n) = 0"
  shows "\<exists>n' k' new s' w'. relay_loop F req chunky ps n (s, default_drain, gone, w) = (n', s', default_drain, gone @ new, w')
    \<and> h3_loop F req chunky ps ((k, parts), s, w) = (True, (k', parts @ map Chunk_part new), s', w')"
proof (induction ps arbitrary: n s gone w k parts)
  case Nil
  show ?case by (auto intro: exI [of _ "[]"])
next
  case (Cons p ps)
  obtain chunk w1 where c: "(if chunky then Interceptor.on_response_chunk (ft_chain F) req p (metered F (from_origin (length p)) w)
      else (p, metered F (from_origin (length p)) w)) = (chunk, w1)" by force
  show ?case
  proof (cases "chunky \<and> chunk = []")
    case True
    with Cons.IH [of n s gone w1 k parts] c show ?thesis by simp
  next
    case False
    obtain out s' where o: "rewritten_chunk F chunk s = (out, s')" by force
    define w2 where "w2 = counted_injection F s' w1"
    show ?thesis
    proof (cases "s \<noteq> None \<and> out = []")
      case True
      with False Cons.IH [of n s' gone w2 k parts] c o show ?thesis by (cases chunky) (auto simp: Let_def w2_def)
    next
      case sends: False
      obtain now after where q: "ft_queue F n = (0, now, after)" using assms(2) by (metis prod.collapse)
      obtain k1 where h: "hand_over F False (Chunk_part out) (k, parts) = (True, k1, parts @ [Chunk_part out])"
        using takes_hand_over [OF assms(1)] by blast
      define w3 where "w3 = metered F (to_client (length out)) w2"
      obtain n' k' new s'' w' where ih: "relay_loop F req chunky ps (Suc n) (s', default_drain, gone @ [out], w3) = (n', s'', default_drain, (gone @ [out]) @ new, w')"
        "h3_loop F req chunky ps ((k1, parts @ [Chunk_part out]), s', w3) = (True, (k', (parts @ [Chunk_part out]) @ map Chunk_part new), s'', w')"
        using Cons.IH [of "Suc n" s' "gone @ [out]" w3 k1 "parts @ [Chunk_part out]"] by blast
      have a: "relay_loop F req chunky (p # ps) n (s, default_drain, gone, w) = (n', s'', default_drain, gone @ (out # new), w')"
        using False sends c o q ih(1) assms(1) kept_up by (cases chunky) (auto simp: Let_def w2_def w3_def)
      have b: "h3_loop F req chunky (p # ps) ((k, parts), s, w) = (True, (k', parts @ map Chunk_part (out # new)), s'', w')"
        using False sends c o h ih(2) by (cases chunky) (auto simp: Let_def w2_def w3_def)
      from a b show ?thesis by blast
    qed
  qed
qed

fun same_answer :: "answer_out \<Rightarrow> h3_payload list \<Rightarrow> bool" where
  \<comment> \<open>an answer over TCP and the pieces handed to the event loop\<close>
  "same_answer (Buffered_out r) [Full_part r'] =
     (rs_status r = rs_status r' \<and> rs_body r = rs_body r' \<and> similar (rs_headers r) (rs_headers r'))"
| "same_answer (Streaming_out head gone) (Head_part head' # parts) =
     (hd_status head = hd_status head' \<and> similar (hd_headers head) (hd_headers head') \<and> parts = map Chunk_part gone @ [End_part])"
| "same_answer out parts = False"

fun as_sent :: "bool \<Rightarrow> answer_out \<Rightarrow> answer_out" where
  \<comment> \<open>what \<open>handle\<close> makes of it when only the head was asked for\<close>
  "as_sent head_only (Buffered_out r) =
     Buffered_out (if head_only then r\<lparr>rs_headers := declare_length (rs_headers r) (length (rs_body r)), rs_body := []\<rparr> else r)"
| "as_sent head_only (Streaming_out head gone) = Streaming_out head (if head_only then [] else gone)"

lemma answer_as_sent: "answer_of ok head_only out = answer_of ok False (as_sent head_only out)"
  by (cases out) (simp_all add: answer_of_def Let_def)

definition agree :: "bool \<Rightarrow> answer_out \<times> 'w \<Rightarrow> (bool \<times> handed) \<times> 'w \<Rightarrow> bool" where
  \<comment> \<open>the same answer, handed over whole, and the same state\<close>
  "agree head_only a b = (case (a, b) of ((out, w1), ((ok, n, parts), w2)) \<Rightarrow> ok \<and> same_answer (as_sent head_only out) parts \<and> w1 = w2)"

lemma similar_refl: "similar hs hs"
  by (simp add: similar_def)

lemma relay_agree:
  assumes "\<forall>n. ft_takes F n" and "\<forall>n. fst (ft_queue F n) = 0"
  shows "agree (eq_ci (rq_method req) ''HEAD'') (relay F req chunky declared head pieces w) (h3_relay F req chunky declared head pieces w)"
proof (cases "eq_ci (rq_method req) ''HEAD''")
  case True
  obtain head1 w1 where h: "Interceptor.on_response_head (ft_chain F) req head w = (head1, w1)" by force
  with True show ?thesis
    by (cases declared) (simp_all add: relay_def h3_relay_def agree_def Let_def similar_alt similar_length)
next
  case not_head: False
  obtain head1 w1 where h: "Interceptor.on_response_head (ft_chain F) req head w = (head1, w1)" by force
  define head2 where "head2 = head1\<lparr>hd_headers := apply_alt_svc (ft_config F) (hd_headers head1)\<rparr>"
  obtain s head3 where a: "streamer_for (ft_encodings F) (ft_html F) (ft_coders F) (ft_config F) (ft_inject F w1) req head2 = (s, head3)" by force
  obtain head4 where b: "streamer_for (ft_encodings F) (ft_html F) (ft_coders F) (ft_config F) (ft_inject F w1) req head1 = (s, head4)"
    and same: "hd_status head4 = hd_status head3" "similar (hd_headers head3) (hd_headers head4)"
    using similar_streamer [OF _ _ a, of head1] similar_alt by (auto simp: head2_def)
  obtain n' k' new s' w2 where l: "relay_loop F req chunky pieces 0 (s, default_drain, [], w1) = (n', s', default_drain, [] @ new, w2)"
    "h3_loop F req chunky pieces ((0, [Head_part head4]), s, w1) = (True, (k', [Head_part head4] @ map Chunk_part new), s', w2)"
    using loops_agree [OF assms(1,2)] by blast
  obtain tail w3 where t: "relay_tail F req chunky s' w2 = (tail, w3)" by force
  obtain k2 where e: "hand_over F False End_part (k', Head_part head4 # map Chunk_part new) = (True, k2, (Head_part head4 # map Chunk_part new) @ [End_part])"
    using takes_hand_over [OF assms(1)] by blast
  obtain k3 where c: "hand_over F False (Chunk_part tail) (k', Head_part head4 # map Chunk_part new) = (True, k3, (Head_part head4 # map Chunk_part new) @ [Chunk_part tail])"
    using takes_hand_over [OF assms(1)] by blast
  obtain k4 where d: "hand_over F False End_part (k3, (Head_part head4 # map Chunk_part new) @ [Chunk_part tail]) = (True, k4, ((Head_part head4 # map Chunk_part new) @ [Chunk_part tail]) @ [End_part])"
    using takes_hand_over [OF assms(1)] by blast
  have r: "relay F req chunky declared head pieces w = (if tail = [] then (Streaming_out head3 new, w3)
      else (Streaming_out head3 (new @ [tail]), metered F (to_client (length tail)) w3))"
    using h a l(1) t assms(1) not_head by (simp add: relay_def Let_def head2_def)
  have s: "h3_relay F req chunky declared head pieces w = (if tail = [] then ((True, k2, (Head_part head4 # map Chunk_part new) @ [End_part]), w3)
      else ((True, k4, ((Head_part head4 # map Chunk_part new) @ [Chunk_part tail]) @ [End_part]), metered F (to_client (length tail)) w3))"
    using h b l(2) t not_head c d e by (simp add: h3_relay_def Let_def)
  show ?thesis unfolding r s using same not_head by (simp add: agree_def)
qed

lemma compressed_again:
  assumes "\<forall>c x. ft_deflate F c x \<noteq> None" and "through_interceptors F req st hs bs w = (r, coding, w')"
  shows "compressed F req coding r w' = compressed F req None r w'"
proof (cases coding)
  case (Some c)
  obtain hs1 body1 where d: "decode (ft_inflate F) hs bs (max_response_body (limits_section (ft_config F))) = (hs1, body1, coding)"
    using assms(2) by (auto simp: through_interceptors_def Let_def split: prod.splits)
  obtain r1 w1 where i: "Interceptor.on_response (ft_chain F) req \<lparr>rs_status = st, rs_headers = hs1, rs_body = body1\<rparr> w = (r1, w1)" by force
  obtain z where z: "ft_deflate F c (rs_body r1) = Some z" using assms(1) by blast
  have "r = r1\<lparr>rs_headers := rs_headers r1 @ [(''content-encoding'', token c)], rs_body := z\<rparr>"
    using assms(2) d i z Some by (simp add: through_interceptors_def encode_def)
  then have "has_content_encoding (rs_headers r)" by (simp add: has_content_encoding_def has_header_def)
  then show ?thesis by (simp add: compressed_def ensure_compressed_def)
qed simp

lemma finish_agree:
  assumes "\<forall>n. ft_takes F n" and "compressed F req coding r w = compressed F req None r w"
  shows "agree head_only (finish_buffered F req r w) (case compressed F req coding r w of (r, w) \<Rightarrow> whole_answer F head_only r w)"
proof -
  obtain r1 w1 where c: "compressed F req None r w = (r1, w1)" by force
  obtain k where "whole_answer F head_only r1 w1 = ((True, k, [if head_only then bodyless (Full_part r1) else Full_part r1]),
      metered F (to_client (length (rs_body r1))) w1)"
    using whole_handed [OF assms(1)] by blast
  then show ?thesis using c assms(2) by (simp add: finish_buffered_def agree_def similar_alt similar_length Let_def)
qed

lemma live_agree:
  assumes "\<forall>n. ft_takes F n" and "\<forall>n. fst (ft_queue F n) = 0" and "\<forall>c x. ft_deflate F c x \<noteq> None"
  shows "agree (eq_ci (rq_method req) ''HEAD'') (serve_live F req resp w) (h3_live F req resp w)"
proof -
  let ?head_only = "eq_ci (rq_method req) ''HEAD''"
  define declared head where "declared = declared_length (or_lines resp)"
    and "head = \<lparr>hd_status = or_status resp, hd_headers = response_headers (or_lines resp)\<rparr>"
  obtain chunky w1 where c: "Interceptor.wants_chunks (ft_chain F) req head w = (chunky, w1)" by force
  define storable where "storable = should_store (ft_config F) req (hd_status head) (hd_headers head) declared (ft_agents F w1)"
  define w2 where "w2 = (if storable \<and> chunky
    then metered F (\<lambda>m. m\<lparr>not_cached_for_a_plugin := increment (not_cached_for_a_plugin m)\<rparr>) w1 else w1)"
  note defs = serve_live_def h3_live_def Let_def declared_def [symmetric] head_def [symmetric] c prod.case storable_def [symmetric] w2_def [symmetric]
  note relayed = relay_agree [OF assms(1,2)]
  show ?thesis
  proof (cases "Interceptor.wants_body (ft_chain F) req head w2 \<or> storable \<and> \<not> chunky")
    case False
    then show ?thesis unfolding defs by (simp only: if_False relayed)
  next
    case True
    show ?thesis
    proof (cases "read_body (or_body resp) (max_response_body (limits_section (ft_config F)))")
      case (TooBig bs)
      with True show ?thesis unfolding defs by (simp only: if_True buffered.case relayed)
    next
      case Truncated
      let ?part = "Full_part (error_body 502 TRUNCATED)"
      obtain k where "hand_over F ?head_only ?part (0, []) = (True, k, [] @ [if ?head_only then bodyless ?part else ?part])"
        using takes_any [OF assms(1)] by blast
      with True Truncated show ?thesis unfolding defs by (simp add: agree_def similar_refl)
    next
      case (Whole bs)
      define w3 where "w3 = metered F (from_origin (length bs)) w2"
      define w4 where "w4 = ft_keep F (store (ft_outer F) req (hd_status head) (hd_headers head) bs (ft_agents F w3)) w3"
      obtain r coding w5 where t: "through_interceptors F req (hd_status head) (hd_headers head) bs w4 = (r, coding, w5)" by (metis prod_cases3)
      have "agree ?head_only (finish_buffered F req r w5) (case compressed F req coding r w5 of (r, w) \<Rightarrow> whole_answer F ?head_only r w)"
        by (rule finish_agree [OF assms(1) compressed_again [OF assms(3) t]])
      with True show ?thesis unfolding defs Whole by (simp only: if_True buffered.case Let_def w3_def [symmetric] w4_def [symmetric] t prod.case)
    qed
  qed
qed


definition stored_deflate :: deflater where
  \<comment> \<open>an example: a coder that only marks\<close>
  "stored_deflate c bs = Some (0 # bs)"


end
