(* ===== verification/Plugins.thy ===== *)
theory Plugins
  imports Upstream Mappings Utf8
begin

text \<open>
  \<open>src/proxy/src/plugin.rs\<close>: interceptors that are processes of their own. What a plugin does when it
  is written a line, and how long it takes, is the parameter \<open>pe_talk\<close>, over a state of its own; the
  coders of JSON and base64 and the starting of a process are parameters too. The writing and the
  reading thread are what \<open>pe_talk\<close> gives (a line in time, none, no reader, no writer); the reading
  thread's splitting of output into lines is \<open>replies\<close>. Killing an abandoned process leaves no state.
\<close>

section \<open>Reading a plugin's output\<close>

definition MAX_REPLY_BYTES :: nat where "MAX_REPLY_BYTES = 128 * 1024 * 1024"

datatype fill = Available bytes | Fill_failed

fun read_line_capped :: "nat \<Rightarrow> nat \<Rightarrow> bytes \<Rightarrow> fill list \<Rightarrow> (nat \<times> bytes) option \<times> fill list" where
  \<comment> \<open>over what \<open>fill_buf\<close> will give, no more being the end of input: \<open>taken\<close> and \<open>into\<close> so far\<close>
  "read_line_capped limit taken into [] = (Some (taken, into), [])"
| "read_line_capped limit taken into (Fill_failed # fs) = (None, fs)"
| "read_line_capped limit taken into (Available available # fs) =
     (if available = [] then (Some (taken, into), fs)
      else
        (let at = length (takeWhile (\<lambda>b. b \<noteq> 10) available);
             done = (10 \<in> set available);
             used = (if done then at + 1 else length available);
             rest = (if used < length available then Available (drop used available) # fs else fs)
         in if taken + used > limit then (None, rest)
            else
              (let into = into @ take (if done then used - 1 else used) available; taken = taken + used
               in if done then (Some (taken, into), rest) else read_line_capped limit taken into fs)))"

fun fill_left :: "fill \<Rightarrow> nat" where
  "fill_left (Available b) = Suc (length b)"
| "fill_left Fill_failed = 1"

definition left_to_read :: "fill list \<Rightarrow> nat" where
  "left_to_read fs = sum_list (map fill_left fs)"

lemma left_simps [simp]: "left_to_read [] = 0" "left_to_read (f # fs) = fill_left f + left_to_read fs"
  by (simp_all add: left_to_read_def)

lemma takeWhile_in: "x \<in> set xs \<Longrightarrow> length (takeWhile (\<lambda>b. b \<noteq> x) xs) < length xs"
  by (induction xs) auto

lemma read_line_consumes:
  "read_line_capped limit taken into fs = (Some (n, line), fs')
    \<Longrightarrow> taken \<le> n \<and> left_to_read fs' \<le> left_to_read fs \<and> (taken < n \<longrightarrow> left_to_read fs' < left_to_read fs)"
proof (induction limit taken into fs rule: read_line_capped.induct)
  case (3 limit taken into available fs)
  show ?case
  proof (cases "available = []")
    case True
    with 3(2) show ?thesis by simp
  next
    case False
    show ?thesis
    proof (cases "10 \<in> set available")
      case True
      from 3(2) True False show ?thesis using takeWhile_in [OF True] by (auto simp: Let_def split: if_splits)
    next
      case not: False
      then have step: "read_line_capped limit (taken + length available) (into @ available) fs = (Some (n, line), fs')"
        using 3(2) False by (auto simp: Let_def split: if_splits)
      have "\<not> taken + length available > limit" using 3(2) False not by (auto simp: Let_def split: if_splits)
      with 3(1) [OF False refl refl refl refl _ refl refl] not step show ?thesis by simp
    qed
  qed
qed auto

function (sequential) replies :: "nat \<Rightarrow> fill list \<Rightarrow> str list" where
  \<comment> \<open>the lines the reading thread sends\<close>
  "replies limit fs =
     (case read_line_capped limit 0 [] fs of
        (None, fs) \<Rightarrow> []
      | (Some (n, line), fs) \<Rightarrow> if n = 0 then [] else lossy line # replies limit fs)"
  by pat_completeness auto
termination
  by (relation "measure (left_to_read \<circ> snd)") (auto dest: read_line_consumes [OF sym])

declare replies.simps [simp del]

fun lines_within :: "nat \<Rightarrow> bytes \<Rightarrow> bytes \<Rightarrow> bytes list" where
  \<comment> \<open>the lines of an output, up to the first that is too long; \<open>line\<close> has been begun\<close>
  "lines_within limit line [] = (if line = [] then [] else [line])"
| "lines_within limit line (b # bs) =
     (if length line + 1 > limit then []
      else if b = 10 then line # lines_within limit [] bs
      else lines_within limit (line @ [b]) bs)"

lemma lines_within_append:
  assumes "10 \<notin> set a"
  shows "lines_within limit line (a @ s) = (if a \<noteq> [] \<and> length line + length a > limit then [] else lines_within limit (line @ a) s)"
  using assms by (induction a arbitrary: line) auto

lemma read_lines:
  assumes "list_all (\<lambda>c. c \<noteq> []) cs"
  shows "case read_line_capped limit (length into) into (map Available cs) of
      (None, fs) \<Rightarrow> lines_within limit into (concat cs) = []
    | (Some (n, line), fs) \<Rightarrow> (\<exists>cs'. fs = map Available cs' \<and> list_all (\<lambda>c. c \<noteq> []) cs'
        \<and> lines_within limit into (concat cs) = (if n = 0 then [] else line # lines_within limit [] (concat cs')))"
  using assms
proof (induction cs arbitrary: into)
  case (Cons c cs)
  then have c: "c \<noteq> []" "list_all (\<lambda>c. c \<noteq> []) cs" by auto
  show ?case
  proof (cases "10 \<in> set c")
    case False
    show ?thesis
    proof (cases "length into + length c > limit")
      case True
      with False c show ?thesis by (simp add: Let_def lines_within_append)
    next
      case within: False
      have a: "read_line_capped limit (length into) into (map Available (c # cs)) = read_line_capped limit (length (into @ c)) (into @ c) (map Available cs)"
        using within False c by (simp add: Let_def)
      have b: "lines_within limit into (concat (c # cs)) = lines_within limit (into @ c) (concat cs)"
        using within False by (simp add: lines_within_append)
      show ?thesis unfolding a b by (rule Cons.IH [OF c(2)])
    qed
  next
    case True
    obtain a b where split: "c = a @ 10 # b" and a: "10 \<notin> set a" using split_list_first [OF True] by blast
    have "takeWhile (\<lambda>b. b \<noteq> 10) c = a" using a unfolding split by (subst takeWhile_append2) auto
    then have len: "length (takeWhile (\<lambda>b. b \<noteq> 10) c) = length a" by simp
    show ?thesis
    proof (cases "length into + length a + 1 > limit")
      case True
      then have "read_line_capped limit (length into) into (map Available (c # cs)) = (None, if b = [] then map Available cs else Available b # map Available cs)"
        using c split len by (simp add: Let_def)
      moreover have "lines_within limit into (concat (c # cs)) = []"
        using True by (simp add: split lines_within_append [OF a])
      ultimately show ?thesis by simp
    next
      case within: False
      then have "read_line_capped limit (length into) into (map Available (c # cs))
          = (Some (length into + length a + 1, into @ a), map Available (if b = [] then cs else b # cs))"
        using c split len by (simp add: Let_def)
      moreover have "lines_within limit into (concat (c # cs)) = (into @ a) # lines_within limit [] (b @ concat cs)"
        using within by (simp add: split lines_within_append [OF a])
      ultimately show ?thesis using c by (auto intro!: exI [of _ "if b = [] then cs else b # cs"])
    qed
  qed
qed auto

text \<open>
  C17: what a plugin says does not depend on how its output was cut up on the way: the replies are the lines
  of everything it wrote, each at most as long as a line may be, and a longer one ends it.
\<close>

theorem replies_survive_chunking:
  assumes "list_all (\<lambda>c. c \<noteq> []) cs"
  shows "replies limit (map Available cs) = map lossy (lines_within limit [] (concat cs))"
  using assms
proof (induction limit "map Available cs" arbitrary: cs rule: replies.induct)
  case (1 limit cs)
  have r: "case read_line_capped limit 0 [] (map Available cs) of
      (None, fs) \<Rightarrow> lines_within limit [] (concat cs) = []
    | (Some (n, line), fs) \<Rightarrow> (\<exists>cs'. fs = map Available cs' \<and> list_all (\<lambda>c. c \<noteq> []) cs'
        \<and> lines_within limit [] (concat cs) = (if n = 0 then [] else line # lines_within limit [] (concat cs')))"
    using read_lines [OF 1(2), of limit "[]"] by simp
  show ?case
  proof (cases "read_line_capped limit 0 [] (map Available cs)")
    case (Pair got fs)
    show ?thesis
    proof (cases got)
      case None
      with Pair r show ?thesis by (simp add: replies.simps)
    next
      case (Some g)
      obtain n line where g: "g = (n, line)" by force
      from r Pair Some g obtain cs' where f: "fs = map Available cs'" "list_all (\<lambda>c. c \<noteq> []) cs'"
        "lines_within limit [] (concat cs) = (if n = 0 then [] else line # lines_within limit [] (concat cs'))" by auto
      show ?thesis
      proof (cases "n = 0")
        case False
        from 1(1) [OF Pair [unfolded f(1), symmetric] Some g [symmetric] False f(2)]
        show ?thesis using Pair Some g False f by (simp add: replies.simps [of limit "map Available cs"])
      qed (use Pair Some g f in \<open>simp add: replies.simps [of limit "map Available cs"]\<close>)
    qed
  qed
qed
section \<open>The protocol\<close>

record hook =
  hk_hook :: str
  hk_method :: str
  hk_url :: str
  hk_status :: "nat option"
  hk_headers :: "headers option"
  hk_body :: "str option"
  hk_streaming :: bool
  hk_final :: bool

datatype hook_value = Text_value str | Number_value nat | Pairs_value headers | Flag_value bool

definition hook_fields :: "hook \<Rightarrow> (str \<times> hook_value) list" where
  \<comment> \<open>the fields \<open>Serialize\<close> writes, those that are skipped left out\<close>
  "hook_fields h =
     [(''hook'', Text_value (hk_hook h)), (''method'', Text_value (hk_method h)), (''url'', Text_value (hk_url h))]
     @ (case hk_status h of Some n \<Rightarrow> [(''status'', Number_value n)] | None \<Rightarrow> [])
     @ (case hk_headers h of Some hs \<Rightarrow> [(''headers'', Pairs_value hs)] | None \<Rightarrow> [])
     @ (case hk_body h of Some b \<Rightarrow> [(''body_b64'', Text_value b)] | None \<Rightarrow> [])
     @ (if hk_streaming h then [(''streaming'', Flag_value True)] else [])
     @ (if hk_final h then [(''final'', Flag_value True)] else [])"

record reply =
  rp_method :: "str option"
  rp_url :: "str option"
  rp_status :: "nat option"
  rp_headers :: "headers option"
  rp_body :: "str option"

record selection =
  sl_request :: "(str \<times> str) list"
  sl_response :: "(str \<times> str) list"

record init_reply =
  ir_filter :: selection
  ir_request_body :: bool
  ir_chunks :: bool

definition no_selection :: selection where
  "no_selection = \<lparr>sl_request = [], sl_response = []\<rparr>"

definition default_init :: init_reply where
  "default_init = \<lparr>ir_filter = no_selection, ir_request_body = False, ir_chunks = False\<rparr>"

definition headers_match :: "(str \<times> str) list \<Rightarrow> headers \<Rightarrow> bool" where
  "headers_match constraints hs \<longleftrightarrow>
     list_all (\<lambda>(name, needle). list_ex (\<lambda>(n, v). eq_ci n name \<and> contains (to_lower v) (to_lower needle)) hs) constraints"

definition relayable :: "headers \<Rightarrow> headers" where
  "relayable hs = filter (\<lambda>(n, v). \<not> is_hop_by_hop n) hs"

section \<open>Talking to a plugin\<close>

datatype heard = Heard str | Silent | Exited | Deaf
  \<comment> \<open>a line in time, none in time, no reader left, no writer left\<close>

record 'p plugin_env =
  pe_json :: "(str \<times> hook_value) list \<Rightarrow> str option"
  pe_reply :: "str \<Rightarrow> reply option"
  pe_init :: "str \<Rightarrow> init_reply option"
  pe_encode :: "bytes \<Rightarrow> str"
  pe_decode :: "str \<Rightarrow> bytes option"
  pe_spawn :: "str \<Rightarrow> 'p option"
  pe_talk :: "'p \<Rightarrow> bytes \<Rightarrow> heard \<times> nat \<times> 'p"

record 'p plugin =
  pl_name :: str
  pl_request_body :: bool
  pl_filter :: selection
  pl_chunks :: bool
  pl_chunking :: bool
  pl_io :: "'p option"

type_synonym 'p plugged = "'p plugin \<times> metrics"

definition abandon :: "'p plugged \<Rightarrow> 'p plugged" where
  "abandon s = (case s of (pl, m) \<Rightarrow> (pl\<lparr>pl_io := None\<rparr>, m))"

definition plugin_call :: "'p plugin_env \<Rightarrow> (str \<Rightarrow> 'r option) \<Rightarrow> (str \<times> hook_value) list \<Rightarrow> 'p plugged \<Rightarrow> 'r option \<times> 'p plugged" where
  "plugin_call E read fs s =
     (case s of (pl, m) \<Rightarrow>
       (case pl_io pl of
          None \<Rightarrow> (None, s)
        | Some io \<Rightarrow>
            (case pe_json E fs of
               None \<Rightarrow> (None, s)
             | Some line \<Rightarrow>
                 (case pe_talk E io (as_bytes (line @ [newline])) of
                    (heard, elapsed, io) \<Rightarrow>
                      (case heard of
                         Deaf \<Rightarrow> (None, abandon s)
                       | Exited \<Rightarrow> (None, abandon s)
                       | Silent \<Rightarrow> (None, abandon (pl, record_plugin_call (pl_name pl) elapsed m))
                       | Heard reply \<Rightarrow>
                           (let s = (pl\<lparr>pl_io := Some io\<rparr>, record_plugin_call (pl_name pl) elapsed m)
                            in case read reply of Some r \<Rightarrow> (Some r, s) | None \<Rightarrow> (None, abandon s)))))))"

definition decode_body :: "'p plugin_env \<Rightarrow> str option \<Rightarrow> bytes option" where
  "decode_body E b64 = Option.bind b64 (pe_decode E)"

definition plugin_short_circuit :: "'p plugin_env \<Rightarrow> reply \<Rightarrow> proxy_response option" where
  "plugin_short_circuit E r =
     (case rp_status r of
        None \<Rightarrow> None
      | Some status \<Rightarrow>
          Some \<lparr>rs_status = status,
                rs_headers = relayable (case rp_headers r of Some hs \<Rightarrow> hs | None \<Rightarrow> []),
                rs_body = (case decode_body E (rp_body r) of Some bs \<Rightarrow> bs | None \<Rightarrow> [])\<rparr>)"

definition matches_request :: "'p plugin \<Rightarrow> proxy_request \<Rightarrow> bool" where
  "matches_request pl req \<longleftrightarrow> headers_match (sl_request (pl_filter pl)) (rq_headers req)"

definition matches_response :: "'p plugin \<Rightarrow> proxy_request \<Rightarrow> headers \<Rightarrow> bool" where
  "matches_response pl req hs \<longleftrightarrow> matches_request pl req \<and> headers_match (sl_response (pl_filter pl)) hs"

section \<open>The hooks\<close>

definition plugin_wants_request_body :: "'p plugin \<Rightarrow> proxy_request \<Rightarrow> bool" where
  "plugin_wants_request_body pl req \<longleftrightarrow> pl_request_body pl \<and> matches_request pl req"

definition plugin_on_request :: "'p plugin_env \<Rightarrow> proxy_request \<Rightarrow> 'p plugged \<Rightarrow> proxy_response option \<times> proxy_request \<times> 'p plugged" where
  "plugin_on_request E req s =
     (if \<not> matches_request (fst s) req then (None, req, s)
      else
        (let carries = plugin_wants_request_body (fst s) req;
             h = \<lparr>hk_hook = ''request'', hk_method = rq_method req, hk_url = rq_url req, hk_status = None,
                  hk_headers = Some (rq_headers req), hk_body = (if carries then Some (pe_encode E (rq_body req)) else None),
                  hk_streaming = (\<not> carries), hk_final = False\<rparr>
         in case plugin_call E (pe_reply E) (hook_fields h) s of
              (None, s) \<Rightarrow> (None, req, s)
            | (Some r, s) \<Rightarrow>
                (case plugin_short_circuit E r of
                   Some response \<Rightarrow> (Some response, req, s)
                 | None \<Rightarrow>
                     (let req = (case rp_method r of Some m \<Rightarrow> req\<lparr>rq_method := m\<rparr> | None \<Rightarrow> req);
                          req = (case rp_url r of Some u \<Rightarrow> req\<lparr>rq_url := u\<rparr> | None \<Rightarrow> req);
                          req = (case rp_headers r of Some hs \<Rightarrow> req\<lparr>rq_headers := relayable hs\<rparr> | None \<Rightarrow> req);
                          req = (case decode_body E (rp_body r) of Some bs \<Rightarrow> req\<lparr>rq_body := bs\<rparr> | None \<Rightarrow> req)
                      in (None, req, s)))))"

definition plugin_on_response :: "'p plugin_env \<Rightarrow> proxy_request \<Rightarrow> proxy_response \<Rightarrow> 'p plugged \<Rightarrow> proxy_response \<times> 'p plugged" where
  "plugin_on_response E req resp s =
     (if \<not> matches_response (fst s) req (rs_headers resp) then (resp, s)
      else if pl_chunks (fst s) then (resp, (fst s, snd (record_plugin_skip (pl_name (fst s)) (snd s))))
      else
        (let h = \<lparr>hk_hook = ''response'', hk_method = rq_method req, hk_url = rq_url req, hk_status = Some (rs_status resp),
                  hk_headers = Some (rs_headers resp), hk_body = Some (pe_encode E (rs_body resp)),
                  hk_streaming = False, hk_final = False\<rparr>
         in case plugin_call E (pe_reply E) (hook_fields h) s of
              (None, s) \<Rightarrow> (resp, s)
            | (Some r, s) \<Rightarrow>
                (let resp = (case rp_status r of Some n \<Rightarrow> resp\<lparr>rs_status := n\<rparr> | None \<Rightarrow> resp);
                     resp = (case rp_headers r of Some hs \<Rightarrow> resp\<lparr>rs_headers := relayable hs\<rparr> | None \<Rightarrow> resp);
                     resp = (case decode_body E (rp_body r) of Some bs \<Rightarrow> resp\<lparr>rs_body := bs\<rparr> | None \<Rightarrow> resp)
                 in (resp, s))))"

definition plugin_on_response_head :: "'p plugin_env \<Rightarrow> proxy_request \<Rightarrow> response_head \<Rightarrow> 'p plugged \<Rightarrow> response_head \<times> 'p plugged" where
  "plugin_on_response_head E req head s =
     (if \<not> matches_response (fst s) req (hd_headers head) then (head, s)
      else
        (let h = \<lparr>hk_hook = ''response'', hk_method = rq_method req, hk_url = rq_url req, hk_status = Some (hd_status head),
                  hk_headers = Some (hd_headers head), hk_body = None, hk_streaming = True, hk_final = False\<rparr>
         in case plugin_call E (pe_reply E) (hook_fields h) s of
              (None, s) \<Rightarrow> (head, s)
            | (Some r, s) \<Rightarrow>
                (let head = (case rp_status r of Some n \<Rightarrow> head\<lparr>hd_status := n\<rparr> | None \<Rightarrow> head);
                     head = (case rp_headers r of Some hs \<Rightarrow> head\<lparr>hd_headers := relayable hs\<rparr> | None \<Rightarrow> head)
                 in (head, s))))"

definition plugin_wants_body :: "'p plugin \<Rightarrow> proxy_request \<Rightarrow> response_head \<Rightarrow> bool" where
  "plugin_wants_body pl req head \<longleftrightarrow> \<not> pl_chunks pl \<and> matches_response pl req (hd_headers head)"

definition plugin_wants_chunks :: "proxy_request \<Rightarrow> response_head \<Rightarrow> 'p plugged \<Rightarrow> bool \<times> 'p plugged" where
  "plugin_wants_chunks req head s =
     (let wanted = (pl_chunks (fst s) \<and> matches_response (fst s) req (hd_headers head))
      in (wanted, ((fst s)\<lparr>pl_chunking := wanted\<rparr>, snd s)))"

definition plugin_on_response_chunk :: "'p plugin_env \<Rightarrow> proxy_request \<Rightarrow> bytes \<Rightarrow> 'p plugged \<Rightarrow> bytes \<times> 'p plugged" where
  "plugin_on_response_chunk E req chunk s =
     (if \<not> pl_chunking (fst s) then (chunk, s)
      else
        (let h = \<lparr>hk_hook = ''chunk'', hk_method = rq_method req, hk_url = rq_url req, hk_status = None, hk_headers = None,
                  hk_body = Some (pe_encode E chunk), hk_streaming = False, hk_final = False\<rparr>
         in case plugin_call E (pe_reply E) (hook_fields h) s of
              (None, s) \<Rightarrow> (chunk, s)
            | (Some r, s) \<Rightarrow> (case decode_body E (rp_body r) of Some bs \<Rightarrow> (bs, s) | None \<Rightarrow> (chunk, s))))"

definition plugin_on_response_end :: "'p plugin_env \<Rightarrow> proxy_request \<Rightarrow> 'p plugged \<Rightarrow> bytes option \<times> 'p plugged" where
  "plugin_on_response_end E req s =
     (let was = pl_chunking (fst s); s = ((fst s)\<lparr>pl_chunking := False\<rparr>, snd s) in
      if \<not> was then (None, s)
      else
        (let h = \<lparr>hk_hook = ''chunk'', hk_method = rq_method req, hk_url = rq_url req, hk_status = None, hk_headers = None,
                  hk_body = None, hk_streaming = False, hk_final = True\<rparr>
         in case plugin_call E (pe_reply E) (hook_fields h) s of
              (None, s) \<Rightarrow> (None, s)
            | (Some r, s) \<Rightarrow> (Option.bind (decode_body E (rp_body r)) (\<lambda>tail. if tail \<noteq> [] then Some tail else None), s)))"

section \<open>Loading\<close>

definition file_name_of :: "str \<Rightarrow> str" where
  "file_name_of path = last (split_on (\<lambda>c. c = CHR ''/'') path)"

definition start_plugin :: "'p plugin_env \<Rightarrow> str \<Rightarrow> metrics \<Rightarrow> 'p plugin option \<times> metrics" where
  "start_plugin E path m =
     (case pe_spawn E path of
        None \<Rightarrow> (None, m)
      | Some io \<Rightarrow>
          (let pl = \<lparr>pl_name = file_name_of path, pl_request_body = False, pl_filter = no_selection, pl_chunks = False,
                     pl_chunking = False, pl_io = Some io\<rparr>
           in case plugin_call E (pe_init E) [(''hook'', Text_value ''init'')] (pl, m) of
                (got, pl, m) \<Rightarrow>
                  (let init = (case got of Some i \<Rightarrow> i | None \<Rightarrow> default_init)
                   in if pl_io pl = None then (None, m)
                      else (Some (pl\<lparr>pl_filter := ir_filter init, pl_chunks := ir_chunks init, pl_request_body := ir_request_body init\<rparr>), m))))"

type_synonym entries = "(str \<times> bool \<times> 32 word) option list"
  \<comment> \<open>path, whether a file, mode; \<open>None\<close> for one that cannot be looked at\<close>

fun executables_in :: "entries \<Rightarrow> str list option" where
  "executables_in [] = Some []"
| "executables_in (None # es) = None"
| "executables_in (Some (path, is_file, mode) # es) =
     map_option (\<lambda>out. if is_file \<and> and mode 73 \<noteq> 0 then path # out else out) (executables_in es)"

fun start_all :: "'p plugin_env \<Rightarrow> str list \<Rightarrow> metrics \<Rightarrow> 'p plugin list \<times> metrics" where
  "start_all E [] m = ([], m)"
| "start_all E (p # ps) m =
     (case start_plugin E p m of
        (None, m) \<Rightarrow> start_all E ps m
      | (Some pl, m) \<Rightarrow> (case start_all E ps m of (pls, m) \<Rightarrow> (pl # pls, m)))"

definition load_all :: "'p plugin_env \<Rightarrow> entries option \<Rightarrow> metrics \<Rightarrow> 'p plugin list \<times> metrics" where
  \<comment> \<open>over the entries of the directory, None if it cannot be read\<close>
  "load_all E dir m =
     (case Option.bind dir executables_in of
        None \<Rightarrow> ([], m)
      | Some paths \<Rightarrow> start_all E (sort paths) m)"

section \<open>In the chain\<close>

type_synonym 'p plugin_world = "'p plugin list \<times> metrics"

definition at_plugin :: "nat \<Rightarrow> 'r \<Rightarrow> ('p plugged \<Rightarrow> 'r \<times> 'p plugged) \<Rightarrow> 'p plugin_world \<Rightarrow> 'r \<times> 'p plugin_world" where
  \<comment> \<open>on the state of the \<open>i\<close>th plugin alone; there is one for every \<open>i\<close> of the chain\<close>
  "at_plugin i r f w =
     (case w of (pls, m) \<Rightarrow>
       (if i < length pls then (case f (pls ! i, m) of (r, pl, m) \<Rightarrow> (r, pls[i := pl], m)) else (r, w)))"

definition plugin_hooks :: "'p plugin_env \<Rightarrow> nat \<Rightarrow> 'p plugin_world hooks" where
  "plugin_hooks E i = \<lparr>
     on_request_hook = \<lambda>req w.
       (case at_plugin i (None, req) (\<lambda>s. case plugin_on_request E req s of (a, req, s) \<Rightarrow> ((a, req), s)) w of ((a, req), w) \<Rightarrow> (a, req, w)),
     wants_request_body_hook = \<lambda>req w. i < length (fst w) \<and> plugin_wants_request_body (fst w ! i) req,
     on_response_hook = \<lambda>req resp w. at_plugin i resp (plugin_on_response E req resp) w,
     on_response_head_hook = \<lambda>req head w. at_plugin i head (plugin_on_response_head E req head) w,
     wants_body_hook = \<lambda>req head w. i < length (fst w) \<and> plugin_wants_body (fst w ! i) req head,
     wants_chunks_hook = \<lambda>req head w. at_plugin i False (plugin_wants_chunks req head) w,
     on_response_chunk_hook = \<lambda>req chunk w. at_plugin i chunk (plugin_on_response_chunk E req chunk) w,
     on_response_end_hook = \<lambda>req w. at_plugin i None (plugin_on_response_end E req) w\<rparr>"

section \<open>A plugin that fails\<close>

datatype plugin_event = Asked_request proxy_request | Asked_response proxy_request proxy_response
  | Asked_head proxy_request response_head | Asked_interest proxy_request response_head
  | Asked_chunk proxy_request bytes | Asked_end proxy_request
  | Asked_upload proxy_request | Asked_whole proxy_request response_head
  \<comment> \<open>every hook of the chain; the last two ask whether it wants a body whole\<close>

datatype plugin_result = On_request "proxy_response option" proxy_request | On_response proxy_response
  | On_head response_head | On_interest bool | On_chunk bytes | On_end "bytes option"

fun plugin_does :: "'p plugin_env \<Rightarrow> plugin_event \<Rightarrow> 'p plugged \<Rightarrow> plugin_result \<times> 'p plugged" where
  "plugin_does E (Asked_request req) s = (case plugin_on_request E req s of (a, req, s) \<Rightarrow> (On_request a req, s))"
| "plugin_does E (Asked_response req resp) s = map_prod On_response id (plugin_on_response E req resp s)"
| "plugin_does E (Asked_head req head) s = map_prod On_head id (plugin_on_response_head E req head s)"
| "plugin_does E (Asked_interest req head) s = map_prod On_interest id (plugin_wants_chunks req head s)"
| "plugin_does E (Asked_chunk req chunk) s = map_prod On_chunk id (plugin_on_response_chunk E req chunk s)"
| "plugin_does E (Asked_end req) s = map_prod On_end id (plugin_on_response_end E req s)"
| "plugin_does E (Asked_upload req) s = (On_interest (plugin_wants_request_body (fst s) req), s)"
| "plugin_does E (Asked_whole req head) s = (On_interest (plugin_wants_body (fst s) req head), s)"

fun plugin_run :: "'p plugin_env \<Rightarrow> plugin_event list \<Rightarrow> 'p plugged \<Rightarrow> plugin_result list \<times> 'p plugged" where
  "plugin_run E [] s = ([], s)"
| "plugin_run E (e # es) s =
     (case plugin_does E e s of (r, s) \<Rightarrow> (case plugin_run E es s of (rs, s) \<Rightarrow> (r # rs, s)))"

fun passes :: "plugin_event \<Rightarrow> plugin_result \<Rightarrow> bool" where
  \<comment> \<open>as if there were no plugin\<close>
  "passes (Asked_request req) r \<longleftrightarrow> r = On_request None req"
| "passes (Asked_response req resp) r \<longleftrightarrow> r = On_response resp"
| "passes (Asked_head req head) r \<longleftrightarrow> r = On_head head"
| "passes (Asked_interest req head) r \<longleftrightarrow> r = On_interest False"
| "passes (Asked_chunk req chunk) r \<longleftrightarrow> r = On_chunk chunk"
| "passes (Asked_end req) r \<longleftrightarrow> r = On_end None"
| "passes (Asked_upload req) r \<longleftrightarrow> r = On_interest False"
| "passes (Asked_whole req head) r \<longleftrightarrow> r = On_interest False"

definition meets :: "(str \<times> str) list \<Rightarrow> headers \<Rightarrow> bool" where
  \<comment> \<open>what a filter says: each constraint has a line of that name, in any case, that holds the needle\<close>
  "meets constraints hs \<longleftrightarrow>
     (\<forall>(name, needle) \<in> set constraints. \<exists>(n, v) \<in> set hs. eq_ci n name \<and> contains (to_lower v) (to_lower needle))"

definition asks_for_request :: "'p plugin \<Rightarrow> proxy_request \<Rightarrow> bool" where
  "asks_for_request pl req \<longleftrightarrow> meets (sl_request (pl_filter pl)) (rq_headers req)"

definition asks_for_response :: "'p plugin \<Rightarrow> proxy_request \<Rightarrow> headers \<Rightarrow> bool" where
  "asks_for_response pl req hs \<longleftrightarrow> asks_for_request pl req \<and> meets (sl_response (pl_filter pl)) hs"

lemma matches_meets: "headers_match constraints hs \<longleftrightarrow> meets constraints hs"
  by (auto simp: headers_match_def meets_def list_all_iff list_ex_iff)

lemma matches_asked:
  "matches_request pl req \<longleftrightarrow> asks_for_request pl req"
  "matches_response pl req hs \<longleftrightarrow> asks_for_response pl req hs"
  by (simp_all add: matches_request_def matches_response_def asks_for_request_def asks_for_response_def matches_meets)

fun still_says :: "'p plugin \<Rightarrow> plugin_event \<Rightarrow> plugin_result \<Rightarrow> bool" where
  \<comment> \<open>messages pass, and what it wants is what it said when it was started\<close>
  "still_says pl (Asked_upload req) r \<longleftrightarrow> r = On_interest (pl_request_body pl \<and> asks_for_request pl req)"
| "still_says pl (Asked_whole req head) r \<longleftrightarrow> r = On_interest (\<not> pl_chunks pl \<and> asks_for_response pl req (hd_headers head))"
| "still_says pl (Asked_interest req head) r \<longleftrightarrow> r = On_interest (pl_chunks pl \<and> asks_for_response pl req (hd_headers head))"
| "still_says pl e r \<longleftrightarrow> passes e r"

lemma still_says_same:
  assumes "pl_request_body pl' = pl_request_body pl" and "pl_filter pl' = pl_filter pl" and "pl_chunks pl' = pl_chunks pl"
  shows "still_says pl' e r = still_says pl e r"
  using assms by (cases e) (simp_all add: asks_for_request_def asks_for_response_def)

fun told :: "'p plugin_env \<Rightarrow> plugin_event \<Rightarrow> 'p plugin \<Rightarrow> hook option" where
  \<comment> \<open>what a plugin that is there is told\<close>
  "told E (Asked_request req) pl =
     (if matches_request pl req then
        Some \<lparr>hk_hook = ''request'', hk_method = rq_method req, hk_url = rq_url req, hk_status = None,
          hk_headers = Some (rq_headers req), hk_body = (if pl_request_body pl then Some (pe_encode E (rq_body req)) else None),
          hk_streaming = (\<not> pl_request_body pl), hk_final = False\<rparr>
      else None)"
| "told E (Asked_response req resp) pl =
     (if matches_response pl req (rs_headers resp) \<and> \<not> pl_chunks pl then
        Some \<lparr>hk_hook = ''response'', hk_method = rq_method req, hk_url = rq_url req, hk_status = Some (rs_status resp),
          hk_headers = Some (rs_headers resp), hk_body = Some (pe_encode E (rs_body resp)), hk_streaming = False, hk_final = False\<rparr>
      else None)"
| "told E (Asked_head req head) pl =
     (if matches_response pl req (hd_headers head) then
        Some \<lparr>hk_hook = ''response'', hk_method = rq_method req, hk_url = rq_url req, hk_status = Some (hd_status head),
          hk_headers = Some (hd_headers head), hk_body = None, hk_streaming = True, hk_final = False\<rparr>
      else None)"
| "told E (Asked_interest req head) pl = None"
| "told E (Asked_upload req) pl = None"
| "told E (Asked_whole req head) pl = None"
| "told E (Asked_chunk req chunk) pl =
     (if pl_chunking pl then
        Some \<lparr>hk_hook = ''chunk'', hk_method = rq_method req, hk_url = rq_url req, hk_status = None, hk_headers = None,
          hk_body = Some (pe_encode E chunk), hk_streaming = False, hk_final = False\<rparr>
      else None)"
| "told E (Asked_end req) pl =
     (if pl_chunking pl then
        Some \<lparr>hk_hook = ''chunk'', hk_method = rq_method req, hk_url = rq_url req, hk_status = None, hk_headers = None,
          hk_body = None, hk_streaming = False, hk_final = True\<rparr>
      else None)"

definition understood :: "(str \<Rightarrow> 'r option) \<Rightarrow> heard \<Rightarrow> bool" where
  "understood read h \<longleftrightarrow> (case h of Heard line \<Rightarrow> read line \<noteq> None | _ \<Rightarrow> False)"

definition same_plugin :: "'p plugin \<Rightarrow> 'p plugin \<Rightarrow> bool" where
  \<comment> \<open>but for the conversation: what it said when it was started\<close>
  "same_plugin pl' pl \<longleftrightarrow> pl_request_body pl' = pl_request_body pl \<and> pl_filter pl' = pl_filter pl \<and> pl_chunks pl' = pl_chunks pl"

lemma call_fails:
  assumes "pl_io pl = Some io" and "pe_json E fs = Some line"
    and "\<not> understood read (fst (pe_talk E io (as_bytes (line @ [newline]))))"
  obtains pl' m' where "plugin_call E read fs (pl, m) = (None, pl', m')" and "pl_io pl' = None" and "same_plugin pl' pl"
  using assms
  by (cases "pe_talk E io (as_bytes (line @ [newline]))")
    (force simp: plugin_call_def abandon_def understood_def same_plugin_def Let_def split: heard.splits option.splits)

lemma call_gone: "pl_io pl = None \<Longrightarrow> plugin_call E read fs (pl, m) = (None, pl, m)"
  by (simp add: plugin_call_def)

definition finished_with :: "'p plugin \<Rightarrow> plugin_event \<Rightarrow> plugin_result \<Rightarrow> 'p plugin \<Rightarrow> bool" where
  \<comment> \<open>what is answered by a plugin that failed, and what it is after\<close>
  "finished_with pl e r pl' \<longleftrightarrow> still_says pl e r \<and> pl_io pl' = None \<and> same_plugin pl' pl"

lemma gone_passes:
  assumes "pl_io (fst s) = None" and "plugin_does E e s = (r, s')"
  shows "finished_with (fst s) e r (fst s')"
proof -
  obtain pl m where s: "s = (pl, m)" by force
  have gone: "pl_io pl = None" "pl_io (pl\<lparr>pl_chunking := False\<rparr>) = None" using assms(1) s by simp_all
  note calls = gone [THEN call_gone] and finished_with_def [simp] same_plugin_def [simp]
  show ?thesis
  proof (cases e)
    case (Asked_request req)
    with assms(2) gone show ?thesis by (auto simp: s plugin_on_request_def calls Let_def split: if_splits)
  next
    case (Asked_response req resp)
    with assms(2) gone show ?thesis by (auto simp: s plugin_on_response_def calls Let_def split: if_splits)
  next
    case (Asked_head req head)
    with assms(2) gone show ?thesis by (auto simp: s plugin_on_response_head_def calls Let_def split: if_splits)
  next
    case (Asked_interest req head)
    with assms(2) gone show ?thesis by (auto simp: s plugin_wants_chunks_def matches_asked Let_def)
  next
    case (Asked_chunk req chunk)
    with assms(2) gone show ?thesis by (auto simp: s plugin_on_response_chunk_def calls Let_def split: if_splits)
  next
    case (Asked_end req)
    with assms(2) gone show ?thesis by (auto simp: s plugin_on_response_end_def calls Let_def split: if_splits)
  next
    case (Asked_upload req)
    with assms(2) gone show ?thesis by (auto simp: s plugin_wants_request_body_def matches_asked)
  next
    case (Asked_whole req head)
    with assms(2) gone show ?thesis by (auto simp: s plugin_wants_body_def matches_asked)
  qed
qed

lemma gone_run:
  "pl_io (fst s) = None \<Longrightarrow> plugin_run E es s = (rs, s') \<Longrightarrow> list_all2 (still_says (fst s)) es rs \<and> pl_io (fst s') = None"
proof (induction es arbitrary: s rs s')
  case (Cons e es)
  obtain r s1 where d: "plugin_does E e s = (r, s1)" by (metis surj_pair)
  obtain rs1 s2 where rest: "plugin_run E es s1 = (rs1, s2)" by (metis surj_pair)
  from gone_passes [OF Cons.prems(1) d] have 1: "still_says (fst s) e r" "pl_io (fst s1) = None" "same_plugin (fst s1) (fst s)"
    by (simp_all add: finished_with_def)
  then have "still_says (fst s1) = still_says (fst s)"
    using still_says_same [of "fst s1" "fst s"] by (intro ext) (simp add: same_plugin_def)
  with 1 Cons.IH [OF 1(2) rest] Cons.prems(2) d rest show ?case by auto
qed simp

lemma failing_passes:
  assumes "told E e (fst s) = Some h" and "pl_io (fst s) = Some io" and "pe_json E (hook_fields h) = Some line"
    and "\<not> understood (pe_reply E) (fst (pe_talk E io (as_bytes (line @ [newline]))))"
    and "plugin_does E e s = (r, s')"
  shows "finished_with (fst s) e r (fst s')"
proof -
  obtain pl m where s: "s = (pl, m)" by force
  obtain pl1 m1 where c: "plugin_call E (pe_reply E) (hook_fields h) (pl, m) = (None, pl1, m1)" "pl_io pl1 = None" "same_plugin pl1 pl"
    using call_fails [OF _ assms(3,4), of pl] assms(2) s by auto
  obtain pl2 m2 where d: "plugin_call E (pe_reply E) (hook_fields h) (pl\<lparr>pl_chunking := False\<rparr>, m) = (None, pl2, m2)" "pl_io pl2 = None"
    "same_plugin pl2 pl"
    using call_fails [OF _ assms(3,4), of "pl\<lparr>pl_chunking := False\<rparr>"] assms(2) s by (auto simp: same_plugin_def)
  note finished_with_def [simp]
  show ?thesis
  proof (cases e)
    case (Asked_request req)
    with assms(1,5) c show ?thesis
      by (auto simp: s plugin_on_request_def plugin_wants_request_body_def Let_def split: if_splits)
  next
    case (Asked_response req resp)
    with assms(1,5) c show ?thesis by (auto simp: s plugin_on_response_def Let_def split: if_splits)
  next
    case (Asked_head req head)
    with assms(1,5) c show ?thesis by (auto simp: s plugin_on_response_head_def Let_def split: if_splits)
  next
    case (Asked_chunk req chunk)
    with assms(1,5) c show ?thesis by (auto simp: s plugin_on_response_chunk_def Let_def split: if_splits)
  next
    case (Asked_end req)
    with assms(1,5) d show ?thesis by (auto simp: s plugin_on_response_end_def Let_def split: if_splits)
  qed (use assms(1) in simp_all)
qed

text \<open>
  C10: a plugin that fails once is heard no more. Whatever it was told, if what comes back in time is not a
  line that can be read as a reply, what it was told about and every message put to it after pass as if
  there were no plugin, and nothing is ever written to it again. What it does go on doing is to claim
  bodies: asked whether it wants one, it answers what its filter and its first reply said.
\<close>

theorem failure_is_final:
  assumes "told E e (fst s) = Some h" and "pl_io (fst s) = Some io" and "pe_json E (hook_fields h) = Some line"
    and "\<not> understood (pe_reply E) (fst (pe_talk E io (as_bytes (line @ [newline]))))"
    and "plugin_run E (e # es) s = (rs, s')"
  shows "list_all2 (still_says (fst s)) (e # es) rs \<and> passes e (hd rs) \<and> pl_io (fst s') = None"
proof -
  obtain r s1 where d: "plugin_does E e s = (r, s1)" by (metis surj_pair)
  obtain rs1 s2 where rest: "plugin_run E es s1 = (rs1, s2)" by (metis surj_pair)
  from failing_passes [OF assms(1-4) d] have 1: "still_says (fst s) e r" "pl_io (fst s1) = None" "same_plugin (fst s1) (fst s)"
    by (simp_all add: finished_with_def)
  then have "still_says (fst s1) = still_says (fst s)"
    using still_says_same [of "fst s1" "fst s"] by (intro ext) (simp add: same_plugin_def)
  moreover have "passes e r" using 1(1) assms(1) by (cases e) simp_all
  ultimately show ?thesis using gone_run [OF 1(2) rest] 1(1) assms(5) d rest by auto
qed

section \<open>What a plugin is told\<close>

fun outside :: "'p plugin \<Rightarrow> plugin_event \<Rightarrow> bool" where
  \<comment> \<open>what a filter does not ask for; chunks are of the response it was asked about before\<close>
  "outside pl (Asked_request req) \<longleftrightarrow> \<not> asks_for_request pl req"
| "outside pl (Asked_upload req) \<longleftrightarrow> \<not> asks_for_request pl req"
| "outside pl (Asked_response req resp) \<longleftrightarrow> \<not> asks_for_response pl req (rs_headers resp)"
| "outside pl (Asked_head req head) \<longleftrightarrow> \<not> asks_for_response pl req (hd_headers head)"
| "outside pl (Asked_whole req head) \<longleftrightarrow> \<not> asks_for_response pl req (hd_headers head)"
| "outside pl (Asked_interest req head) \<longleftrightarrow> \<not> asks_for_response pl req (hd_headers head)"
| "outside pl (Asked_chunk req chunk) \<longleftrightarrow> True"
| "outside pl (Asked_end req) \<longleftrightarrow> True"

text \<open>
  C28: a plugin is told of nothing it did not ask for. Requests that do not meet its constraints on
  requests, and responses that do not meet those or its constraints on responses, pass as if there were
  no plugin: no message is changed, it wants none of their bodies, whole or in chunks, nothing is
  written to it, and its statistics stand still.
\<close>

theorem unselected_passes_by:
  assumes "list_all (outside (fst s)) es" and "\<not> pl_chunking (fst s)" and "plugin_run E es s = (rs, s')"
  shows "list_all2 passes es rs \<and> s' = s"
  using assms
proof (induction es arbitrary: rs s')
  case (Cons e es)
  obtain r s1 where d: "plugin_does E e s = (r, s1)" by (metis surj_pair)
  have "s1 = s \<and> passes e r"
    using Cons.prems(1,2) d
    by (cases s; cases e)
      (auto simp: plugin_on_request_def plugin_on_response_def plugin_on_response_head_def plugin_wants_chunks_def
        plugin_wants_request_body_def plugin_wants_body_def
        plugin_on_response_chunk_def plugin_on_response_end_def matches_asked Let_def)
  moreover obtain rs1 s2 where rest: "plugin_run E es s = (rs1, s2)" by (metis surj_pair)
  ultimately show ?case using Cons.IH [OF _ Cons.prems(2) rest] Cons.prems(1,3) d by auto
qed simp

section \<open>Framing\<close>

definition framing :: "headers \<Rightarrow> headers" where
  "framing hs = filter (\<lambda>(n, v). is_hop_by_hop n) hs"

fun keeps_framing :: "plugin_event \<Rightarrow> plugin_result \<Rightarrow> bool" where
  "keeps_framing (Asked_request req) (On_request None req') = (framing (rq_headers req') \<in> {[], framing (rq_headers req)})"
| "keeps_framing (Asked_request req) (On_request (Some r) req') = (framing (rs_headers r) = [] \<and> req' = req)"
| "keeps_framing (Asked_response req resp) (On_response resp') = (framing (rs_headers resp') \<in> {[], framing (rs_headers resp)})"
| "keeps_framing (Asked_head req head) (On_head head') = (framing (hd_headers head') \<in> {[], framing (hd_headers head)})"
| "keeps_framing e r = True"

lemma framing_relayable [simp]: "framing (relayable hs) = []"
  by (induction hs) (auto simp: framing_def relayable_def)

lemma headers_kept [simp]:
  "rq_headers (case a of None \<Rightarrow> req | Some m \<Rightarrow> req\<lparr>rq_method := m\<rparr>) = rq_headers req"
  "rq_headers (case b of None \<Rightarrow> req | Some u \<Rightarrow> req\<lparr>rq_url := u\<rparr>) = rq_headers req"
  "rq_headers (case c of None \<Rightarrow> req | Some bs \<Rightarrow> req\<lparr>rq_body := bs\<rparr>) = rq_headers req"
  "rs_headers (case d of None \<Rightarrow> resp | Some n \<Rightarrow> resp\<lparr>rs_status := n\<rparr>) = rs_headers resp"
  "rs_headers (case c of None \<Rightarrow> resp | Some bs \<Rightarrow> resp\<lparr>rs_body := bs\<rparr>) = rs_headers resp"
  "hd_headers (case d of None \<Rightarrow> head | Some n \<Rightarrow> head\<lparr>hd_status := n\<rparr>) = hd_headers head"
  by (simp_all split: option.split)

text \<open>
  C9: a plugin never frames a message: whatever it replies, a request or a response that comes out of it has
  the hop-by-hop headers and the length it came with or none, and its own answer has none.
\<close>

theorem plugin_cannot_frame:
  "keeps_framing e (fst (plugin_does E e s))"
proof (cases e)
  case (Asked_request req)
  obtain r s' where c: "plugin_call E (pe_reply E) (hook_fields (the (told E e (fst s)))) s = (r, s')" by (metis surj_pair)
  show ?thesis
  proof (cases "matches_request (fst s) req")
    case True
    note here = Asked_request True c
    show ?thesis
    proof (cases r)
      case None
      with here show ?thesis by (simp add: plugin_on_request_def plugin_wants_request_body_def Let_def)
    next
      case (Some r)
      with here show ?thesis
        by (cases "rp_status r"; cases "rp_headers r") (simp_all add: plugin_on_request_def plugin_wants_request_body_def plugin_short_circuit_def Let_def)
    qed
  qed (simp add: Asked_request plugin_on_request_def)
next
  case (Asked_response req resp)
  then show ?thesis
    by (simp add: plugin_on_response_def Let_def split: prod.split option.split)
next
  case (Asked_head req head)
  then show ?thesis by (simp add: plugin_on_response_head_def Let_def split: prod.split option.split)
qed simp_all

section \<open>Which plugins are loaded\<close>

definition answered :: "'p plugin_env \<Rightarrow> str \<Rightarrow> 'p plugin option" where
  \<comment> \<open>an executable that starts and answers the first hook, as its answer says it is\<close>
  "answered E path =
     Option.bind (pe_spawn E path) (\<lambda>io.
     Option.bind (pe_json E [(''hook'', Text_value ''init'')]) (\<lambda>line.
       case pe_talk E io (as_bytes (line @ [newline])) of
         (Heard l, elapsed, io) \<Rightarrow>
           map_option (\<lambda>i. \<lparr>pl_name = file_name_of path, pl_request_body = ir_request_body i, pl_filter = ir_filter i,
             pl_chunks = ir_chunks i, pl_chunking = False, pl_io = Some io\<rparr>) (pe_init E l)
       | _ \<Rightarrow> None))"

lemma start_answered:
  assumes "pe_json E [(''hook'', Text_value ''init'')] = Some line"
  shows "fst (start_plugin E path m) = answered E path"
proof (cases "pe_spawn E path")
  case None
  then show ?thesis by (simp add: start_plugin_def answered_def)
next
  case (Some io)
  obtain h n io' where t: "pe_talk E io (as_bytes (line @ [newline])) = (h, n, io')" by (metis prod_cases3)
  show ?thesis
    by (cases h; cases "pe_init E (case h of Heard l \<Rightarrow> l | _ \<Rightarrow> [])")
      (simp_all add: start_plugin_def answered_def plugin_call_def abandon_def Some assms t Let_def)
qed

lemma start_all_answered:
  assumes "pe_json E [(''hook'', Text_value ''init'')] = Some line"
  shows "fst (start_all E ps m) = List.map_filter (answered E) ps"
proof (induction ps arbitrary: m)
  case (Cons p ps)
  obtain got m1 where s: "start_plugin E p m = (got, m1)" by force
  with start_answered [OF assms, of p m] have "got = answered E p" by simp
  moreover obtain pls m2 where "start_all E ps m1 = (pls, m2)" by force
  ultimately show ?case using Cons.IH [of m1] s by (cases "answered E p") (simp_all add: map_filter_simps)
qed (simp add: map_filter_simps)

definition executable :: "str \<times> bool \<times> 32 word \<Rightarrow> bool" where
  "executable e = (case e of (path, is_file, mode) \<Rightarrow> is_file \<and> and mode 73 \<noteq> 0)"

lemma executable_simp [simp]: "executable (path, is_file, mode) \<longleftrightarrow> is_file \<and> and mode 73 \<noteq> 0"
  by (simp add: executable_def)

lemma executables_in_eq:
  "executables_in es = (if None \<in> set es then None else Some (map fst (filter executable (map the es))))"
  by (induction es rule: executables_in.induct) auto

text \<open>
  C31: the plugins that are loaded are, in the order of their file names, the executable files of the
  directory that start and answer what they want to see, each with what it answered: one that does not
  answer is not taken for one that wants to see everything, and whatever it does to the others is
  nothing.
\<close>

theorem loaded_have_answered:
  assumes "pe_json E [(''hook'', Text_value ''init'')] = Some line" and "None \<notin> set es"
  shows "fst (load_all E (Some es) m) = List.map_filter (answered E) (sort (map fst (filter executable (map the es))))"
  using assms by (simp add: load_all_def executables_in_eq start_all_answered)


section \<open>Examples\<close>

definition sample_plugins :: "nat plugin_env" where
  \<comment> \<open>hooks are written as one word; the process at \<open>n\<close> answers \<open>n\<close> hooks, and then with a line that is no reply\<close>
  "sample_plugins = \<lparr>pe_json = \<lambda>fs. Some ''{}'',
     pe_reply = \<lambda>l. if l = ''{}'' then Some \<lparr>rp_method = None, rp_url = None, rp_status = None, rp_headers = None, rp_body = None\<rparr> else None,
     pe_init = \<lambda>l. if l = ''{}'' then Some default_init else None, pe_encode = \<lambda>bs. [], pe_decode = \<lambda>b. Some [],
     pe_spawn = \<lambda>path. Some (if path = ''/p/a'' then 3 else 0),
     pe_talk = \<lambda>n line. (Heard (if n = 0 then ''?'' else ''{}''), 1, n - 1)\<rparr>"

definition sample_plugin :: "nat plugin" where
  "sample_plugin = \<lparr>pl_name = ''a'', pl_request_body = True, pl_filter = no_selection, pl_chunks = False, pl_chunking = False, pl_io = Some 0\<rparr>"

theorem failure_is_final_witness:
  "list_all2 (still_says sample_plugin) [Asked_request simple_request, Asked_upload simple_request, Asked_end simple_request]
      (fst (plugin_run sample_plugins [Asked_request simple_request, Asked_upload simple_request, Asked_end simple_request] (sample_plugin, default_metrics)))
    \<and> pl_io (fst (snd (plugin_run sample_plugins [Asked_request simple_request, Asked_upload simple_request, Asked_end simple_request]
        (sample_plugin, default_metrics)))) = None"
proof -
  let ?s = "(sample_plugin, default_metrics)" and ?es = "[Asked_upload simple_request, Asked_end simple_request]"
  obtain rs s' where r: "plugin_run sample_plugins (Asked_request simple_request # ?es) ?s = (rs, s')" by (metis surj_pair)
  have t: "told sample_plugins (Asked_request simple_request) (fst ?s) = Some
     \<lparr>hk_hook = ''request'', hk_method = rq_method simple_request, hk_url = rq_url simple_request, hk_status = None,
      hk_headers = Some (rq_headers simple_request), hk_body = Some [], hk_streaming = False, hk_final = False\<rparr>"
    by (simp add: sample_plugin_def sample_plugins_def matches_request_def headers_match_def no_selection_def)
  have "list_all2 (still_says (fst ?s)) (Asked_request simple_request # ?es) rs \<and> passes (Asked_request simple_request) (hd rs) \<and> pl_io (fst s') = None"
    by (rule failure_is_final [OF t _ _ _ r]) (simp_all add: sample_plugin_def sample_plugins_def understood_def)
  then show ?thesis using r by simp
qed

definition picky_plugin :: "nat plugin" where
  "picky_plugin = sample_plugin\<lparr>pl_filter := \<lparr>sl_request = [(''x-debug'', ''1'')], sl_response = [(''content-type'', ''html'')]\<rparr>\<rparr>"

definition debugged :: proxy_request where
  \<comment> \<open>what it asks for, if only the answer were a page\<close>
  "debugged = simple_request\<lparr>rq_headers := [(''X-Debug'', ''1'')]\<rparr>"

definition picture :: response_head where
  "picture = \<lparr>hd_status = 200, hd_headers = [(''Content-Type'', ''image/png'')]\<rparr>"

theorem unselected_passes_by_witness:
  "plugin_run sample_plugins [Asked_request simple_request, Asked_upload simple_request, Asked_whole debugged picture,
       Asked_interest debugged picture, Asked_head debugged picture, Asked_chunk debugged [1]] (picky_plugin, default_metrics)
     = ([On_request None simple_request, On_interest False, On_interest False, On_interest False, On_head picture, On_chunk [1]],
        picky_plugin, default_metrics)"
proof -
  let ?es = "[Asked_request simple_request, Asked_upload simple_request, Asked_whole debugged picture,
       Asked_interest debugged picture, Asked_head debugged picture, Asked_chunk debugged [1]]"
  obtain rs s' where r: "plugin_run sample_plugins ?es (picky_plugin, default_metrics) = (rs, s')" by (metis surj_pair)
  have "\<not> meets [(''x-debug'', ''1'')] (rq_headers simple_request)" "\<not> meets [(''content-type'', ''html'')] (hd_headers picture)"
    by code_simp+
  then have out: "list_all (outside (fst (picky_plugin, default_metrics))) ?es"
    by (simp add: picky_plugin_def asks_for_request_def asks_for_response_def)
  have "list_all2 passes ?es rs \<and> s' = (picky_plugin, default_metrics)"
    by (rule unselected_passes_by [OF out _ r]) (simp add: picky_plugin_def sample_plugin_def)
  with r show ?thesis by (auto simp: list_all2_Cons1)
qed

theorem loaded_have_answered_witness:
  "fst (load_all sample_plugins (Some [Some (''/p/b'', True, 493), Some (''/p/a'', True, 493), Some (''/p/c'', True, 420)]) default_metrics)
     = List.map_filter (answered sample_plugins) (sort (map fst (filter executable (map the
         [Some (''/p/b'', True, 493), Some (''/p/a'', True, 493), Some (''/p/c'', True, 420)]))))"
  by (rule loaded_have_answered) (simp_all add: sample_plugins_def)

theorem replies_survive_chunking_witness:
  "replies 4 (map Available [[123], [125, 10, 123], [125]]) = map lossy (lines_within 4 [] (concat [[123], [125, 10, 123], [125]]))"
  by (rule replies_survive_chunking) simp

section \<open>What a plugin that is gone still claims\<close>

text \<open>
  A plugin that was given up and had asked for uploads still claims them: the body is read into memory
  for it, and refused when it is too large, though nobody will look at it.
\<close>

lemma abandoned_still_claims:
  assumes "pl_request_body pl" and "matches_request pl req" and "pl_io pl = None"
  shows "before_body [plugin_hooks E 0] req ([pl], m) = (Resume 0, req, [pl], m)"
  using assms by (simp add: before_body_def plugin_hooks_def plugin_wants_request_body_def)

end
