(* ===== verification/Connect.thy ===== *)
theory Connect
  imports H3 Uploads Tokens Budget
begin

text \<open>
  main.rs: a datagram and the connection it belongs to, the ids of connections, the requests of a
  connection and where each is handed on, and the turns of the event loop. The connections themselves
  are quiche's: what the loop asks of one is a field of \<open>quiche\<close>. Shown are that a connection exists
  only for an address that was validated, by a token signed here over that very address and the id the
  client uses, and that what happens on one stream of a connection leaves the others alone.
\<close>


section \<open>quiche\<close>

record packet =
  \<comment> \<open>what \<open>Header::from_slice\<close> reads\<close>
  pk_dcid :: bytes
  pk_scid :: bytes
  pk_initial :: bool
  pk_version :: "32 word"
  pk_token :: "bytes option"

datatype h3_event = On_headers nat headers bool | On_data nat | On_finished nat | On_reset nat | On_other nat

datatype next_packet = No_packet | No_sending | Packet

datatype sent_to = Taken | Would_block | Send_failed

record 'c quiche =
  qu_family :: bool
    \<comment> \<open>whether the socket is bound to an IPv4 address\<close>
  qu_sign :: "bytes \<Rightarrow> bytes"
  qu_hash :: "nat \<Rightarrow> bytes \<Rightarrow> 64 word"
    \<comment> \<open>\<open>DefaultHasher\<close> over a round and an id\<close>
  qu_version_ok :: "32 word \<Rightarrow> bool"
  qu_accept :: "bytes \<Rightarrow> bytes \<Rightarrow> socket_addr \<Rightarrow> 'c option"
  qu_recv :: "packet \<Rightarrow> socket_addr \<Rightarrow> 'c \<Rightarrow> 'c"
  qu_ready :: "'c \<Rightarrow> bool"
    \<comment> \<open>in early data or established\<close>
  qu_closed :: "'c \<Rightarrow> bool"
  qu_sni :: "'c \<Rightarrow> str option"
  qu_h3 :: "'c \<Rightarrow> bool \<times> 'c"
  qu_poll :: "'c \<Rightarrow> h3_event list \<times> 'c"
    \<comment> \<open>until \<open>Done\<close> or an error\<close>
  qu_upload :: "'c \<Rightarrow> nat \<Rightarrow> worker_move list \<times> received list"
  qu_writes :: "'c \<Rightarrow> pending \<Rightarrow> opened \<times> wrote list"
  qu_timeout :: "'c \<Rightarrow> 'c"
  qu_out :: "'c \<Rightarrow> next_packet \<times> 'c"
    \<comment> \<open>\<open>send\<close>: the next packet, put together\<close>
  qu_close :: "'c \<Rightarrow> 'c"
  qu_socket :: "'c \<Rightarrow> sent_to list"
    \<comment> \<open>what the socket answers to its packets in a turn, until it would block\<close>
  qu_path :: "'c \<Rightarrow> (nat \<times> nat \<times> ip_addr) option"
    \<comment> \<open>the active path: delivery rate, bytes sent, peer\<close>

record 'c client =
  cl_conn :: 'c
  cl_http3 :: bool
  cl_pending :: "(pending \<times> on_stream) list"
  cl_peer :: socket_addr
  cl_uploads :: "nat \<Rightarrow> upload option"
    \<comment> \<open>those whose sender is gone are kept for the worker's end\<close>

type_synonym 'c clients = "(bytes \<times> 'c client) list"

definition MAX_CONN_ID_LEN :: nat where "MAX_CONN_ID_LEN = 20"

section \<open>Connection ids\<close>

function scid_bytes :: "(nat \<Rightarrow> bytes \<Rightarrow> 64 word) \<Rightarrow> bytes \<Rightarrow> nat \<Rightarrow> nat \<Rightarrow> bytes" where
  \<comment> \<open>the loop of \<open>derive_scid\<close>: \<open>left\<close> bytes to go\<close>
  "scid_bytes hash dcid round left =
     (if left = 0 then []
      else
        (let n = min left 8
         in take n (rev (be_bytes 8 (unat (hash round dcid)))) @ scid_bytes hash dcid (Suc round) (left - n)))"
  by pat_completeness auto
termination by (relation "measure (\<lambda>(hash, dcid, round, left). left)") auto

declare scid_bytes.simps [simp del]

definition derive_scid :: "(nat \<Rightarrow> bytes \<Rightarrow> 64 word) \<Rightarrow> bytes \<Rightarrow> bytes" where
  "derive_scid hash dcid = scid_bytes hash dcid 0 MAX_CONN_ID_LEN"

lemma length_scid_bytes [simp]: "length (scid_bytes hash dcid round left) = left"
proof (induction hash dcid round left rule: scid_bytes.induct)
  case (1 hash dcid round left)
  then show ?case by (subst scid_bytes.simps) (auto simp: Let_def)
qed

definition find_key :: "'c clients \<Rightarrow> bytes \<Rightarrow> bytes option" where
  "find_key cs cid = map_option fst (find (\<lambda>(k, cl). k = cid) cs)"

section \<open>A datagram\<close>

datatype packet_answer = Dropped | Negotiated | Retried bytes bytes | Refused_token | Not_accepted
  | Delivered bytes "(bytes \<times> bytes) option"
  \<comment> \<open>to a connection, with its id and the original one if it is new\<close>

definition recv_packet :: "'c quiche \<Rightarrow> nat \<Rightarrow> packet option \<Rightarrow> socket_addr \<Rightarrow> 'c clients \<Rightarrow> packet_answer \<times> 'c clients" where
  "recv_packet Q now pkt from cs =
     (case pkt of
        None \<Rightarrow> (Dropped, cs)
      | Some hdr \<Rightarrow>
          (let derived = derive_scid (qu_hash Q) (pk_dcid hdr)
           in case (case find_key cs (pk_dcid hdr) of Some k \<Rightarrow> Some k | None \<Rightarrow> find_key cs derived) of
                Some k \<Rightarrow> (Delivered k None, map (\<lambda>(n, cl). (n, if n = k then cl\<lparr>cl_conn := qu_recv Q hdr from (cl_conn cl)\<rparr> else cl)) cs)
              | None \<Rightarrow>
                  if \<not> pk_initial hdr then (Dropped, cs)
                  else if \<not> qu_version_ok Q (pk_version hdr) then (Negotiated, cs)
                  else
                    (let tok = (case pk_token hdr of Some t \<Rightarrow> t | None \<Rightarrow> [])
                     in if tok = [] then (Retried (mint_token (qu_sign Q) now (pk_dcid hdr) from) derived, cs)
                        else
                          (case validate_token (qu_sign Q) now from tok of
                             None \<Rightarrow> (Refused_token, cs)
                           | Some odcid \<Rightarrow>
                               (let scid = pk_dcid hdr
                                in case qu_accept Q scid odcid from of
                                     None \<Rightarrow> (Not_accepted, cs)
                                   | Some conn \<Rightarrow>
                                       (Delivered scid (Some (scid, odcid)),
                                        (scid, \<lparr>cl_conn = qu_recv Q hdr from conn, cl_http3 = False, cl_pending = [], cl_peer = from,
                                                cl_uploads = (\<lambda>_. None)\<rparr>) # cs))))))"

section \<open>Requests\<close>

record job =
  jb_conn :: bytes
  jb_stream :: nat
  jb_request :: proxy_request
  jb_upload :: "nat option option"
    \<comment> \<open>the length declared for a body that follows\<close>
  jb_budget :: budget

definition dispatch :: "bytes \<Rightarrow> nat \<Rightarrow> proxy_request \<Rightarrow> nat option option \<Rightarrow> nat \<Rightarrow> job" where
  "dispatch k stream req up stream_cap =
     \<lparr>jb_conn = k, jb_stream = stream, jb_request = req, jb_upload = up, jb_budget = new_budget stream_cap\<rparr>"

type_synonym uploads = "nat \<Rightarrow> upload option"

definition uploading :: "uploads \<Rightarrow> nat \<Rightarrow> bool" where
  "uploading ups stream \<longleftrightarrow> (case ups stream of Some u \<Rightarrow> sending u | None \<Rightarrow> False)"

fun poll_one :: "bytes \<Rightarrow> str option \<Rightarrow> socket_addr \<Rightarrow> nat \<Rightarrow> h3_event \<Rightarrow> uploads \<times> job list \<Rightarrow> uploads \<times> job list" where
  \<comment> \<open>one turn of the loop of \<open>poll_requests\<close>\<close>
  "poll_one k sni peer cap (On_headers stream hs more_frames) (ups, jobs) =
     (case headers_event sni peer (uploading ups stream) hs more_frames of
        Ignored \<Rightarrow> (ups, jobs)
      | Dispatched req None \<Rightarrow> (ups, jobs @ [dispatch k stream req None cap])
      | Dispatched req (Some len) \<Rightarrow> (ups(stream \<mapsto> new_upload), jobs @ [dispatch k stream req (Some len) cap]))"
| "poll_one k sni peer cap (On_finished stream) (ups, jobs) =
     (ups(stream := map_option (on_event cap Finished_event) (ups stream)), jobs)"
| "poll_one k sni peer cap (On_reset stream) (ups, jobs) =
     (ups(stream := map_option (on_event cap Reset_event) (ups stream)), jobs)"
| "poll_one k sni peer cap (On_data stream) (ups, jobs) = (ups, jobs)"
| "poll_one k sni peer cap (On_other stream) (ups, jobs) = (ups, jobs)"

definition poll_requests :: "'c quiche \<Rightarrow> bytes \<Rightarrow> nat \<Rightarrow> 'c client \<Rightarrow> 'c client \<times> job list" where
  "poll_requests Q k cap cl =
     (let (events, conn) = qu_poll Q (cl_conn cl);
          (ups, jobs) = fold (poll_one k (qu_sni Q conn) (cl_peer cl) cap) events (cl_uploads cl, []);
          ups = (\<lambda>stream. map_option (\<lambda>u. case qu_upload Q conn stream of (sched, rs) \<Rightarrow> on_event cap (Pass sched rs) u) (ups stream))
      in (cl\<lparr>cl_conn := conn, cl_uploads := ups\<rparr>, jobs))"

definition drive_client :: "'c quiche \<Rightarrow> nat \<Rightarrow> bytes \<times> 'c client \<Rightarrow> (bytes \<times> 'c client) \<times> job list" where
  "drive_client Q cap e =
     (case e of (k, cl) \<Rightarrow>
       (let (given_up, cl) =
              (if qu_ready Q (cl_conn cl) \<and> \<not> cl_http3 cl
               then (case qu_h3 Q (cl_conn cl) of (ok, conn) \<Rightarrow> (\<not> ok, cl\<lparr>cl_conn := conn, cl_http3 := ok\<rparr>)) else (False, cl))
        in if given_up \<or> \<not> cl_http3 cl then ((k, cl), [])
           else
             (case poll_requests Q k cap cl of
                (cl, jobs) \<Rightarrow> ((k, cl\<lparr>cl_pending := pump_responses (qu_writes Q (cl_conn cl)) (cl_pending cl)\<rparr>), jobs))))"

definition drive_http3 :: "'c quiche \<Rightarrow> nat \<Rightarrow> 'c clients \<Rightarrow> 'c clients \<times> job list" where
  "drive_http3 Q cap cs = (map (fst \<circ> drive_client Q cap) cs, concat (map (snd \<circ> drive_client Q cap) cs))"

section \<open>The loop\<close>

definition LINK_SAMPLE_INTERVAL :: nat where "LINK_SAMPLE_INTERVAL = 500"

definition sample_links :: "'c quiche \<Rightarrow> nat \<Rightarrow> 'c clients \<Rightarrow> links \<Rightarrow> links" where
  "sample_links Q now cs l =
     fold (\<lambda>(k, cl) l.
       case qu_path Q (cl_conn cl) of
         None \<Rightarrow> l
       | Some (delivery_rate, sent_bytes, peer) \<Rightarrow>
           (case from_delivery_rate delivery_rate sent_bytes of
              None \<Rightarrow> l
            | Some rate \<Rightarrow> record_at peer rate now l)) cs l"

definition drain_clients :: "(bytes \<times> nat \<times> h3_payload) list \<Rightarrow> 'c clients \<Rightarrow> 'c clients" where
  \<comment> \<open>\<open>drain_results\<close> over the clients\<close>
  "drain_clients results cs =
     (let m = fst (drain_results results (\<lambda>k. map_option (\<lambda>cl. map fst (cl_pending cl)) (map_of cs k)))
      in map (\<lambda>(k, cl).
           (k, case m k of
                 None \<Rightarrow> cl
               | Some ps \<Rightarrow>
                   cl\<lparr>cl_pending := zip ps (map snd (cl_pending cl) @ replicate (length ps - length (cl_pending cl)) new_stream)\<rparr>)) cs)"

record 'c event_loop =
  el_clients :: "'c clients"
  el_links :: links
  el_sample_at :: nat

definition on_conns :: "('c \<Rightarrow> 'c) \<Rightarrow> 'c clients \<Rightarrow> 'c clients" where
  "on_conns f cs = map (\<lambda>(k, cl). (k, cl\<lparr>cl_conn := f (cl_conn cl)\<rparr>)) cs"

fun flush_conn :: "'c quiche \<Rightarrow> sent_to list \<Rightarrow> 'c \<Rightarrow> 'c" where
  \<comment> \<open>a packet the socket does not take is gone\<close>
  "flush_conn Q [] c =
     (case qu_out Q c of (No_packet, c) \<Rightarrow> c | (No_sending, c) \<Rightarrow> qu_close Q c | (Packet, c) \<Rightarrow> c)"
| "flush_conn Q (answer # answers) c =
     (case qu_out Q c of
        (No_packet, c) \<Rightarrow> c
      | (No_sending, c) \<Rightarrow> qu_close Q c
      | (Packet, c) \<Rightarrow> (case answer of Taken \<Rightarrow> flush_conn Q answers c | Would_block \<Rightarrow> c | Send_failed \<Rightarrow> c))"

definition flush :: "'c quiche \<Rightarrow> 'c clients \<Rightarrow> 'c clients" where
  "flush Q cs = on_conns (\<lambda>c. flush_conn Q (qu_socket Q c) c) cs"

definition loop_turn :: "'c quiche \<Rightarrow> nat \<Rightarrow> nat \<Rightarrow> nat \<Rightarrow> (packet option \<times> socket_addr) list \<Rightarrow> (bytes \<times> nat \<times> h3_payload) list
    \<Rightarrow> 'c event_loop \<Rightarrow> 'c event_loop \<times> packet_answer list \<times> job list" where
  \<comment> \<open>one turn of the loop of \<open>main\<close>, at a time of day in seconds and an instant in milliseconds\<close>
  "loop_turn Q cap secs now datagrams results st =
     (let (answers, cs) = fold (\<lambda>(pkt, from) (as, cs). case recv_packet Q secs pkt from cs of (a, cs) \<Rightarrow> (as @ [a], cs))
            datagrams ([], el_clients st);
          cs = drain_clients results cs;
          cs = on_conns (qu_timeout Q) cs;
          (cs, jobs) = drive_http3 Q cap cs;
          cs = flush Q cs;
          st = (if now \<ge> el_sample_at st
                then st\<lparr>el_links := sample_links Q now cs (el_links st), el_sample_at := now + LINK_SAMPLE_INTERVAL\<rparr> else st);
          cs = filter (\<lambda>(k, cl). \<not> qu_closed Q (cl_conn cl)) cs
      in (st\<lparr>el_clients := cs\<rparr>, answers, jobs))"

section \<open>Who is on the other end\<close>

text \<open>
  The datagrams a network brings, forged addresses and replayed ones included: anything, but a token
  whose tag nobody but this process can compute. \<open>log\<close> is what was signed for whom and when, \<open>born\<close>
  the connections that were accepted.
\<close>

type_synonym minted_log = "(bytes \<times> socket_addr \<times> nat) list"
type_synonym born_log = "(bytes \<times> bytes \<times> socket_addr \<times> nat) list"

definition unforged :: "'c quiche \<Rightarrow> minted_log \<Rightarrow> packet option \<Rightarrow> bool" where
  "unforged Q log pkt \<longleftrightarrow>
     (case Option.bind pkt pk_token of
        None \<Rightarrow> True
      | Some tok \<Rightarrow>
          (\<forall>m. qu_sign Q m = drop (length tok - TAG_BYTES) tok
             \<longrightarrow> (\<exists>(dcid, peer, at) \<in> set log. m = token_body peer (be_bytes 8 (at + TOKEN_TTL_SECONDS)) dcid)))"

fun signed :: "packet option \<Rightarrow> socket_addr \<Rightarrow> nat \<Rightarrow> packet_answer \<Rightarrow> minted_log" where
  "signed (Some hdr) from now (Retried tok scid) = [(pk_dcid hdr, from, now)]"
| "signed pkt from now a = []"

fun accepted :: "socket_addr \<Rightarrow> nat \<Rightarrow> packet_answer \<Rightarrow> born_log" where
  "accepted from now (Delivered k (Some (scid, odcid))) = [(scid, odcid, from, now)]"
| "accepted from now a = []"

inductive listening_on :: "'c quiche \<Rightarrow> nat \<Rightarrow> 'c clients \<Rightarrow> minted_log \<Rightarrow> born_log \<Rightarrow> nat \<Rightarrow> bool"
  for Q :: "'c quiche" and cap :: nat where
  bound: "listening_on Q cap [] [] [] now"
| passed: "listening_on Q cap cs log born now \<Longrightarrow> now \<le> later \<Longrightarrow> listening_on Q cap cs log born later"
| datagram: "listening_on Q cap cs log born now \<Longrightarrow> unforged Q log pkt \<Longrightarrow> is_ipv4 (fst from) = qu_family Q
    \<Longrightarrow> now + TOKEN_TTL_SECONDS \<le> u64_max \<Longrightarrow> recv_packet Q now pkt from cs = (answer, cs')
    \<Longrightarrow> listening_on Q cap cs' (signed pkt from now answer @ log) (accepted from now answer @ born) now"
| drained: "listening_on Q cap cs log born now \<Longrightarrow> listening_on Q cap (drain_clients results cs) log born now"
| moved: "listening_on Q cap cs log born now \<Longrightarrow> listening_on Q cap (on_conns f cs) log born now"
| driven: "listening_on Q cap cs log born now \<Longrightarrow> listening_on Q cap (fst (drive_http3 Q cap cs)) log born now"
| swept: "listening_on Q cap cs log born now \<Longrightarrow> listening_on Q cap (filter p cs) log born now"

definition peers :: "'c clients \<Rightarrow> (bytes \<times> socket_addr) list" where
  "peers cs = map (\<lambda>(k, cl). (k, cl_peer cl)) cs"

lemma peers_kept [simp]:
  "peers (drain_clients results cs) = peers cs" "peers (on_conns f cs) = peers cs" "peers (fst (drive_http3 Q cap cs)) = peers cs"
proof -
  have "cl_peer (snd (fst (drive_client Q cap (k, cl)))) = cl_peer cl \<and> fst (fst (drive_client Q cap (k, cl))) = k" for k cl
    by (auto simp: drive_client_def poll_requests_def Let_def split: prod.split)
  then show "peers (fst (drive_http3 Q cap cs)) = peers cs"
    by (auto simp: peers_def drive_http3_def case_prod_unfold)
qed (auto simp: peers_def drain_clients_def on_conns_def Let_def split: option.split)

lemma peers_names: "map fst (peers cs) = map fst cs"
  by (simp add: peers_def case_prod_unfold)

lemma peers_swept: "set (peers (filter p cs)) \<subseteq> set (peers cs)"
  by (auto simp: peers_def)

lemma find_key_eq: "find_key cs k = (if k \<in> fst ` set cs then Some k else None)"
proof (induction cs)
  case (Cons e cs)
  then show ?case by (cases e; cases "k \<in> fst ` set cs") (simp_all add: find_key_def)
qed (simp add: find_key_def)

lemma find_key_in: "find_key cs k = None \<longleftrightarrow> k \<notin> fst ` set cs"
  by (simp add: find_key_eq)

lemma recv_packet_peers:
  assumes "recv_packet Q now pkt from cs = (answer, cs')"
  shows "(peers cs' = peers cs \<and> accepted from now answer = []) \<or>
    (\<exists>hdr tok odcid. pkt = Some hdr \<and> pk_token hdr = Some tok \<and> validate_token (qu_sign Q) now from tok = Some odcid
       \<and> peers cs' = (pk_dcid hdr, from) # peers cs \<and> pk_dcid hdr \<notin> fst ` set cs \<and> accepted from now answer = [(pk_dcid hdr, odcid, from, now)])"
proof (cases pkt)
  case None
  with assms show ?thesis by (auto simp: recv_packet_def)
next
  case (Some hdr)
  let ?known = "case find_key cs (pk_dcid hdr) of Some k \<Rightarrow> Some k | None \<Rightarrow> find_key cs (derive_scid (qu_hash Q) (pk_dcid hdr))"
  show ?thesis
  proof (cases ?known)
    case known: (Some k)
    then have "answer = Delivered k None" "peers cs' = peers cs"
      using assms Some by (auto simp: recv_packet_def Let_def peers_def)
    then show ?thesis by simp
  next
    case None
    then have new: "pk_dcid hdr \<notin> fst ` set cs" by (simp add: find_key_in [symmetric] split: option.splits)
    from assms Some None show ?thesis
      unfolding recv_packet_def Let_def
      by (auto simp: peers_def new split: if_splits option.splits)
  qed
qed

definition well_known :: "'c quiche \<Rightarrow> 'c clients \<Rightarrow> minted_log \<Rightarrow> born_log \<Rightarrow> nat \<Rightarrow> bool" where
  "well_known Q cs log born now \<longleftrightarrow>
     distinct (map fst cs)
     \<and> list_all (\<lambda>(dcid, peer, at). is_ipv4 (fst peer) = qu_family Q \<and> at \<le> now \<and> at + TOKEN_TTL_SECONDS \<le> u64_max) log
     \<and> (\<forall>(k, peer) \<in> set (peers cs). \<exists>odcid at0 at1. (k, odcid, peer, at1) \<in> set born \<and> (odcid, peer, at0) \<in> set log
          \<and> at0 \<le> at1 \<and> at1 \<le> at0 + TOKEN_TTL_SECONDS)"

lemma signed_ok: "now + TOKEN_TTL_SECONDS \<le> u64_max \<Longrightarrow> is_ipv4 (fst from) = qu_family Q
   \<Longrightarrow> list_all (\<lambda>(dcid, peer, at). is_ipv4 (fst peer) = qu_family Q \<and> at \<le> now \<and> at + TOKEN_TTL_SECONDS \<le> u64_max) (signed pkt from now a)"
  by (cases pkt; cases a) auto

lemma well_known_datagram:
  assumes "well_known Q cs log born now" and "unforged Q log pkt" and "is_ipv4 (fst from) = qu_family Q"
    and "now + TOKEN_TTL_SECONDS \<le> u64_max" and "recv_packet Q now pkt from cs = (answer, cs')"
  shows "well_known Q cs' (signed pkt from now answer @ log) (accepted from now answer @ born) now"
  using recv_packet_peers [OF assms(5)]
proof
  assume same: "peers cs' = peers cs \<and> accepted from now answer = []"
  then have "map fst cs' = map fst cs" by (metis peers_names)
  with same assms(1) signed_ok [OF assms(4,3)] show ?thesis by (fastforce simp: well_known_def)
next
  assume "\<exists>hdr tok odcid. pkt = Some hdr \<and> pk_token hdr = Some tok \<and> validate_token (qu_sign Q) now from tok = Some odcid
    \<and> peers cs' = (pk_dcid hdr, from) # peers cs \<and> pk_dcid hdr \<notin> fst ` set cs \<and> accepted from now answer = [(pk_dcid hdr, odcid, from, now)]"
  then obtain hdr tok odcid where new: "pkt = Some hdr" "pk_token hdr = Some tok" "validate_token (qu_sign Q) now from tok = Some odcid"
    "peers cs' = (pk_dcid hdr, from) # peers cs" "pk_dcid hdr \<notin> fst ` set cs" "accepted from now answer = [(pk_dcid hdr, odcid, from, now)]" by blast
  have "\<exists>(dcid, peer, at) \<in> set log. m = token_body peer (be_bytes 8 (at + TOKEN_TTL_SECONDS)) dcid"
    if "qu_sign Q m = drop (length tok - TAG_BYTES) tok" for m
    using assms(2) that new(1,2) by (simp add: unforged_def)
  moreover have "list_all (\<lambda>(dcid, peer, at). is_ipv4 (fst peer) = is_ipv4 (fst from) \<and> at \<le> now \<and> at + TOKEN_TTL_SECONDS \<le> u64_max) log"
    using assms(1,3) by (simp add: well_known_def)
  ultimately obtain at where at: "(odcid, from, at) \<in> set log" "at \<le> now" "now \<le> at + TOKEN_TTL_SECONDS"
    using token_was_minted_here [OF new(3)] by blast
  have names: "map fst cs' = pk_dcid hdr # map fst cs"
    using arg_cong [OF new(4), of "map fst"] by (simp add: peers_names)
  have "distinct (map fst cs')" using assms(1) new(5) by (simp add: names well_known_def)
  moreover have "list_all (\<lambda>(dcid, peer, at). is_ipv4 (fst peer) = qu_family Q \<and> at \<le> now \<and> at + TOKEN_TTL_SECONDS \<le> u64_max) (signed pkt from now answer @ log)"
    using assms(1) signed_ok [OF assms(4,3)] by (simp add: well_known_def)
  moreover have "\<exists>odcid at0 at1. (k, odcid, peer, at1) \<in> set (accepted from now answer @ born)
      \<and> (odcid, peer, at0) \<in> set (signed pkt from now answer @ log) \<and> at0 \<le> at1 \<and> at1 \<le> at0 + TOKEN_TTL_SECONDS"
    if "(k, peer) \<in> set (peers cs')" for k peer
  proof (cases "(k, peer) = (pk_dcid hdr, from)")
    case True
    with at new(6) show ?thesis by auto
  next
    case False
    with that new(4) have "(k, peer) \<in> set (peers cs)" by auto
    with assms(1) show ?thesis by (fastforce simp: well_known_def)
  qed
  ultimately show ?thesis by (auto simp: well_known_def)
qed

lemma listening_well_known: "listening_on Q cap cs log born now \<Longrightarrow> well_known Q cs log born now"
proof (induction rule: listening_on.induct)
  case (datagram cs log born now pkt fr answer cs')
  then show ?case using well_known_datagram by blast
next
  case (passed cs log born now later)
  then show ?case by (auto simp: well_known_def list_all_iff)
next
  case (swept cs log born now p)
  then show ?case using peers_swept [of p cs] by (fastforce simp: well_known_def distinct_map_filter)
qed (auto simp: well_known_def peers_names [symmetric] peers_def [of "[]"])

text \<open>
  C6: no connection is kept for an address that did not ask for it. Whatever datagrams arrive, with forged
  and replayed addresses, every connection the front end has was accepted for an address, and the
  connection id its client chose at first, that a Retry had been sent for at most the token's life
  before; and no two have the same id.
\<close>

theorem connection_was_validated:
  assumes "listening_on Q cap cs log born now" and "(k, cl) \<in> set cs"
  shows "distinct (map fst cs) \<and> (\<exists>odcid at0 at1. (k, odcid, cl_peer cl, at1) \<in> set born \<and> (odcid, cl_peer cl, at0) \<in> set log
    \<and> at0 \<le> at1 \<and> at1 \<le> at0 + TOKEN_TTL_SECONDS)"
proof -
  have "(k, cl_peer cl) \<in> set (peers cs)" using assms(2) by (force simp: peers_def)
  with listening_well_known [OF assms(1)] show ?thesis by (fastforce simp: well_known_def)
qed

definition sample_quiche :: "unit quiche" where
  "sample_quiche = \<lparr>qu_family = True, qu_sign = toy_sign, qu_hash = (\<lambda>round cid. 0), qu_version_ok = (\<lambda>v. True),
     qu_accept = (\<lambda>scid odcid from. Some ()), qu_recv = (\<lambda>pkt from c. c), qu_ready = (\<lambda>c. False), qu_closed = (\<lambda>c. False),
     qu_sni = (\<lambda>c. None), qu_h3 = Pair True, qu_poll = Pair [], qu_upload = (\<lambda>c stream. ([], [])),
     qu_writes = (\<lambda>c p. (Not_now, [])), qu_timeout = id, qu_out = (\<lambda>c. (No_packet, c)), qu_close = id, qu_socket = (\<lambda>c. []), qu_path = (\<lambda>c. None)\<rparr>"

definition initial_with :: "bytes \<Rightarrow> bytes option \<Rightarrow> packet option" where
  "initial_with dcid tok = Some \<lparr>pk_dcid = dcid, pk_scid = [], pk_initial = True, pk_version = 1, pk_token = tok\<rparr>"

theorem connection_was_validated_witness:
  "\<exists>odcid at0 at1. ([9 :: u8], odcid, (V4 1, 443 :: 16 word), at1) \<in> set [([9], [1, 2, 3], (V4 1, 443), 1020)]
     \<and> (odcid, (V4 1, 443), at0) \<in> set [([1, 2, 3 :: u8], (V4 1, 443 :: 16 word), 1000)] \<and> at0 \<le> at1 \<and> at1 \<le> at0 + TOKEN_TTL_SECONDS"
proof -
  let ?from = "(V4 1, 443) :: socket_addr"
  let ?tok = "mint_token toy_sign 1000 [1, 2, 3] ?from"
  let ?new = "\<lparr>cl_conn = (), cl_http3 = False, cl_pending = [], cl_peer = ?from, cl_uploads = \<lambda>_. None\<rparr>"
  have start: "listening_on sample_quiche 0 [] [] [] 1000" by (rule listening_on.bound)
  have first: "recv_packet sample_quiche 1000 (initial_with [1, 2, 3] None) ?from []
      = (Retried ?tok (derive_scid (\<lambda>round cid. 0) [1, 2, 3]), [])"
    by (simp add: recv_packet_def initial_with_def sample_quiche_def find_key_def Let_def)
  have "listening_on sample_quiche 0 [] [([1, 2, 3], ?from, 1000)] [] 1000"
    using listening_on.datagram [OF start _ _ _ first]
    by (simp add: unforged_def initial_with_def sample_quiche_def TOKEN_TTL_SECONDS_def u64_max_def)
  then have later: "listening_on sample_quiche 0 [] [([1, 2, 3], ?from, 1000)] [] 1020"
    by (rule listening_on.passed) simp
  have v: "validate_token toy_sign 1020 ?from ?tok = Some [1, 2, 3]"
    by (rule token_round_trips) (simp_all add: toy_sign_def TAG_BYTES_def TOKEN_TTL_SECONDS_def u64_max_def)
  have t: "?tok \<noteq> []" by (simp add: mint_token_def TOKEN_MARKER_def as_bytes_def Let_def)
  have second: "recv_packet sample_quiche 1020 (initial_with [9] (Some ?tok)) ?from []
      = (Delivered [9] (Some ([9], [1, 2, 3])), [([9], ?new)])"
    using v t by (simp add: recv_packet_def initial_with_def sample_quiche_def find_key_def Let_def)
  have s: "toy_sign (token_body ?from (be_bytes 8 1030) [1, 2, 3]) = replicate 32 7" by (simp add: toy_sign_def)
  have d: "drop (length ?tok - TAG_BYTES) ?tok = replicate 32 7"
    by (simp add: mint_token_def s TAG_BYTES_def TOKEN_TTL_SECONDS_def Let_def)
  have u: "unforged sample_quiche [([1, 2, 3], ?from, 1000)] (initial_with [9] (Some ?tok))"
    unfolding unforged_def initial_with_def sample_quiche_def
    by (simp add: d toy_sign_def TOKEN_TTL_SECONDS_def)
  have "listening_on sample_quiche 0 [([9], ?new)] [([1, 2, 3], ?from, 1000)] [([9], [1, 2, 3], ?from, 1020)] 1020"
    using listening_on.datagram [OF later u _ _ second]
    by (simp add: initial_with_def sample_quiche_def TOKEN_TTL_SECONDS_def u64_max_def)
  from connection_was_validated [OF this, of "[9]" ?new] show ?thesis by simp
qed

text \<open>
  A turn of the loop is one of these histories.
\<close>

lemma unforged_later: "unforged Q log pkt \<Longrightarrow> unforged Q (newer @ log) pkt"
  unfolding unforged_def by (fastforce split: option.splits)

lemma reads_listen:
  assumes "listening_on Q cap cs log born secs" and "secs + TOKEN_TTL_SECONDS \<le> u64_max"
    and "list_all (\<lambda>(pkt, from). unforged Q log pkt \<and> is_ipv4 (fst from) = qu_family Q) ds"
    and "fold (\<lambda>(pkt, from) (as, cs). case recv_packet Q secs pkt from cs of (a, cs) \<Rightarrow> (as @ [a], cs)) ds (as, cs) = (as', cs')"
  shows "\<exists>log' born'. listening_on Q cap cs' log' born' secs"
  using assms
proof (induction ds arbitrary: as cs log born)
  case (Cons d ds)
  obtain pkt peer where d: "d = (pkt, peer)" by (metis surj_pair)
  obtain a cs1 where r: "recv_packet Q secs pkt peer cs = (a, cs1)" by (metis surj_pair)
  have "listening_on Q cap cs1 (signed pkt peer secs a @ log) (accepted peer secs a @ born) secs"
    using Cons.prems listening_on.datagram [OF Cons.prems(1) _ _ Cons.prems(2) r] by (simp add: d)
  moreover have "list_all (\<lambda>(pkt, from). unforged Q (signed pkt' peer' secs a @ log) pkt \<and> is_ipv4 (fst from) = qu_family Q) ds" for pkt' peer'
    using Cons.prems(3) by (auto simp: list_all_iff split: prod.splits intro!: unforged_later)
  moreover have "fold (\<lambda>(pkt, from) (as, cs). case recv_packet Q secs pkt from cs of (a, cs) \<Rightarrow> (as @ [a], cs)) ds (as @ [a], cs1) = (as', cs')"
    using Cons.prems(4) by (simp add: d r)
  ultimately show ?case using Cons.IH [OF _ Cons.prems(2)] by blast
qed auto

lemma turn_listens:
  assumes "listening_on Q cap (el_clients st) log born secs" and "secs + TOKEN_TTL_SECONDS \<le> u64_max"
    and "list_all (\<lambda>(pkt, from). unforged Q log pkt \<and> is_ipv4 (fst from) = qu_family Q) datagrams"
  shows "\<exists>log' born'. listening_on Q cap (el_clients (fst (loop_turn Q cap secs now datagrams results st))) log' born' secs"
proof -
  obtain as cs where f: "fold (\<lambda>(pkt, from) (as, cs). case recv_packet Q secs pkt from cs of (a, cs) \<Rightarrow> (as @ [a], cs)) datagrams ([], el_clients st) = (as, cs)"
    by force
  obtain log' born' where l: "listening_on Q cap cs log' born' secs" using reads_listen [OF assms f] by blast
  let ?cs = "flush Q (fst (drive_http3 Q cap (on_conns (qu_timeout Q) (drain_clients results cs))))"
  have "listening_on Q cap (filter (\<lambda>(k, cl). \<not> qu_closed Q (cl_conn cl)) ?cs) log' born' secs"
    unfolding flush_def
    by (intro listening_on.swept listening_on.moved listening_on.driven listening_on.drained l)
  moreover have "el_clients (fst (loop_turn Q cap secs now datagrams results st)) = filter (\<lambda>(k, cl). \<not> qu_closed Q (cl_conn cl)) ?cs"
    unfolding loop_turn_def f Let_def prod.case by (simp add: drive_http3_def)
  ultimately show ?thesis by metis
qed

section \<open>Ids and streams\<close>

text \<open>
  A client that goes on using the id it made up reaches the connection it was given: an id is derived
  from that one alone.
\<close>

lemma first_id_still_reaches:
  assumes "find_key cs (pk_dcid hdr) = None" and "derive_scid (qu_hash Q) (pk_dcid hdr) \<in> fst ` set cs"
  shows "fst (recv_packet Q now (Some hdr) peer cs) = Delivered (derive_scid (qu_hash Q) (pk_dcid hdr)) None"
  using assms by (simp add: recv_packet_def Let_def find_key_eq split: if_splits)

fun of_stream :: "h3_event \<Rightarrow> nat" where
  "of_stream (On_headers stream hs more_frames) = stream"
| "of_stream (On_data stream) = stream"
| "of_stream (On_finished stream) = stream"
| "of_stream (On_reset stream) = stream"
| "of_stream (On_other stream) = stream"

definition seen_from :: "nat \<Rightarrow> uploads \<times> job list \<Rightarrow> upload option \<times> job list" where
  \<comment> \<open>what of it is a stream's own\<close>
  "seen_from stream s = (fst s stream, filter (\<lambda>j. jb_stream j = stream) (snd s))"

lemma other_stream: "of_stream e \<noteq> stream \<Longrightarrow> seen_from stream (poll_one k sni peer cap e s) = seen_from stream s"
  by (cases s; cases e) (auto simp: seen_from_def dispatch_def split: on_headers.split option.split)

lemma own_stream:
  assumes "of_stream e = stream" and "seen_from stream s = seen_from stream t"
  shows "seen_from stream (poll_one k sni peer cap e s) = seen_from stream (poll_one k sni peer cap e t)"
proof -
  have "uploading (fst s) stream = uploading (fst t) stream" using assms(2) by (simp add: seen_from_def uploading_def)
  with assms show ?thesis
    by (cases s; cases t; cases e) (auto simp: seen_from_def split: on_headers.split option.split)
qed

text \<open>
  C22: streams keep apart: whatever happens on the streams of a connection, the upload of one and the jobs
  made for it are what the events of that stream alone make them.
\<close>

theorem streams_keep_apart:
  "seen_from stream (fold (poll_one k sni peer cap) events s)
     = seen_from stream (fold (poll_one k sni peer cap) (filter (\<lambda>e. of_stream e = stream) events) s)"
proof -
  have "seen_from stream s = seen_from stream t \<Longrightarrow> seen_from stream (fold (poll_one k sni peer cap) events s)
     = seen_from stream (fold (poll_one k sni peer cap) (filter (\<lambda>e. of_stream e = stream) events) t)" for s t
  proof (induction events arbitrary: s t)
    case (Cons e events)
    show ?case
    proof (cases "of_stream e = stream")
      case True
      with own_stream [OF True Cons.prems] Cons.IH show ?thesis by simp
    next
      case False
      with other_stream [OF False] Cons.prems Cons.IH show ?thesis by simp
    qed
  qed simp
  then show ?thesis by simp
qed

end
