(* ===== verification/Workers.thy ===== *)
theory Workers
  imports Connect
begin

text \<open>
  main.rs: the pool of workers of the HTTP/3 front end. Each takes a job off one channel, and hands what
  comes of it to the event loop over another; how the workers are scheduled is left open. Shown are that
  no job is lost or done twice, that what arrives of one is in order, and that as long as the event loop
  is there so are all the workers.
\<close>


section \<open>The pool\<close>

datatype gone = Gone_stream | Gone_pool

datatype ('j, 'p) worker_at = Waiting | Working 'j "'p list" bool | Stopped
  \<comment> \<open>with what its job has still to hand over, and whether the job ends with its stream gone\<close>

record ('j, 'p) worker_pool =
  wp_jobs :: "'j list"
    \<comment> \<open>the channel of jobs\<close>
  wp_workers :: "('j, 'p) worker_at list"
  wp_results :: "('j \<times> 'p) list"
    \<comment> \<open>the channel of results\<close>
  wp_loop :: bool
    \<comment> \<open>whether the event loop is there, at the other end of both\<close>

definition spawn_workers :: "nat \<Rightarrow> ('j, 'p) worker_pool" where
  "spawn_workers n = \<lparr>wp_jobs = [], wp_workers = replicate n Waiting, wp_results = [], wp_loop = True\<rparr>"

definition submit :: "'j \<Rightarrow> ('j, 'p) worker_pool \<Rightarrow> ('j, 'p) worker_pool" where
  \<comment> \<open>the send of \<open>dispatch\<close>\<close>
  "submit j s = (if wp_loop s then s\<lparr>wp_jobs := wp_jobs s @ [j]\<rparr> else s)"

definition take_job :: "nat \<Rightarrow> 'p list \<Rightarrow> bool \<Rightarrow> ('j, 'p) worker_pool \<Rightarrow> ('j, 'p) worker_pool" where
  \<comment> \<open>\<open>rx.recv()\<close> by a worker that holds the lock: with nothing there it waits, and ends once nothing can come\<close>
  "take_job i parts stream_gone s =
     (case wp_jobs s of
        j # js \<Rightarrow> s\<lparr>wp_jobs := js, wp_workers := (wp_workers s)[i := Working j parts stream_gone]\<rparr>
      | [] \<Rightarrow> if wp_loop s then s else s\<lparr>wp_workers := (wp_workers s)[i := Stopped]\<rparr>)"

definition send_result :: "'j \<Rightarrow> 'p \<Rightarrow> ('j, 'p) worker_pool \<Rightarrow> gone option \<times> ('j, 'p) worker_pool" where
  \<comment> \<open>the send of \<open>handle_job\<close>: None is \<open>Ok\<close>\<close>
  "send_result j p s = (if wp_loop s then (None, s\<lparr>wp_results := wp_results s @ [(j, p)]\<rparr>) else (Some Gone_pool, s))"

definition after_job :: "gone option \<Rightarrow> ('j, 'p) worker_at" where
  \<comment> \<open>only the event loop disappearing ends the worker\<close>
  "after_job r = (if r = Some Gone_pool then Stopped else Waiting)"

definition work :: "nat \<Rightarrow> ('j, 'p) worker_pool \<Rightarrow> ('j, 'p) worker_pool" where
  \<comment> \<open>the next send of a worker, or the end of its job\<close>
  "work i s =
     (case wp_workers s ! i of
        Working j [] stream_gone \<Rightarrow>
          s\<lparr>wp_workers := (wp_workers s)[i := after_job (if stream_gone then Some Gone_stream else None)]\<rparr>
      | Working j (p # ps) stream_gone \<Rightarrow>
          (case send_result j p s of
             (None, s) \<Rightarrow> s\<lparr>wp_workers := (wp_workers s)[i := Working j ps stream_gone]\<rparr>
           | (r, s) \<Rightarrow> s\<lparr>wp_workers := (wp_workers s)[i := after_job r]\<rparr>)
      | _ \<Rightarrow> s)"

definition collect :: "('j, 'p) worker_pool \<Rightarrow> ('j, 'p) worker_pool" where
  \<comment> \<open>a \<open>try_recv\<close> of \<open>drain_results\<close>\<close>
  "collect s = s\<lparr>wp_results := tl (wp_results s)\<rparr>"

definition take_and_handle :: "('w, 'enc, 'el, 'h, 'd, 'e) front \<Rightarrow> nat \<Rightarrow> bytes list \<times> bool \<Rightarrow> (job, h3_payload) worker_pool \<Rightarrow> 'w
    \<Rightarrow> (job, h3_payload) worker_pool \<times> 'w" where
  \<comment> \<open>a turn of the loop of a worker: what of an upload arrives, and whether it was given up, is \<open>body\<close>\<close>
  "take_and_handle F i body s w =
     (case wp_jobs s of
        [] \<Rightarrow> (take_job i [] False s, w)
      | j # js \<Rightarrow>
          (case handle_job F (jb_request j) (map_option (\<lambda>declared. (fst body, snd body, declared)) (jb_upload j)) w of
             ((ok, n, parts), w) \<Rightarrow> (take_job i parts (\<not> ok) s, w)))"

section \<open>Every job is done once\<close>

text \<open>
  The pool under any scheduling: \<open>jobs\<close> is what was dispatched, \<open>started\<close> which jobs were taken and what
  each has to hand over, \<open>out\<close> what the event loop has collected.
\<close>

inductive pool_runs :: "nat \<Rightarrow> ('j, 'p) worker_pool \<Rightarrow> 'j list \<Rightarrow> ('j \<times> 'p list) list \<Rightarrow> ('j \<times> 'p) list \<Rightarrow> bool" for n where
  pool_starts: "pool_runs n (spawn_workers n) [] [] []"
| pool_submits: "pool_runs n s jobs started out \<Longrightarrow> wp_loop s \<Longrightarrow> pool_runs n (submit j s) (jobs @ [j]) started out"
| pool_takes: "pool_runs n s jobs started out \<Longrightarrow> i < n \<Longrightarrow> wp_workers s ! i = Waiting \<Longrightarrow> wp_jobs s = j # js
    \<Longrightarrow> pool_runs n (take_job i parts g s) jobs (started @ [(j, parts)]) out"
| pool_idles: "pool_runs n s jobs started out \<Longrightarrow> i < n \<Longrightarrow> wp_workers s ! i = Waiting \<Longrightarrow> wp_jobs s = []
    \<Longrightarrow> pool_runs n (take_job i parts g s) jobs started out"
| pool_works: "pool_runs n s jobs started out \<Longrightarrow> i < n \<Longrightarrow> pool_runs n (work i s) jobs started out"
| pool_collects: "pool_runs n s jobs started out \<Longrightarrow> wp_loop s \<Longrightarrow> wp_results s = r # rs
    \<Longrightarrow> pool_runs n (collect s) jobs started (out @ [r])"
| pool_ends: "pool_runs n s jobs started out \<Longrightarrow> pool_runs n (s\<lparr>wp_loop := False\<rparr>) jobs started out"

lemma handling_runs:
  assumes "pool_runs n s jobs started out" and "i < n" and "wp_workers s ! i = Waiting" and "take_and_handle F i body s w = (s', w')"
  shows "\<exists>started'. pool_runs n s' jobs started' out"
  using assms pool_takes [OF assms(1-3)] pool_idles [OF assms(1-3)]
  by (cases "wp_jobs s") (auto simp: take_and_handle_def split: prod.splits)

definition of_job :: "'j \<Rightarrow> ('j \<times> 'p) list \<Rightarrow> 'p list" where
  "of_job j rs = map snd (filter (\<lambda>r. fst r = j) rs)"

definition at_job :: "'j \<Rightarrow> ('j, 'p) worker_at \<Rightarrow> bool" where
  "at_job j w \<longleftrightarrow> (\<exists>ps g. w = Working j ps g)"
lemma loop_steps [simp]:
  "wp_loop (take_job i parts g s) = wp_loop s" "wp_loop (submit j s) = wp_loop s" "wp_loop (collect s) = wp_loop s" "wp_loop (work i s) = wp_loop s"
  by (auto simp: take_job_def submit_def collect_def work_def send_result_def split: list.split worker_at.split)

lemma of_job_simps [simp]:
  "of_job j [] = []" "of_job j (rs @ rs') = of_job j rs @ of_job j rs'" "of_job j [r] = (if fst r = j then [snd r] else [])"
  by (simp_all add: of_job_def)

definition pool_inv :: "nat \<Rightarrow> ('j, 'p) worker_at list \<Rightarrow> ('j \<times> 'p list) list \<Rightarrow> ('j \<times> 'p) list \<Rightarrow> bool" where
  \<comment> \<open>over everything sent, collected or not\<close>
  "pool_inv n ws started all \<longleftrightarrow>
     length ws = n \<and> Stopped \<notin> set ws \<and> distinct (map fst started)
     \<and> (\<forall>i<n. \<forall>j ps g. ws ! i = Working j ps g \<longrightarrow> (j, of_job j all @ ps) \<in> set started)
     \<and> (\<forall>i<n. \<forall>k<n. \<forall>j. at_job j (ws ! i) \<and> at_job j (ws ! k) \<longrightarrow> i = k)
     \<and> (\<forall>j parts. (j, parts) \<in> set started \<longrightarrow> (\<exists>i<n. at_job j (ws ! i)) \<or> of_job j all = parts)
     \<and> (\<forall>j. j \<notin> fst ` set started \<longrightarrow> of_job j all = [])"

lemma at_job_simps [simp]: "\<not> at_job j Waiting" "\<not> at_job j Stopped" "at_job j (Working k ps g) \<longleftrightarrow> j = k"
  by (auto simp: at_job_def)

lemma pool_invD:
  assumes "pool_inv n ws started all"
  shows "length ws = n" "Stopped \<notin> set ws"
    and "i < n \<Longrightarrow> ws ! i = Working j ps g \<Longrightarrow> (j, of_job j all @ ps) \<in> set started"
    and "i < n \<Longrightarrow> k < n \<Longrightarrow> at_job j (ws ! i) \<Longrightarrow> at_job j (ws ! k) \<Longrightarrow> i = k"
    and "(j, parts) \<in> set started \<Longrightarrow> (\<exists>i<n. at_job j (ws ! i)) \<or> of_job j all = parts"
    and "j \<notin> fst ` set started \<Longrightarrow> of_job j all = []" and "distinct (map fst started)"
  using assms unfolding pool_inv_def by blast+

lemma set_update_in: "Stopped \<notin> set ws \<Longrightarrow> w \<noteq> Stopped \<Longrightarrow> Stopped \<notin> set (ws[i := w])"
  using set_update_subset_insert [of ws i w] by auto

lemma inv_takes:
  assumes inv: "pool_inv n ws started all" and i: "i < n" "ws ! i = Waiting" and new: "j \<notin> fst ` set started"
  shows "pool_inv n (ws[i := Working j parts g]) (started @ [(j, parts)]) all"
  unfolding pool_inv_def
proof (intro conjI allI impI)
  note D = pool_invD [OF inv]
  have not_at: "\<not> at_job j (ws ! k)" if "k < n" for k
  proof
    assume "at_job j (ws ! k)"
    then obtain ps g where "ws ! k = Working j ps g" by (auto simp: at_job_def)
    from D(3) [OF that this] new show False by force
  qed
  show "length (ws[i := Working j parts g]) = n" using D(1) by simp
  show "Stopped \<notin> set (ws[i := Working j parts g])" by (rule set_update_in [OF D(2)]) simp
  show "distinct (map fst (started @ [(j, parts)]))" using D(7) new by simp
  show "(k, of_job k all @ ps) \<in> set (started @ [(j, parts)])" if "m < n" "ws[i := Working j parts g] ! m = Working k ps h" for m k ps h
    using that D(3) [OF that(1), of k ps h] D(1) D(6) [OF new] i(1) by (cases "m = i") auto
  show "l = m" if "l < n" "m < n" "at_job k (ws[i := Working j parts g] ! l) \<and> at_job k (ws[i := Working j parts g] ! m)" for l m k
    using that D(4) [of l m k] not_at D(1) i(1) by (cases "l = i"; cases "m = i") auto
  show "(\<exists>m<n. at_job k (ws[i := Working j parts g] ! m)) \<or> of_job k all = q" if "(k, q) \<in> set (started @ [(j, parts)])" for k q
  proof (cases "k = j")
    case True
    with i(1) D(1) show ?thesis by (auto intro!: exI [of _ i])
  next
    case False
    with that have "(k, q) \<in> set started" by auto
    from D(5) [OF this] show ?thesis
    proof
      assume "\<exists>m<n. at_job k (ws ! m)"
      then obtain m where "m < n" "at_job k (ws ! m)" by blast
      with i show ?thesis by (cases "m = i") (auto intro!: exI [of _ m])
    qed simp
  qed
  show "of_job k all = []" if "k \<notin> fst ` set (started @ [(j, parts)])" for k using that D(6) [of k] by auto
qed

lemma inv_done:
  assumes inv: "pool_inv n ws started all" and i: "i < n" "ws ! i = Working j [] g"
  shows "pool_inv n (ws[i := Waiting]) started all"
  unfolding pool_inv_def
proof (intro conjI allI impI)
  note D = pool_invD [OF inv]
  show "length (ws[i := Waiting]) = n" using D(1) by simp
  show "Stopped \<notin> set (ws[i := Waiting])" by (rule set_update_in [OF D(2)]) simp
  show "(k, of_job k all @ ps) \<in> set started" if "m < n" "ws[i := Waiting] ! m = Working k ps h" for m k ps h
    using that D(3) [OF that(1), of k ps h] D(1) by (cases "m = i") auto
  show "l = m" if "l < n" "m < n" "at_job k (ws[i := Waiting] ! l) \<and> at_job k (ws[i := Waiting] ! m)" for l m k
    using that D(4) [of l m k] D(1) by (cases "l = i"; cases "m = i") auto
  show "(\<exists>m<n. at_job k (ws[i := Waiting] ! m)) \<or> of_job k all = q" if "(k, q) \<in> set started" for k q
  proof -
    from D(5) [OF that] show ?thesis
    proof
      assume "\<exists>m<n. at_job k (ws ! m)"
      then obtain m where 1: "m < n" "at_job k (ws ! m)" by blast
      show ?thesis
      proof (cases "m = i")
        case True
        with 1 i(2) have "k = j" by simp
        with D(3) [OF i] eq_key_imp_eq_value [OF D(7) that] show ?thesis by auto
      next
        case False
        with 1 D(1) show ?thesis by (auto intro!: exI [of _ m])
      qed
    qed simp
  qed
  show "distinct (map fst started)" by (rule D(7))
  show "of_job k all = []" if "k \<notin> fst ` set started" for k using that D(6) by blast
qed

lemma inv_sends:
  assumes inv: "pool_inv n ws started all" and i: "i < n" "ws ! i = Working j (p # ps) g"
  shows "pool_inv n (ws[i := Working j ps g]) started (all @ [(j, p)])"
  unfolding pool_inv_def
proof (intro conjI allI impI)
  note D = pool_invD [OF inv]
  have here: "at_job j (ws ! i)" using i(2) by simp
  have j: "j \<in> fst ` set started" using D(3) [OF i] by force
  show "length (ws[i := Working j ps g]) = n" using D(1) by simp
  show "Stopped \<notin> set (ws[i := Working j ps g])" by (rule set_update_in [OF D(2)]) simp
  show "distinct (map fst started)" by (rule D(7))
  show "(k, of_job k (all @ [(j, p)]) @ qs) \<in> set started" if "m < n" "ws[i := Working j ps g] ! m = Working k qs h" for m k qs h
  proof (cases "m = i")
    case True
    with that D(1) D(3) [OF i] show ?thesis by auto
  next
    case False
    with that D(1) have m: "ws ! m = Working k qs h" by simp
    with D(4) [OF that(1) i(1), of j] here False have "k \<noteq> j" by auto
    with D(3) [OF that(1) m] show ?thesis by simp
  qed
  show "l = m" if "l < n" "m < n" "at_job k (ws[i := Working j ps g] ! l) \<and> at_job k (ws[i := Working j ps g] ! m)" for l m k
    using that D(4) [of l m k] D(1) i here by (cases "l = i"; cases "m = i") auto
  show "(\<exists>m<n. at_job k (ws[i := Working j ps g] ! m)) \<or> of_job k (all @ [(j, p)]) = q" if "(k, q) \<in> set started" for k q
  proof (cases "k = j")
    case True
    with i(1) D(1) show ?thesis by (auto intro!: exI [of _ i])
  next
    case False
    from D(5) [OF that] show ?thesis
    proof
      assume "\<exists>m<n. at_job k (ws ! m)"
      then obtain m where "m < n" "at_job k (ws ! m)" by blast
      with i False show ?thesis by (cases "m = i") (auto intro!: exI [of _ m])
    qed (use False in simp)
  qed
  show "of_job k (all @ [(j, p)]) = []" if "k \<notin> fst ` set started" for k using that D(6) [of k] j by auto
qed

lemma pool_runs_inv:
  assumes "pool_runs n s jobs started out" and "wp_loop s" and "distinct jobs"
  shows "map fst started @ wp_jobs s = jobs \<and> pool_inv n (wp_workers s) started (out @ wp_results s)"
  using assms
proof (induction rule: pool_runs.induct)
  case pool_starts
  show ?case by (auto simp: spawn_workers_def pool_inv_def)
next
  case (pool_submits s jobs started out j)
  then show ?case by (auto simp: submit_def)
next
  case (pool_takes s jobs started out i j js parts g)
  then have IH: "map fst started @ wp_jobs s = jobs" "pool_inv n (wp_workers s) started (out @ wp_results s)" by auto
  have "distinct (map fst started @ j # js)" using IH(1) pool_takes(4,7) by simp
  then have "j \<notin> fst ` set started" by (metis disjoint_iff distinct_append list.set_intros(1) list.set_map)
  from inv_takes [OF IH(2) pool_takes(2,3) this] IH(1) pool_takes(4) show ?case by (auto simp: take_job_def)
next
  case (pool_idles s jobs started out i parts g)
  then show ?case by (auto simp: take_job_def split: if_splits)
next
  case (pool_works s jobs started out i)
  then have loop: "wp_loop s" and IH: "map fst started @ wp_jobs s = jobs" "pool_inv n (wp_workers s) started (out @ wp_results s)" by auto
  show ?case
  proof (cases "wp_workers s ! i")
    case (Working j ps g)
    show ?thesis
    proof (cases ps)
      case Nil
      with inv_done [OF IH(2) pool_works(2)] Working IH(1) show ?thesis by (simp add: work_def after_job_def)
    next
      case (Cons p ps')
      with inv_sends [OF IH(2) pool_works(2)] Working IH(1) loop show ?thesis by (simp add: work_def send_result_def)
    qed
  qed (use IH in \<open>simp_all add: work_def\<close>)
next
  case (pool_collects s jobs started out r rs)
  then show ?case by (simp add: collect_def)
next
  case (pool_ends s jobs started out)
  then show ?case by simp
qed

definition still_doing :: "('j, 'p) worker_pool \<Rightarrow> 'j \<Rightarrow> 'p list \<Rightarrow> bool" where
  \<comment> \<open>one worker, and only one, is at the job, with this left to hand over\<close>
  "still_doing s j rest \<longleftrightarrow>
     (\<exists>i<length (wp_workers s). (\<exists>g. wp_workers s ! i = Working j rest g)
        \<and> (\<forall>k<length (wp_workers s). at_job j (wp_workers s ! k) \<longrightarrow> k = i))"

lemma started_is_done:
  assumes inv: "pool_inv n (wp_workers s) started all" and p: "(j, parts) \<in> set started"
  shows "of_job j all = parts \<or> (\<exists>rest. still_doing s j rest \<and> of_job j all @ rest = parts)"
proof (cases "of_job j all = parts")
  note D = pool_invD [OF inv]
  case False
  with D(5) [OF p] obtain i where i: "i < n" "at_job j (wp_workers s ! i)" by blast
  then obtain rest g where w: "wp_workers s ! i = Working j rest g" by (auto simp: at_job_def)
  with D(3) [OF i(1) w] eq_key_imp_eq_value [OF D(7) p] have "of_job j all @ rest = parts" by auto
  moreover have "still_doing s j rest" unfolding still_doing_def D(1) using i w D(4) by blast
  ultimately show ?thesis by blast
qed simp

text \<open>
  C34: no request is lost between the two ends of the pool, none is done twice, and no client can cost the
  proxy a worker. However the workers are scheduled, while the event loop is there: jobs are taken in the
  order they were dispatched in; all the workers there were are there, at least one; of a job that was
  taken, what has been handed to the event loop is what its worker makes of it, in order and without a
  gap, but for what that worker has still to hand over; and only one worker is at it.
\<close>

theorem jobs_are_done_once:
  assumes "pool_runs n s jobs started out" and "n = resolve_threads cores t" and "wp_loop s" and "distinct jobs"
  shows "map fst started @ wp_jobs s = jobs \<and> 0 < n \<and> length (wp_workers s) = n \<and> Stopped \<notin> set (wp_workers s)
    \<and> (\<forall>(j, parts) \<in> set started. of_job j (out @ wp_results s) = parts
        \<or> (\<exists>rest. still_doing s j rest \<and> of_job j (out @ wp_results s) @ rest = parts))"
proof -
  from pool_runs_inv [OF assms(1,3,4)] have jobs: "map fst started @ wp_jobs s = jobs"
    and inv: "pool_inv n (wp_workers s) started (out @ wp_results s)" by auto
  have "0 < n" using resolve_threads_pos assms(2) by simp
  with jobs pool_invD(1,2) [OF inv] started_is_done [OF inv] show ?thesis by blast
qed

theorem jobs_are_done_once_witness:
  "of_job 1 (wp_results (work 0 (take_job 0 [''a'', ''b''] False (submit (2 :: nat) (submit 1 (spawn_workers 1)))))) = [''a'']
    \<and> (\<exists>rest. still_doing (work 0 (take_job 0 [''a'', ''b''] False (submit (2 :: nat) (submit 1 (spawn_workers 1))))) 1 rest
         \<and> [''a''] @ rest = [''a'', ''b''])"
proof -
  let ?s = "submit (2 :: nat) (submit 1 (spawn_workers 1)) :: (nat, string) worker_pool"
  let ?t = "work 0 (take_job 0 [''a'', ''b''] False ?s)"
  have "pool_runs 1 (spawn_workers 1 :: (nat, string) worker_pool) [] [] []" by (rule pool_starts)
  then have "pool_runs 1 (submit 1 (spawn_workers 1) :: (nat, string) worker_pool) ([] @ [1]) [] []"
    by (rule pool_submits) (simp add: spawn_workers_def)
  then have "pool_runs 1 ?s (([] @ [1]) @ [2]) [] []" by (rule pool_submits) (simp add: spawn_workers_def)
  then have "pool_runs 1 (take_job 0 [''a'', ''b''] False ?s) (([] @ [1]) @ [2]) ([] @ [(1, [''a'', ''b''])]) []"
    by (rule pool_takes [where js = "[2]"]) (simp_all add: spawn_workers_def submit_def)
  then have run: "pool_runs 1 ?t (([] @ [1]) @ [2]) ([] @ [(1, [''a'', ''b''])]) []" by (rule pool_works) simp
  have one: "(1 :: nat) = resolve_threads 4 (Count 1)" by (simp add: resolve_threads_def)
  have sent: "of_job 1 (wp_results ?t) = [''a'']" by (simp add: work_def take_job_def send_result_def submit_def spawn_workers_def of_job_def)
  from jobs_are_done_once [OF run one] sent show ?thesis by (simp add: spawn_workers_def)
qed
end
