(* ===== verification/Serving.thy ===== *)
theory Serving
  imports H3 Authority
begin

text \<open>
  main.rs and config.rs: what a start needs before it serves anything; tcp.rs: the pool of chains that
  requests borrow, and a connection from its first bytes to its first request, with the name callbacks
  of both TLS set-ups. What the machine, the origin of a spliced connection and the TLS library answer
  are parameters. Shown are that a process runs whole or not at all, that no two requests share a
  chain, and what a client has been shown whose traffic is decrypted.
\<close>


section \<open>Starting\<close>

datatype cli = Version_asked | Help_asked | Unknown_option str | Nothing_asked

definition answered_on_the_command_line :: "str list \<Rightarrow> cli" where
  \<comment> \<open>over the arguments after the first; an unknown one ends the process with 2\<close>
  "answered_on_the_command_line args =
     (if list_ex (\<lambda>a. a = ''--version'' \<or> a = ''-V'') args then Version_asked
      else if list_ex (\<lambda>a. a = ''--help'' \<or> a = ''-h'') args then Help_asked
      else (case args of unknown # _ \<Rightarrow> Unknown_option unknown | [] \<Rightarrow> Nothing_asked))"

record machine =
  \<comment> \<open>what a start finds\<close>
  mc_named :: "str option"
  mc_env :: environment
  mc_files :: files
  mc_toml :: "str \<Rightarrow> config option"
  mc_makes :: "str \<Rightarrow> bool"
    \<comment> \<open>whether a directory is there or can be made\<close>
  mc_random :: bool
    \<comment> \<open>whether there is randomness for \<open>token_key\<close>, which panics without\<close>
  mc_acceptor :: bool
  mc_quic :: bool
    \<comment> \<open>whether the two TLS set-ups succeed, the second with what the event loop polls\<close>
  mc_binds_tcp :: "socket_addr \<Rightarrow> bool"
  mc_binds_udp :: "socket_addr \<Rightarrow> bool"

definition load_config :: "machine \<Rightarrow> config option" where
  \<comment> \<open>\<open>Config::load\<close>: None is the error it ends with\<close>
  "load_config M =
     (case locate (mc_named M) (\<lambda>p. mc_files M p \<noteq> None) (mc_env M) of
        None \<Rightarrow> Some (default_config (mc_env M))
      | Some path \<Rightarrow>
          (case mc_files M path of
             None \<Rightarrow> None
           | Some bs \<Rightarrow>
               if valid_utf8 bs then map_option (normalize_config (HOME (mc_env M))) (mc_toml M (text_of bs)) else None))"

datatype unusable = No_home | Cannot_create

definition usable_directory :: "machine \<Rightarrow> str \<Rightarrow> unusable option" where
  "usable_directory M path =
     (if strip_tilde path \<noteq> None then Some No_home
      else if mc_makes M path then None else Some Cannot_create)"

datatype ('i, 'm) start = Exits nat | No_config | No_random | No_state unusable | No_root ca_error
  | No_acceptor | Tcp_taken | No_quic | Udp_taken
  | Runs config bool "('i, 'm) authority"
  \<comment> \<open>with whether there is a cache\<close>

definition start_up :: "('k, 'i) pki \<Rightarrow> machine \<Rightarrow> str list \<Rightarrow> ('i, 'm) start" where
  \<comment> \<open>\<open>main\<close> up to its loop; the refreshers of the lists only start threads\<close>
  "start_up P M args =
     (case answered_on_the_command_line args of
        Version_asked \<Rightarrow> Exits 0
      | Help_asked \<Rightarrow> Exits 0
      | Unknown_option a \<Rightarrow> Exits 2
      | Nothing_asked \<Rightarrow>
          (case load_config M of
             None \<Rightarrow> No_config
           | Some c \<Rightarrow>
               if \<not> mc_random M then No_random
               else (let cache = (usable_directory M (cache_dir (paths_section c)) = None)
                in case usable_directory M (state_dir (paths_section c)) of
                     Some e \<Rightarrow> No_state e
                   | None \<Rightarrow>
                       (case authority_from_config P c (mc_files M) of
                          Inl e \<Rightarrow> No_root e
                        | Inr ca \<Rightarrow>
                            if \<not> mc_acceptor M then No_acceptor
                            else if \<not> mc_binds_tcp M (listen_tcp c) then Tcp_taken
                            else if \<not> mc_quic M then No_quic
                            else if \<not> mc_binds_udp M (listen c) then Udp_taken
                            else Runs c cache ca))))"

text \<open>
  C20: it runs whole or not at all. A process that comes up has read its configuration, found a directory
  to keep what people chose in, under a real name, has the root its configuration names, if it names
  one, and holds both sockets; only the cache may be missing. Any argument it does not know ends it.
\<close>

theorem runs_whole_or_not_at_all:
  fixes ca :: "('i, 'm) authority"
  assumes "start_up P M args = Runs c cache ca"
  shows "args = [] \<and> load_config M = Some c \<and> mc_makes M (state_dir (paths_section c)) \<and> strip_tilde (state_dir (paths_section c)) = None
    \<and> mc_random M \<and> mc_acceptor M \<and> mc_quic M \<and> mc_binds_tcp M (listen_tcp c) \<and> mc_binds_udp M (listen c) \<and> authority_from_config P c (mc_files M) = Inr ca
    \<and> (ca_cert (ca_section c) \<noteq> None \<and> ca_key (ca_section c) \<noteq> None \<longrightarrow> \<not> au_ephemeral ca)
    \<and> (cache \<longleftrightarrow> strip_tilde (cache_dir (paths_section c)) = None \<and> mc_makes M (cache_dir (paths_section c)))"
proof -
  have a: "answered_on_the_command_line args = Nothing_asked" using assms by (auto simp: start_up_def split: cli.splits)
  then have "args = []" by (auto simp: answered_on_the_command_line_def split: list.splits if_splits)
  moreover obtain c' where c': "load_config M = Some c'" using assms a by (auto simp: start_up_def split: option.splits)
  moreover have m: "mc_random M" using assms a c' by (auto simp: start_up_def split: if_splits)
  moreover have u: "usable_directory M (state_dir (paths_section c')) = None"
    using assms a c' m by (auto simp: start_up_def Let_def split: option.splits)
  moreover obtain ca' :: "('i, 'm) authority" where ca: "authority_from_config P c' (mc_files M) = Inr ca'"
    using assms a c' m u by (auto simp: start_up_def Let_def split: sum.splits)
  moreover have r: "c = c'" "ca = ca'" "cache = (usable_directory M (cache_dir (paths_section c)) = None)"
    "mc_binds_tcp M (listen_tcp c)" "mc_binds_udp M (listen c)" "mc_acceptor M" "mc_quic M"
    using assms a c' m u ca by (auto simp: start_up_def Let_def split: if_splits)
  moreover have "\<not> au_ephemeral ca" if "ca_cert (ca_section c) \<noteq> None" "ca_key (ca_section c) \<noteq> None"
    using ca that r(1,2) by (auto simp: authority_from_config_def from_pem_def new_authority_def split: sum.splits option.splits if_splits)
  ultimately show ?thesis by (auto simp: usable_directory_def split: if_splits)
qed

definition sample_machine :: machine where
  "sample_machine = \<lparr>mc_named = None, mc_env = bare\<lparr>HOME := Some ''/h''\<rparr>, mc_files = Map.empty, mc_toml = (\<lambda>t. None),
     mc_makes = (\<lambda>p. True), mc_random = True, mc_acceptor = True, mc_quic = True, mc_binds_tcp = (\<lambda>a. True), mc_binds_udp = (\<lambda>a. True)\<rparr>"

theorem runs_whole_or_not_at_all_witness:
  "load_config sample_machine = Some (default_config (bare\<lparr>HOME := Some ''/h''\<rparr>))
    \<and> mc_makes sample_machine (state_dir (paths_section (default_config (bare\<lparr>HOME := Some ''/h''\<rparr>))))"
proof -
  let ?c = "default_config (bare\<lparr>HOME := Some ''/h''\<rparr>)"
  have l: "load_config sample_machine = Some ?c" by (simp add: load_config_def sample_machine_def locate_def Let_def)
  have s: "strip_tilde (state_dir (paths_section ?c)) = None"
    by (simp add: default_config_def default_paths_def default_state_dir_def bare_def home_def tilde_or_def path_join_def strip_tilde_def)
  have "start_up sample_pki sample_machine [] = Runs ?c (usable_directory sample_machine (cache_dir (paths_section ?c)) = None)
      (new_authority [] [2] True ?c :: (str, nat) authority)"
    using l s by (simp add: start_up_def answered_on_the_command_line_def usable_directory_def sample_machine_def Let_def
      half_named_is_ephemeral sample_pki_def)
      (simp add: default_config_def authority_from_config_def generate_dev_def)
  from runs_whole_or_not_at_all [OF this] l show ?thesis by blast
qed

text \<open>
  A variable of the XDG specification that is set to nothing counts as set: the directory is then
  relative to wherever the process was started.
\<close>

lemma empty_xdg_is_relative: "default_state_dir (env\<lparr>XDG_DATA_HOME := Some []\<rparr>) = ''mach5''"
  by (simp add: default_state_dir_def path_join_def)

section \<open>The pool of chains\<close>

record 'x chain_pool =
  cp_free :: "'x list"
    \<comment> \<open>the channel\<close>
  cp_lent :: "(nat \<times> 'x) list"
    \<comment> \<open>by request\<close>

datatype pool_event = Acquires nat | Drops nat

definition new_pool :: "'x list \<Rightarrow> 'x chain_pool" where
  "new_pool every = \<lparr>cp_free = every, cp_lent = []\<rparr>"

fun pool_step :: "pool_event \<Rightarrow> 'x chain_pool \<Rightarrow> 'x chain_pool" where
  \<comment> \<open>a request waits while none is free; \<open>Drops\<close> is \<open>Borrowed::drop\<close>\<close>
  "pool_step (Acquires r) p =
     (case cp_free p of
        [] \<Rightarrow> p
      | c # cs \<Rightarrow> if map_of (cp_lent p) r \<noteq> None then p else \<lparr>cp_free = cs, cp_lent = (r, c) # cp_lent p\<rparr>)"
| "pool_step (Drops r) p =
     (case map_of (cp_lent p) r of
        None \<Rightarrow> p
      | Some c \<Rightarrow> \<lparr>cp_free = cp_free p @ [c], cp_lent = AList.delete r (cp_lent p)\<rparr>)"

definition pool_ok :: "'x list \<Rightarrow> 'x chain_pool \<Rightarrow> bool" where
  "pool_ok every p \<longleftrightarrow> distinct (map fst (cp_lent p)) \<and> distinct (cp_free p @ map snd (cp_lent p))
     \<and> set (cp_free p @ map snd (cp_lent p)) = set every"

lemma delete_lent:
  assumes "distinct (map fst xs)" and "distinct (map snd xs)" and "map_of xs r = Some c"
  shows "distinct (map fst (AList.delete r xs)) \<and> distinct (map snd (AList.delete r xs))
    \<and> set (map snd (AList.delete r xs)) = set (map snd xs) - {c}"
proof -
  have c: "(r, c) \<in> set xs" using assms(3) by (rule map_of_SomeD)
  have fst: "e = e'" if "e \<in> set xs" "e' \<in> set xs" "fst e = fst e'" for e e'
    using assms(1) that by (auto simp: distinct_map inj_on_def)
  have snd: "e = e'" if "e \<in> set xs" "e' \<in> set xs" "snd e = snd e'" for e e'
    using assms(2) that by (auto simp: distinct_map inj_on_def)
  have "snd ` {e \<in> set xs. fst e \<noteq> r} = snd ` set xs - {c}"
  proof (rule set_eqI)
    fix v
    show "v \<in> snd ` {e \<in> set xs. fst e \<noteq> r} \<longleftrightarrow> v \<in> snd ` set xs - {c}"
    proof
      assume "v \<in> snd ` {e \<in> set xs. fst e \<noteq> r}"
      then obtain k where k: "(k, v) \<in> set xs" "k \<noteq> r" by auto
      then have "v \<noteq> c" using snd [OF k(1) c] by auto
      with k show "v \<in> snd ` set xs - {c}" by force
    next
      assume "v \<in> snd ` set xs - {c}"
      then obtain k where k: "(k, v) \<in> set xs" "v \<noteq> c" by auto
      then have "k \<noteq> r" using fst [OF k(1) c] by auto
      with k show "v \<in> snd ` {e \<in> set xs. fst e \<noteq> r}" by force
    qed
  qed
  moreover have "set (AList.delete r xs) = {e \<in> set xs. fst e \<noteq> r}" by (auto simp: AList.delete_eq)
  ultimately show ?thesis using assms(1,2) by (simp add: AList.delete_eq distinct_map_filter)
qed

lemma pool_step_ok: "pool_ok every p \<Longrightarrow> pool_ok every (pool_step e p)"
proof (cases e)
  case (Acquires r)
  assume "pool_ok every p"
  with Acquires show ?thesis
    by (auto simp: pool_ok_def map_of_eq_None_iff simp del: set_map split: list.split) (simp_all add: image_image)
next
  case (Drops r)
  assume ok: "pool_ok every p"
  show ?thesis
  proof (cases "map_of (cp_lent p) r")
    case None
    with ok Drops show ?thesis by simp
  next
    case (Some c)
    have "distinct (map fst (cp_lent p))" "distinct (map snd (cp_lent p))" using ok by (auto simp: pool_ok_def)
    note del = delete_lent [OF this Some]
    have "c \<in> set (map snd (cp_lent p))" using map_of_SomeD [OF Some] by force
    with del ok Drops Some show ?thesis by (auto simp: pool_ok_def)
  qed
qed

text \<open>
  C25: a chain is lent to one request at a time, and none is lost: in whatever order requests take chains
  and end, panicking or not, every chain of the pool is either free or lent to exactly one request,
  so what a plugin noted about a response when it was asked is not overwritten by another.
\<close>

theorem chains_are_not_shared:
  assumes "distinct every" and "p = fold pool_step events (new_pool every)"
  shows "distinct (map snd (cp_lent p)) \<and> distinct (map fst (cp_lent p)) \<and> set (cp_free p) \<inter> set (map snd (cp_lent p)) = {}
    \<and> set (cp_free p) \<union> set (map snd (cp_lent p)) = set every"
proof -
  have "pool_ok every (new_pool every)" using assms(1) by (simp add: pool_ok_def new_pool_def)
  then have "pool_ok every p" unfolding assms(2)
    by (induction events arbitrary: rule: rev_induct) (simp_all add: pool_step_ok)
  then show ?thesis by (auto simp: pool_ok_def)
qed

theorem chains_are_not_shared_witness:
  "distinct (map snd (cp_lent (fold pool_step [Acquires 1, Acquires 2, Drops 1, Acquires 3] (new_pool [0, 1 :: nat]))))"
  using chains_are_not_shared [of "[0, 1 :: nat]" _ "[Acquires 1, Acquires 2, Drops 1, Acquires 3]", OF _ refl] by simp

section \<open>A connection\<close>

definition hello_timeout :: "config \<Rightarrow> nat" where
  "hello_timeout c = hello_timeout_ms (limits_section c)"

definition HANDSHAKE_TIMEOUT :: nat where "HANDSHAKE_TIMEOUT = 10000"

record origin_reached =
  \<comment> \<open>what connecting to the origin of a spliced host finds\<close>
  og_here :: "socket_addr option"
  og_there :: "socket_addr option option"
    \<comment> \<open>None for an origin that cannot be reached, then for an address that cannot be read\<close>
  og_copied :: "nat option"
    \<comment> \<open>how much came back until either end closed\<close>

datatype spliced = No_address | Unreachable | Itself | Broke_off | Carried

definition splice :: "origin_reached \<Rightarrow> metrics \<Rightarrow> spliced \<times> metrics" where
  "splice og m =
     (case og_here og of
        None \<Rightarrow> (No_address, m)
      | Some arrived_at \<Rightarrow>
          (case og_there og of
             None \<Rightarrow> (Unreachable, m)
           | Some None \<Rightarrow> (No_address, m)
           | Some (Some there) \<Rightarrow>
               if there = arrived_at then (Itself, m)
               else
                 (let m = m\<lparr>passed_through := increment (passed_through m)\<rparr>;
                      m = m\<lparr>requests := increment (requests m)\<rparr>
                  in case og_copied og of
                       None \<Rightarrow> (Broke_off, m)
                     | Some returned \<Rightarrow> (Carried, to_client returned (from_origin returned m)))))"

datatype 'm connected = Passed_on str spliced | Handshake_refused str | Handshake_failed
  | Open_with "str option" "'m option"
  \<comment> \<open>the server name, and the leaf shown unless it is the default one\<close>

definition shown_leaf :: "'m issue \<Rightarrow> validity \<Rightarrow> ('m \<Rightarrow> bool) \<Rightarrow> moments \<Rightarrow> str \<Rightarrow> 'm leaves \<Rightarrow> 'm option \<times> 'm leaves" where
  \<comment> \<open>what \<open>install\<close> leaves in the connection; with None the default certificate stays\<close>
  "shown_leaf issue va takes t name c =
     (case leaf_for issue va t name c of
        (Some leaf, c) \<Rightarrow> (if takes (lf_material leaf) then Some (lf_material leaf) else None, c)
      | (None, c) \<Rightarrow> (None, c))"

lemma install_shows: "install_leaf takes issue va t name c = (fst (shown_leaf issue va takes t name c) \<noteq> None, snd (shown_leaf issue va takes t name c))"
  by (simp add: install_leaf_def shown_leaf_def split: prod.split option.split)

definition serve_connection :: "'m issue \<Rightarrow> validity \<Rightarrow> ('m \<Rightarrow> bool) \<Rightarrow> moments \<Rightarrow> nat \<Rightarrow> passthrough \<Rightarrow> peeked list \<Rightarrow> str option
    \<Rightarrow> origin_reached \<Rightarrow> bool \<Rightarrow> learned \<times> 'm leaves \<times> metrics \<Rightarrow> 'm connected \<times> learned \<times> 'm leaves \<times> metrics" where
  \<comment> \<open>\<open>serve\<close> up to the first request, with the name callback; \<open>in_time\<close> is whether the handshake succeeds within its time\<close>
  "serve_connection issue va takes t now p peeks sni og in_time st =
     (case st of (l, c, m) \<Rightarrow>
       (case serve now p peeks sni l of
          (Spliced host port, l) \<Rightarrow> (case splice og m of (r, m) \<Rightarrow> (Passed_on host r, l, c, m))
        | (Refused host, l) \<Rightarrow> (Handshake_refused host, l, c, m)
        | (Terminated None, l) \<Rightarrow> (if in_time then Open_with None None else Handshake_failed, l, c, m)
        | (Terminated (Some name), l) \<Rightarrow>
            (case shown_leaf issue va takes t name c of
               (shown, c) \<Rightarrow> (if in_time then Open_with (Some name) shown else Handshake_failed, l, c, m))))"

datatype 'm quic_name = Quic_refused | Quic_shows "'m option"

definition quic_named :: "'m issue \<Rightarrow> validity \<Rightarrow> ('m \<Rightarrow> bool) \<Rightarrow> moments \<Rightarrow> nat \<Rightarrow> passthrough \<Rightarrow> str option
    \<Rightarrow> learned \<times> 'm leaves \<Rightarrow> 'm quic_name \<times> learned \<times> 'm leaves" where
  \<comment> \<open>the name callback of \<open>build_quic_config\<close>: there is no splicing a QUIC connection\<close>
  "quic_named issue va takes t now p sni st =
     (case st of (l, c) \<Rightarrow>
       (case quic_sni now p sni l of
          (False, l) \<Rightarrow> (Quic_refused, l, c)
        | (True, l) \<Rightarrow>
            (case sni of
               None \<Rightarrow> (Quic_shows None, l, c)
             | Some name \<Rightarrow> (case shown_leaf issue va takes t name c of (shown, c) \<Rightarrow> (Quic_shows shown, l, c)))))"

lemma serve_terminated_name: "fst (serve now p peeks sni l) = Terminated x \<Longrightarrow> x = sni"
  by (auto simp: serve_def check_sni_def Let_def split: prod.splits option.splits if_splits)

lemma leaf_for_made:
  assumes "leaf_for issue va t sni c = (Some leaf, c')" and "\<And>n h. map_of c n = Some h \<Longrightarrow> made_for issue va n (held_leaf h)"
  shows "made_for issue va (leaf_key sni) leaf"
proof (cases "fst (cached_leaf va (looked t) (looked_at t) (leaf_key sni) c)")
  case None
  then obtain c0 where c0: "cached_leaf va (looked t) (looked_at t) (leaf_key sni) c = (None, c0)" by (metis prod.collapse)
  with assms(1) show ?thesis by (auto simp: leaf_for_def Let_def made_for_def split: option.splits)
next
  case (Some x)
  then obtain c0 where c0: "cached_leaf va (looked t) (looked_at t) (leaf_key sni) c = (Some x, c0)" by (metis prod.collapse)
  with assms(1) have "x = leaf" by (simp add: leaf_for_def Let_def)
  with c0 assms(2) show ?thesis by (auto elim!: cached_leaf_Some)
qed

definition shows_own_name :: "'m issue \<Rightarrow> validity \<Rightarrow> str \<Rightarrow> 'm option \<Rightarrow> bool" where
  \<comment> \<open>the certificate was issued for the name, unless it is the default one\<close>
  "shows_own_name issue va name shown \<longleftrightarrow>
     (\<forall>x. shown = Some x \<longrightarrow> (\<exists>t0. issue (leaf_key name) (t0 - va_clock_skew va) (t0 + va_ttl va) = Some x))"

lemma shown_leaf_right:
  assumes "serving issue va c flying given" and "shown_leaf issue va takes t name c = (shown, c')"
  shows "shows_own_name issue va name shown \<and> (\<exists>flying' given'. serving issue va c' flying' given')"
proof -
  obtain got where got: "leaf_for issue va t name c = (got, c')"
    using assms(2) by (auto simp: shown_leaf_def split: prod.splits option.splits)
  have "\<And>n h. map_of c n = Some h \<Longrightarrow> made_for issue va n (held_leaf h)" using serving_inv [OF assms(1)] by blast
  with leaf_for_made got have "made_for issue va (leaf_key name) leaf" if "got = Some leaf" for leaf using that by blast
  then have "shows_own_name issue va name shown"
    using assms(2) got by (auto simp: shown_leaf_def shows_own_name_def made_for_def mint_leaf_def Let_def split: option.splits if_splits)
  with leaf_for_serves [OF assms(1) got] show ?thesis by blast
qed

text \<open>
  C4: what a client that gets through a handshake has been shown. The name it asked for is one that may be
  decrypted, by the lists and by what has been learned; the certificate, unless it is the default one,
  was issued for that very name; and the cache of leaves stays one that the next handshake may rely on.
  That is so over TCP, whatever was read of the hello before, and over QUIC.
\<close>

theorem decrypted_under_its_own_name:
  assumes "serving issue va c flying given"
  shows "(serve_connection issue va takes t now p peeks sni og in_time (l, c, m) = (Open_with (Some name) shown, l', c', m')
      \<longrightarrow> sni = Some name \<and> \<not> fst (never_decrypt now p name l) \<and> shows_own_name issue va name shown
        \<and> (\<exists>flying' given'. serving issue va c' flying' given') \<and> m' = m)
    \<and> (quic_named issue va takes t now p (Some name) (l, c) = (Quic_shows shown, l', c')
      \<longrightarrow> \<not> fst (never_decrypt now p name l) \<and> shows_own_name issue va name shown
        \<and> (\<exists>flying' given'. serving issue va c' flying' given'))"
proof (intro conjI impI)
  assume op: "serve_connection issue va takes t now p peeks sni og in_time (l, c, m) = (Open_with (Some name) shown, l', c', m')"
  obtain l2 where s: "serve now p peeks sni l = (Terminated (Some name), l2)"
    using op by (auto simp: serve_connection_def split: prod.splits outcome.splits option.splits if_splits)
  then show sni: "sni = Some name" using serve_terminated_name [of now p peeks sni l "Some name"] by simp
  show "\<not> fst (never_decrypt now p name l)" using never_terminated [of now p name l peeks] s sni by auto
  have shown: "shown_leaf issue va takes t name c = (shown, c')" and "m' = m"
    using op s by (auto simp: serve_connection_def split: prod.splits if_splits)
  with shown_leaf_right [OF assms shown] show "shows_own_name issue va name shown"
    "\<exists>flying' given'. serving issue va c' flying' given'" "m' = m" by blast+
next
  assume named: "quic_named issue va takes t now p (Some name) (l, c) = (Quic_shows shown, l', c')"
  then show "\<not> fst (never_decrypt now p name l)" by (auto simp: quic_named_def quic_sni_def split: prod.splits bool.splits)
  have shown: "shown_leaf issue va takes t name c = (shown, c')"
    using named by (auto simp: quic_named_def quic_sni_def split: prod.splits bool.splits)
  with shown_leaf_right [OF assms shown] show "shows_own_name issue va name shown"
    "\<exists>flying' given'. serving issue va c' flying' given'" by blast+
qed

theorem decrypted_under_its_own_name_witness:
  "\<not> fst (never_decrypt 0 two_hosts ''c.d'' nothing_learned) \<and> shows_own_name sample_issue sample_validity ''c.d'' (Some (''c.d'', 105))"
proof -
  let ?t = "\<lparr>looked = 5, looked_at = 0, minted = 5, kept = 5, kept_at = 0\<rparr>"
  let ?run = "quic_named sample_issue sample_validity (\<lambda>_. True) ?t 0 two_hosts (Some ''c.d'') (nothing_learned, [])"
  have "fst ?run = Quic_shows (Some (''c.d'', 105))" by code_simp
  then obtain l' c' where "?run = (Quic_shows (Some (''c.d'', 105)), l', c')" by (metis surj_pair fst_conv)
  then show ?thesis using decrypted_under_its_own_name [OF serving.started, of sample_issue sample_validity] by blast
qed
end
