(* ===== verification/Spec2Isabelle.thy ===== *)
theory Spec2Isabelle
  imports Blocklist Redact Resolver Settings Insecure Disk Link Imagecache Httpcache Interceptor Encoding Images Budget Uploads Tokens Interstitial Fetch Upstream Inject Passthrough Internal H3 Fronts Plugins Authority Connect Workers Serving
begin

text \<open>
  mach5 is a local forward proxy: it terminates TLS and QUIC for names under its own domains, fetches
  the page from the origin, and rewrites what comes back (blocking, image conversion, compression,
  injection of its own script). This development models the Rust program under src/proxy/src.

  How a request travels. A TCP connection is looked at before anything is decrypted (Hello, Passthrough):
  one to a host that is to be left alone is carried to its origin untouched, any other is terminated
  (Serving), under a leaf certificate made for its name (Authority); a QUIC datagram finds or makes its
  connection, once the client's address has been validated (Connect, Tokens).
  A front end (Tcp over hyper, H3 with Uploads and Tokens over quiche) makes the request of the chain
  of what arrived, asks the interceptors before the body is read, reads the body under a cap (Body),
  asks the interceptors again (Interceptor, whose links are Internal, Blocklist, Images, Inject,
  Plugins, Upstream's loop guard and others), and calls the origin (Upstream), which looks into the store of
  answers (Httpcache) first, resolves the name (Resolver), and picks a connection pool that checks
  certificates unless the host was bypassed (Insecure). The response is decoded, goes through the chain
  again, is converted, injected into and compressed (Encoding, Images, Imagecache, Inject), whole or as
  it streams, and is sent under a budget of bytes in flight (Budget). The speed of the client's link
  (Link) and the panel's settings (Settings) decide the quality of images. Requests under /.mach5/ are
  answered by the proxy itself (Internal, Statuspage, Hidden, Cosmetic, Interstitial). Lists of rules
  are fetched and kept on disk (Fetch, Filestore, Disk).

  Theories and what they model:
    Prelude       bytes, strings, ASCII case, prefixes, splitting, decimal numbers, read_limited
    Floats, Utf8  the f64 comparisons of link.rs (as rationals rounded by a parameter), UTF-8
    Host          host.rs: names, parents, cover test, normalisation
    Message       interceptor.rs types, main.rs host_of
    Config        config.rs: the configuration record, defaults and derived values
    Metrics       metrics.rs: counters and their display
    Blocklist     blocklist.rs: list formats, build, decision, refresh
    Redact        redact.rs: what is logged of a URL or an error
    Resolver      resolver.rs: the order of addresses
    Settings      settings.rs: the panel's settings and their persistence
    Insecure      insecure.rs: tokens and certificate bypasses
    Filestore     the file system as a map from paths to bytes, with failing operations
    Disk          disk.rs: atomic replacement under interleaving, sweeping
    Link          link.rs: throughput estimates and tiers
    Imagecache    imagecache.rs, Httpcache httpcache.rs: the two stores on disk
    Interceptor   interceptor.rs: hooks, the chain and its two phases, stamping
    Encoding      encoding.rs: negotiation, decoding, compression, streaming decoder
    Images        images.rs: claiming, converting and replacing images
    Hello         passthrough.rs: the ClientHello, its records and the server name in it
    Passthrough   passthrough.rs: learned hosts, lists, refresh; tcp.rs: peeking and what becomes of a connection
    Mappings      finite maps of the library: what filtering, updating and folding them gives
    Hidden        internal.rs: the selectors people picked, per host, bounded and kept on disk
    Cosmetic      cosmetic.rs: the lines of cosmetic lists and which selectors they hide on a host
    Statuspage    internal.rs: the status page and its rows; metrics.rs: the snapshot it shows
    Internal      internal.rs: the endpoints under /.mach5/, their guard, and the link of the chain
    Inject        inject.rs: the tags on every page, whole and streamed, deferred images
    Budget        budget.rs: claims, releases, stalls
    Body          body.rs: reading a request body chunk by chunk under a cap
    Uploads       main.rs: the event loop's side of uploads (pump_uploads, overflow, reset)
    Tokens        main.rs: address validation tokens of QUIC
    Interstitial  interstitial.rs: the proxy's own pages
    Css           how a browser cuts a stylesheet into rules: what the one Internal writes is read back with
    Fetch         fetch.rs: conditional fetching of lists
    Upstream      upstream.rs: the request to the origin, revalidation, relaying, storing
    Tcp           tcp.rs: a request of hyper's, the whole of a fetch, the link's measurement, the answer
    H3            main.rs: a request of quiche's, the worker's job, filing its parts, writing a stream
    Fronts        both front ends side by side
    Plugins       plugin.rs: a plugin process over its pipe, what it is asked and what its answers may change
    Authority     ca.rs: the cache of leaf certificates, and where the root comes from
    Connect       main.rs: datagrams, connection ids, the requests of a connection, the turns of the event loop
    Workers       main.rs: the pool of workers, their jobs and what they hand to the event loop
    Serving       main.rs, config.rs, tcp.rs: start-up, the pool of chains, a connection up to its first request

  Conventions. Definitions carry the names of the source. Bytes are lists of 8-bit words, Rust
  strings are strings of characters below 256 (each character of a str is its UTF-8 bytes where the
  code looks at bytes), Vec is list, HashMap is a map or an association list where order matters,
  u64 and usize are natural numbers with wrap-around or saturation written out where the code has
  it, Result and Option are sums and options. State behind a Mutex is passed explicitly, one step per
  critical section; where several threads or processes interleave (Disk, Uploads, Budget), the
  theorems range over all schedules. Code outside src/ is a parameter of the definitions: the hash,
  the codecs of serde, flate2, brotli and image, the clock, DNS, ureq's transport, HMAC, rcgen, quiche.

  What the lemmas show: the functional behaviour of each operation on its branches; invariants of
  the stores (Link, Insecure, Blocklist, Uploads, Budget) over any sequence of operations, proved
  inside locales interpreted on the model's own operations; safety of concurrent replacement on disk;
  round trips (tokens, escapes, settings, validators, stylesheets, a hello and its parser); refinement (compression and caching change
  nothing a client reads); equivalence of the two front ends; termination of the waits of Budget; what no plugin can do, however it
  answers; that a QUIC connection exists only for a validated address, and that a decrypted name is one
  that may be decrypted, under a certificate of its own.

  Bounds. Loops are structural recursions on the data or have a measure; no fuel is used except in
  Budget.claim, whose list of waits is its fuel and for which claim_returns shows how many are enough.

  Not modelled: the making and signing of keys and certificates (rcgen and BoringSSL: a parameter of
  Authority), the state of TLS, QUIC and HTTP connections (quiche, hyper: fields of Connect's quiche
  and parameters of Tcp), the plugin's process itself (a plugin is what its pipe answers, in Plugins),
  the parser of HTML (lol_html), the image codecs, DNS, the numbers quiche is configured with, the text
  of the log, and the panel's HTML and JavaScript. Coarser than the code: redeeming a token takes two
  locks one after the other and is one step here (Insecure); a worker does not panic (Workers); a
  condition variable does not wake for no reason (Budget.claim_returns); the head of an HTTP/3 answer is
  what was last handed over (H3).
\<close>

end
